(* ===== verification/Prelude.thy ===== *)
theory Prelude
  imports Complex_Main "HOL-Library.Multiset" "HOL-Library.Log_Nat" "HOL-Library.Code_Target_Nat"
begin

text \<open>
  What the components share: the collection of string constants that are unfolded to
  evaluate closed terms, the bytes of the few non-ASCII characters the page prints, the
  case folding of ASCII letters, and the integer logarithm of a positive rational (used by
  the rounding of numbers and by their decimal output).

  A JavaScript string is modelled by its UTF-8 bytes, as a \<open>char list\<close>. Every string
  operation the page performs on data (concatenation, equality, replacing the five ASCII
  characters of HTML, percent-encoding) acts on the bytes exactly as it does on the code
  units.
\<close>

named_theorems literal_simps \<open>string constants, unfolded to evaluate closed terms\<close>

section \<open>Characters outside ASCII\<close>

definition em_dash :: string where
  "em_dash = [CHR 0xE2, CHR 0x80, CHR 0x94]"

definition middle_dot :: string where
  "middle_dot = [CHR 0xC2, CHR 0xB7]"

definition ellipsis :: string where
  "ellipsis = [CHR 0xE2, CHR 0x80, CHR 0xA6]"

definition arrow_up :: string where
  "arrow_up = [CHR 0xE2, CHR 0x86, CHR 0x91]"

definition arrow_down :: string where
  "arrow_down = [CHR 0xE2, CHR 0x86, CHR 0x93]"

definition arrow_both :: string where
  "arrow_both = [CHR 0xE2, CHR 0x86, CHR 0x95]"

lemmas [literal_simps] =
  em_dash_def middle_dot_def ellipsis_def arrow_up_def arrow_down_def arrow_both_def

section \<open>Case folding of ASCII letters\<close>

definition lower_char :: "char \<Rightarrow> char" where
  "lower_char c = (if 65 \<le> (of_char c :: nat) \<and> (of_char c :: nat) \<le> 90
     then char_of ((of_char c :: nat) + 32) else c)"

definition to_lower :: "string \<Rightarrow> string" where
  "to_lower s = map lower_char s"

lemma lower_char_code:
  "(of_char (lower_char c) :: nat) =
     (if 65 \<le> (of_char c :: nat) \<and> (of_char c :: nat) \<le> 90 then of_char c + 32 else of_char c)"
  by (simp add: lower_char_def)

lemma lower_char_idem [simp]: "lower_char (lower_char c) = lower_char c"
  by (subst lower_char_def) (auto simp: lower_char_code)

lemma to_lower_idem [simp]: "to_lower (to_lower s) = to_lower s"
  by (simp add: to_lower_def comp_def)

lemma to_lower_Nil_iff [simp]: "to_lower s = [] \<longleftrightarrow> s = []" "[] = to_lower s \<longleftrightarrow> s = []"
  by (auto simp: to_lower_def)

lemma to_lower_Nil [simp]: "to_lower [] = []"
  by (simp add: to_lower_def)

section \<open>Integer logarithm of a positive rational\<close>

definition ilog :: "nat \<Rightarrow> rat \<Rightarrow> int" where
  "ilog b q = (case quotient_of q of (n, d) \<Rightarrow>
     let k = int (floorlog b (nat n)) - int (floorlog b (nat d))
     in if of_nat b powi k \<le> q then k else k - 1)"

lemma powi_le_iff [simp]:
  fixes x :: rat
  assumes "1 < x"
  shows "x powi m \<le> x powi n \<longleftrightarrow> m \<le> n" and "x powi m < x powi n \<longleftrightarrow> m < n"
proof -
  have le: "x powi m \<le> x powi n" if "m \<le> n" for m n
    using that assms by (simp add: power_int_increasing)
  have less: "x powi m < x powi n" if "m < n" for m n
    using that assms by (simp add: power_int_strict_increasing)
  show "x powi m \<le> x powi n \<longleftrightarrow> m \<le> n"
    using le [of m n] less [of n m] by linarith
  show "x powi m < x powi n \<longleftrightarrow> m < n"
    using less [of m n] le [of n m] by linarith
qed

lemma floorlog_powi:
  assumes "1 < b" and "0 < n"
  shows "(of_nat b :: rat) powi (int (floorlog b n) - 1) \<le> of_nat n"
    and "of_nat n < (of_nat b :: rat) powi int (floorlog b n)"
proof -
  have pos: "0 < floorlog b n"
    using assms by (simp add: floorlog_def)
  have bounds: "b ^ (floorlog b n - 1) \<le> n \<and> n < b ^ floorlog b n"
    using floorlog_bounds assms by blast
  have "nat (int (floorlog b n) - 1) = floorlog b n - 1"
    using pos by simp
  then have "(of_nat b :: rat) powi (int (floorlog b n) - 1) = of_nat (b ^ (floorlog b n - 1))"
    using pos by (simp add: power_int_def)
  then show "(of_nat b :: rat) powi (int (floorlog b n) - 1) \<le> of_nat n"
    using bounds by (simp only: of_nat_le_iff)
  show "of_nat n < (of_nat b :: rat) powi int (floorlog b n)"
    using bounds of_nat_less_iff [of n "b ^ floorlog b n", where ?'a = rat] by simp
qed

lemma ilog_bounds:
  assumes b: "1 < b" and q: "0 < q"
  shows "of_nat b powi ilog b q \<le> q" and "q < of_nat b powi (ilog b q + 1)"
proof -
  obtain n d where nd: "quotient_of q = (n, d)" by (cases "quotient_of q") auto
  have d: "0 < d" using quotient_of_denom_pos nd by blast
  have qnd: "q = of_int n / of_int d" using quotient_of_div nd by blast
  have n: "0 < n" using q d qnd by (simp add: zero_less_divide_iff)
  define B where "B = (of_nat b :: rat)"
  define ln where "ln = int (floorlog b (nat n))"
  define ld where "ld = int (floorlog b (nat d))"
  have B: "1 < B" and B0: "0 < B" using b by (simp_all add: B_def)
  have n1: "B powi (ln - 1) \<le> of_int n" and n2: "of_int n < B powi ln"
    using floorlog_powi [of b "nat n"] b n by (simp_all add: B_def ln_def)
  have d1: "B powi (ld - 1) \<le> of_int d" and d2: "of_int d < B powi ld"
    using floorlog_powi [of b "nat d"] b d by (simp_all add: B_def ld_def)
  have "B powi (ln - 1) / B powi ld \<le> q"
    unfolding qnd by (rule frac_le) (use n n1 d2 d in simp_all)
  then have lo: "B powi (ln - 1 - ld) \<le> q"
    using B0 by (simp add: power_int_diff)
  have "q < B powi ln / B powi (ld - 1)"
    unfolding qnd by (rule frac_less) (use n2 d1 n B0 in simp_all)
  then have hi: "q < B powi (ln - (ld - 1))"
    using B0 by (simp add: power_int_diff)
  have il: "ilog b q = (if B powi (ln - ld) \<le> q then ln - ld else ln - ld - 1)"
    by (simp add: ilog_def nd Let_def B_def ln_def ld_def)
  have "B powi ilog b q \<le> q \<and> q < B powi (ilog b q + 1)"
  proof (cases "B powi (ln - ld) \<le> q")
    case True
    then have e: "ilog b q = ln - ld" using il by simp
    show ?thesis unfolding e using True hi by (simp add: algebra_simps)
  next
    case False
    then have e: "ilog b q = ln - ld - 1" using il by simp
    show ?thesis unfolding e using False lo by (simp add: algebra_simps)
  qed
  then show "of_nat b powi ilog b q \<le> q" and "q < of_nat b powi (ilog b q + 1)"
    by (simp_all add: B_def)
qed

lemma ilog_unique:
  assumes "1 < b" and "of_nat b powi k \<le> q" and "q < of_nat b powi (k + 1)"
  shows "ilog b q = k"
proof -
  have "0 < (of_nat b :: rat) powi k" using assms(1) by simp
  then have q: "0 < q" using assms(2) by linarith
  have B: "1 < (of_nat b :: rat)" using assms(1) by simp
  have "(of_nat b :: rat) powi ilog b q < of_nat b powi (k + 1)"
    using ilog_bounds(1) [OF assms(1) q] assms(3) by linarith
  then have "ilog b q < k + 1" using B by simp
  moreover have "(of_nat b :: rat) powi k < of_nat b powi (ilog b q + 1)"
    using ilog_bounds(2) [OF assms(1) q] assms(2) by linarith
  then have "k < ilog b q + 1" using B by simp
  ultimately show ?thesis by simp
qed

lemma ilog_mono:
  assumes "1 < b" and "0 < q" and "q \<le> r"
  shows "ilog b q \<le> ilog b r"
proof -
  have B: "1 < (of_nat b :: rat)" using assms(1) by simp
  have "(of_nat b :: rat) powi ilog b q < of_nat b powi (ilog b r + 1)"
    using ilog_bounds(1) [of b q] ilog_bounds(2) [of b r] assms by linarith
  then show ?thesis using B by simp
qed

end
