(* ===== verification/Doubles.thy ===== *)
theory Doubles
  imports Prelude
begin

text \<open>
  JavaScript numbers: IEEE 754 binary64 values and the operations the page performs on
  them. A finite value is kept as the rational it denotes (negative zero apart), every
  arithmetic operation is the exact rational operation followed by rounding to the nearest
  representable value, ties to even, with gradual underflow and overflow to infinity. The
  locale \<open>rounding\<close> states what the bounds proved about the page's computations need of
  the rounding (monotone, odd, idempotent); it is interpreted on \<open>rnd64\<close>.
\<close>

section \<open>Rounding a rational to an integer\<close>

definition round_half_even :: "rat \<Rightarrow> int" where
  "round_half_even q = (let f = \<lfloor>q\<rfloor>; d = q - of_int f in
     if d < 1/2 then f else if 1/2 < d then f + 1 else if even f then f else f + 1)"

lemma round_half_even_cases:
  obtains "\<bar>of_int (round_half_even q) - q\<bar> < 1/2"
  | "\<bar>of_int (round_half_even q) - q\<bar> = 1/2" and "even (round_half_even q)"
proof -
  have f: "of_int \<lfloor>q\<rfloor> \<le> q" "q < of_int \<lfloor>q\<rfloor> + 1" by linarith+
  show thesis
  proof (cases "q - of_int \<lfloor>q\<rfloor> = 1/2")
    case True
    then have q: "q = of_int \<lfloor>q\<rfloor> + 1/2" by linarith
    have r: "round_half_even q = (if even \<lfloor>q\<rfloor> then \<lfloor>q\<rfloor> else \<lfloor>q\<rfloor> + 1)"
      using True by (simp add: round_half_even_def)
    have "\<bar>of_int (round_half_even q) - q\<bar> = 1/2" using r True by (auto simp: abs_if)
    moreover have "even (round_half_even q)" using r by simp
    ultimately show thesis by (rule that(2))
  next
    case False
    then have "round_half_even q = (if q - of_int \<lfloor>q\<rfloor> < 1/2 then \<lfloor>q\<rfloor> else \<lfloor>q\<rfloor> + 1)"
      by (auto simp: round_half_even_def Let_def)
    moreover have "\<bar>of_int \<lfloor>q\<rfloor> - q\<bar> < 1/2" if "q - of_int \<lfloor>q\<rfloor> < 1/2"
      using f that by linarith
    moreover have "\<bar>of_int \<lfloor>q\<rfloor> + 1 - q\<bar> < 1/2" if "\<not> q - of_int \<lfloor>q\<rfloor> < 1/2"
      using f that False by linarith
    ultimately have "\<bar>of_int (round_half_even q) - q\<bar> < 1/2" by simp
    then show thesis by (rule that(1))
  qed
qed

lemma round_half_even_close: "\<bar>of_int (round_half_even q) - q\<bar> \<le> 1/2"
  by (rule round_half_even_cases [of q]) auto

lemma round_half_even_unique:
  assumes "\<bar>of_int n - q\<bar> < 1/2 \<or> \<bar>of_int n - q\<bar> = 1/2 \<and> even n"
  shows "round_half_even q = n"
proof (rule ccontr)
  let ?r = "round_half_even q"
  assume ne: "?r \<noteq> n"
  have c: "\<bar>of_int ?r - q\<bar> \<le> 1/2" by (rule round_half_even_close)
  have "\<bar>of_int ?r - of_int n :: rat\<bar> \<ge> 1"
    using ne of_int_le_iff [of 1 "\<bar>?r - n\<bar>", where ?'a = rat] by simp
  then have e: "\<bar>of_int ?r - q\<bar> = 1/2" "\<bar>of_int n - q\<bar> = 1/2" "\<bar>of_int ?r - of_int n :: rat\<bar> = 1"
    using c assms by linarith+
  then have ev: "even n" using assms by auto
  have "\<bar>?r - n\<bar> = 1" using e(3) of_int_eq_iff [of "\<bar>?r - n\<bar>" 1, where ?'a = rat] by simp
  then have "odd ?r" using ev by presburger
  moreover have "even ?r" by (rule round_half_even_cases [of q]) (use e(1) in auto)
  ultimately show False by simp
qed

lemma round_half_even_of_int [simp]: "round_half_even (of_int n) = n"
  by (rule round_half_even_unique) simp

lemma round_half_even_minus: "round_half_even (- q) = - round_half_even q"
proof (rule round_half_even_unique)
  show "\<bar>of_int (- round_half_even q) - - q\<bar> < 1/2 \<or>
    \<bar>of_int (- round_half_even q) - - q\<bar> = 1/2 \<and> even (- round_half_even q)"
    by (rule round_half_even_cases [of q]) (simp_all add: abs_minus_commute)
qed

lemma round_half_even_mono:
  assumes "q \<le> r" shows "round_half_even q \<le> round_half_even r"
proof (rule ccontr)
  assume "\<not> ?thesis"
  then have "round_half_even r + 1 \<le> round_half_even q" by simp
  then have "of_int (round_half_even r) + 1 \<le> (of_int (round_half_even q) :: rat)"
    using of_int_le_iff [of "round_half_even r + 1" "round_half_even q", where ?'a = rat] by simp
  then have "q = r"
    using assms round_half_even_close [of q] round_half_even_close [of r] by linarith
  with \<open>\<not> ?thesis\<close> show False by simp
qed

section \<open>Rounding to binary64\<close>

definition ulp_exp :: "rat \<Rightarrow> int" where
  "ulp_exp q = max (ilog 2 \<bar>q\<bar> - 52) (- 1074)"

definition rnd64 :: "rat \<Rightarrow> rat" where
  "rnd64 q = (if q = 0 then 0
     else of_int (round_half_even (q / 2 powi ulp_exp q)) * 2 powi ulp_exp q)"

text \<open>The representable values, the exponent range of overflow left aside.\<close>

definition repr64 :: "rat \<Rightarrow> bool" where
  "repr64 q \<longleftrightarrow> (\<exists>m u. q = of_int m * 2 powi u \<and> \<bar>m\<bar> \<le> 2 ^ 53 \<and> - 1074 \<le> u)"

lemma rnd64_0 [simp]: "rnd64 0 = 0"
  by (simp add: rnd64_def)

lemma ulp_exp_minus [simp]: "ulp_exp (- q) = ulp_exp q"
  by (simp add: ulp_exp_def)

lemma rnd64_minus [simp]: "rnd64 (- q) = - rnd64 q"
  by (simp add: rnd64_def round_half_even_minus)

lemma ulp_exp_ge: "- 1074 \<le> ulp_exp q"
  by (simp add: ulp_exp_def)

lemma ulp_exp_pos:
  assumes "0 < q"
  shows "q < 2 powi (ulp_exp q + 53)"
    and "ulp_exp q = - 1074 \<or> 2 powi (ulp_exp q + 52) \<le> q"
proof -
  have "q < 2 powi (ilog 2 q + 1)" using ilog_bounds(2) [of 2 q] assms by simp
  also have "\<dots> \<le> 2 powi (ulp_exp q + 53)"
    using assms by (subst powi_le_iff) (simp_all add: ulp_exp_def)
  finally show "q < 2 powi (ulp_exp q + 53)" .
  show "ulp_exp q = - 1074 \<or> 2 powi (ulp_exp q + 52) \<le> q"
    using ilog_bounds(1) [of 2 q] assms by (auto simp: ulp_exp_def max_def)
qed

text \<open>Multiples of the unit in the last place are fixed bounds of the rounding.\<close>

lemma rnd64_le_multiple:
  assumes "q \<noteq> 0" and "b = of_int k * 2 powi ulp_exp q"
  shows "q \<le> b \<Longrightarrow> rnd64 q \<le> b" and "b \<le> q \<Longrightarrow> b \<le> rnd64 q"
proof -
  let ?u = "2 powi ulp_exp q :: rat"
  have u: "0 < ?u" by simp
  { assume "q \<le> b"
    then have "q / ?u \<le> of_int k" using assms(2) u by (simp add: pos_divide_le_eq)
    then have "round_half_even (q / ?u) \<le> k" using round_half_even_mono by fastforce
    then show "rnd64 q \<le> b" using assms u by (simp add: rnd64_def) }
  { assume "b \<le> q"
    then have "of_int k \<le> q / ?u" using assms(2) u by (simp add: pos_le_divide_eq)
    then have "k \<le> round_half_even (q / ?u)" using round_half_even_mono by fastforce
    then show "b \<le> rnd64 q" using assms u by (simp add: rnd64_def) }
qed

lemma powi_multiple:
  assumes "v \<le> u"
  shows "of_int m * (2 :: rat) powi u = of_int (m * 2 ^ nat (u - v)) * 2 powi v"
proof -
  have "(2 :: rat) powi u = 2 powi (u - v) * 2 powi v"
    by (simp flip: power_int_add)
  also have "(2 :: rat) powi (u - v) = 2 ^ nat (u - v)"
    using assms by (simp add: power_int_def)
  finally show ?thesis by simp
qed

lemma repr64_le_powi:
  assumes "b = (of_int m :: rat) * 2 powi v" and "\<bar>m\<bar> \<le> 2 ^ 53"
  shows "b \<le> 2 powi (v + 53)"
proof -
  have "(of_int m :: rat) \<le> 2 ^ 53"
    using assms(2) of_int_le_iff [of m "2 ^ 53", where ?'a = rat] by simp
  then have "b \<le> 2 ^ 53 * 2 powi v" using assms(1) by simp
  also have "\<dots> = 2 powi (v + 53)" by (simp add: power_int_add)
  finally show ?thesis .
qed

lemma rnd64_lower:
  assumes "repr64 b" and "0 < q" and "b \<le> q"
  shows "b \<le> rnd64 q"
proof -
  obtain m v where b: "b = of_int m * 2 powi v" and m: "\<bar>m\<bar> \<le> 2 ^ 53" and v: "- 1074 \<le> v"
    using assms(1) by (auto simp: repr64_def)
  show ?thesis
  proof (cases "ulp_exp q \<le> v")
    case True
    then show ?thesis
      using rnd64_le_multiple(2) [OF _ powi_multiple] assms b by simp
  next
    case False
    then have e: "2 powi (ulp_exp q + 52) \<le> q" using ulp_exp_pos(2) [OF assms(2)] v by auto
    have "b \<le> 2 powi (v + 53)" by (rule repr64_le_powi [OF b m])
    also have "\<dots> \<le> 2 powi (ulp_exp q + 52)" using False by (subst powi_le_iff) simp_all
    also have "\<dots> \<le> rnd64 q"
      using rnd64_le_multiple(2) [of q _ "2 ^ 52"] assms(2) e by (simp add: power_int_add)
    finally show ?thesis .
  qed
qed

lemma rnd64_upper:
  assumes "repr64 b" and "0 < q" and "q \<le> b"
  shows "rnd64 q \<le> b"
proof -
  obtain m v where b: "b = of_int m * 2 powi v" and m: "\<bar>m\<bar> \<le> 2 ^ 53" and v: "- 1074 \<le> v"
    using assms(1) by (auto simp: repr64_def)
  show ?thesis
  proof (cases "ulp_exp q \<le> v")
    case True
    then show ?thesis
      using rnd64_le_multiple(1) [OF _ powi_multiple] assms b by simp
  next
    case False
    then have e: "2 powi (ulp_exp q + 52) \<le> q" using ulp_exp_pos(2) [OF assms(2)] v by auto
    have "b \<le> 2 powi (v + 53)" by (rule repr64_le_powi [OF b m])
    also have "\<dots> \<le> 2 powi (ulp_exp q + 52)" using False by (subst powi_le_iff) simp_all
    finally have "q = 2 powi (ulp_exp q + 52)" "b = 2 powi (ulp_exp q + 52)"
      using e assms(3) by simp_all
    then show ?thesis
      using rnd64_le_multiple(1) [of q _ "2 ^ 52"] assms by (simp add: power_int_add)
  qed
qed

lemma repr64_minus [simp]: "repr64 (- q) \<longleftrightarrow> repr64 q"
proof -
  have "repr64 (- q)" if "repr64 q" for q
  proof -
    obtain m v where "q = of_int m * 2 powi v" "\<bar>m\<bar> \<le> 2 ^ 53" "- 1074 \<le> v"
      using \<open>repr64 q\<close> by (auto simp: repr64_def)
    then show ?thesis unfolding repr64_def by (intro exI [of _ "- m"] exI [of _ v]) simp
  qed
  from this [of q] this [of "- q"] show ?thesis by auto
qed

lemma rnd64_repr: "repr64 q \<Longrightarrow> rnd64 q = q"
proof -
  have pos: "rnd64 q = q" if "repr64 q" "0 < q" for q
    using rnd64_lower [OF that order_refl] rnd64_upper [OF that order_refl] by simp
  assume "repr64 q"
  then show ?thesis using pos [of q] pos [of "- q"] by (cases q "0 :: rat" rule: linorder_cases) auto
qed

lemma repr64_int [simp]: "\<bar>n\<bar> \<le> 2 ^ 53 \<Longrightarrow> repr64 (of_int n)"
  unfolding repr64_def by (intro exI [of _ n] exI [of _ 0]) simp

lemma repr64_rnd64: "repr64 (rnd64 q)"
proof -
  have pos: "repr64 (rnd64 q)" if q: "0 < q" for q
  proof -
    let ?u = "ulp_exp q" and ?m = "round_half_even (q / 2 powi ulp_exp q)"
    have "0 \<le> ?m"
      using round_half_even_mono [of 0 "q / 2 powi ?u"] q round_half_even_of_int [of 0] by simp
    moreover have "?m \<le> 2 ^ 53"
    proof -
      have "q / 2 powi ?u \<le> of_int (2 ^ 53)"
        using ulp_exp_pos(1) [OF q] by (simp add: pos_divide_le_eq power_int_add)
      then show ?thesis using round_half_even_mono round_half_even_of_int by metis
    qed
    ultimately show ?thesis
      unfolding repr64_def rnd64_def
      by (intro exI [of _ ?m] exI [of _ ?u]) (use q in \<open>simp add: ulp_exp_ge\<close>)
  qed
  show ?thesis
    using pos [of q] pos [of "- q"] repr64_int [of 0]
    by (cases q "0 :: rat" rule: linorder_cases) auto
qed

lemma repr64_powi: "- 1074 \<le> k \<Longrightarrow> repr64 (2 powi k)"
  unfolding repr64_def by (intro exI [of _ 1] exI [of _ k]) simp

lemma rnd64_mono_pos:
  assumes "0 < q" and "q \<le> r"
  shows "rnd64 q \<le> rnd64 r"
proof -
  have "ulp_exp q \<le> ulp_exp r"
    using ilog_mono [of 2 q r] assms by (simp add: ulp_exp_def max_def)
  then consider "ulp_exp q = ulp_exp r" | "ulp_exp q < ulp_exp r" by linarith
  then show ?thesis
  proof cases
    case 1
    then show ?thesis
      using assms by (simp add: rnd64_def round_half_even_mono divide_right_mono)
  next
    case 2
    let ?b = "2 powi (ulp_exp r + 52) :: rat"
    have "?b \<le> r" using ulp_exp_pos(2) [of r] 2 ulp_exp_ge [of q] assms by auto
    moreover have "q \<le> ?b"
    proof -
      have "q < 2 powi (ulp_exp q + 53)" using ulp_exp_pos(1) assms by simp
      also have "\<dots> \<le> ?b" using 2 by (subst powi_le_iff) simp_all
      finally show ?thesis by simp
    qed
    moreover have "repr64 ?b" using ulp_exp_ge [of r] by (intro repr64_powi) simp
    ultimately show ?thesis using rnd64_lower rnd64_upper assms by (meson order_trans less_le_trans)
  qed
qed

lemma rnd64_pos: "0 \<le> q \<Longrightarrow> 0 \<le> rnd64 q"
proof (cases "q = 0")
  case False
  assume "0 \<le> q"
  then show ?thesis using rnd64_lower [of 0 q] False repr64_int [of 0] by simp
qed simp

lemma rnd64_mono: "q \<le> r \<Longrightarrow> rnd64 q \<le> rnd64 r"
proof -
  assume le: "q \<le> r"
  consider "0 < q" | "r < 0" | "q \<le> 0" "0 \<le> r" using le by linarith
  then show ?thesis
  proof cases
    case 1
    then show ?thesis using rnd64_mono_pos le by blast
  next
    case 2
    then show ?thesis using rnd64_mono_pos [of "- r" "- q"] le by simp
  next
    case 3
    then show ?thesis using rnd64_pos [of r] rnd64_pos [of "- q"] by simp
  qed
qed

section \<open>What a rounding promises\<close>

text \<open>
  The laws of a rounding function and the enclosure facts a computation needs: a result
  that lies between two exactly representable bounds still does after rounding.
\<close>

locale rounding =
  fixes r :: "rat \<Rightarrow> rat"
  assumes mono: "x \<le> y \<Longrightarrow> r x \<le> r y"
    and odd: "r (- x) = - r x"
    and idem: "r (r x) = r x"
begin

lemma zero: "r 0 = 0"
  using odd [of 0] by simp

lemma le_fixed: "r b = b \<Longrightarrow> x \<le> b \<Longrightarrow> r x \<le> b"
  using mono [of x b] by simp

lemma ge_fixed: "r b = b \<Longrightarrow> b \<le> x \<Longrightarrow> b \<le> r x"
  using mono [of b x] by simp

lemma enclosed: "r a = a \<Longrightarrow> r b = b \<Longrightarrow> a \<le> x \<Longrightarrow> x \<le> b \<Longrightarrow> a \<le> r x \<and> r x \<le> b"
  using le_fixed ge_fixed by blast

lemma nonneg: "0 \<le> x \<Longrightarrow> 0 \<le> r x"
  using ge_fixed [OF zero] by blast

lemma nonpos: "x \<le> 0 \<Longrightarrow> r x \<le> 0"
  using le_fixed [OF zero] by blast

lemma sum_ge_left: "r a = a \<Longrightarrow> 0 \<le> b \<Longrightarrow> a \<le> r (a + b)"
  using ge_fixed [of a "a + b"] by simp

lemma quotient_le_one: "r 1 = 1 \<Longrightarrow> 0 < b \<Longrightarrow> a \<le> b \<Longrightarrow> r (a / b) \<le> 1"
  using le_fixed [of 1 "a / b"] by simp

lemma scaled_le: "r c = c \<Longrightarrow> 0 \<le> c \<Longrightarrow> a \<le> 1 \<Longrightarrow> r (a * c) \<le> c"
  using le_fixed [of c "a * c"] mult_right_mono [of a 1 c] by simp

end

interpretation b64: rounding rnd64
  by unfold_locales (simp_all add: rnd64_mono rnd64_repr repr64_rnd64)

lemma rnd64_int [simp]: "\<bar>n\<bar> \<le> 2 ^ 53 \<Longrightarrow> rnd64 (of_int n) = of_int n"
  by (simp add: rnd64_repr)

lemma rnd64_numeral [simp]: "numeral w \<le> (2 ^ 53 :: int) \<Longrightarrow> rnd64 (numeral w) = numeral w"
  using rnd64_int [of "numeral w"] by simp

lemma rnd64_1 [simp]: "rnd64 1 = 1"
  using rnd64_int [of 1] by simp

section \<open>Number values\<close>

datatype jsnum = NaN | PosInf | NegInf | NegZero | Fin rat

definition is_finite :: "jsnum \<Rightarrow> bool" where
  "is_finite x \<longleftrightarrow> (case x of Fin _ \<Rightarrow> True | NegZero \<Rightarrow> True | _ \<Rightarrow> False)"

definition fin_val :: "jsnum \<Rightarrow> rat" where
  "fin_val x = (case x of Fin q \<Rightarrow> q | _ \<Rightarrow> 0)"

text \<open>The sign bit of a value that is not NaN.\<close>

definition sign_bit :: "jsnum \<Rightarrow> bool" where
  "sign_bit x = (case x of NegInf \<Rightarrow> True | NegZero \<Rightarrow> True | Fin q \<Rightarrow> q < 0 | _ \<Rightarrow> False)"

definition signed_zero :: "bool \<Rightarrow> jsnum" where
  "signed_zero neg = (if neg then NegZero else Fin 0)"

definition signed_inf :: "bool \<Rightarrow> jsnum" where
  "signed_inf neg = (if neg then NegInf else PosInf)"

text \<open>The value of an exact result; \<open>neg\<close> is the sign of the result when it is exactly 0.\<close>

definition num_of :: "bool \<Rightarrow> rat \<Rightarrow> jsnum" where
  "num_of neg q = (if q = 0 then signed_zero neg else
     let r = rnd64 q in
     if r = 0 then signed_zero (q < 0)
     else if 2 ^ 1024 \<le> \<bar>r\<bar> then signed_inf (q < 0)
     else Fin r)"

definition is_double :: "jsnum \<Rightarrow> bool" where
  "is_double x = (case x of Fin q \<Rightarrow> rnd64 q = q \<and> \<bar>q\<bar> < 2 ^ 1024 | _ \<Rightarrow> True)"

section \<open>Arithmetic and comparison\<close>

instantiation jsnum :: "{plus, minus, uminus, times, inverse, zero, one, ord}"
begin

definition zero_jsnum :: jsnum where "zero_jsnum = Fin 0"

definition one_jsnum :: jsnum where "one_jsnum = Fin 1"

definition uminus_jsnum :: "jsnum \<Rightarrow> jsnum" where
  "uminus_jsnum x = (case x of NaN \<Rightarrow> NaN | PosInf \<Rightarrow> NegInf | NegInf \<Rightarrow> PosInf
     | NegZero \<Rightarrow> Fin 0 | Fin q \<Rightarrow> if q = 0 then NegZero else Fin (- q))"

definition plus_jsnum :: "jsnum \<Rightarrow> jsnum \<Rightarrow> jsnum" where
  "plus_jsnum x y =
     (if x = NaN \<or> y = NaN then NaN
      else if is_finite x \<and> is_finite y
        then num_of (sign_bit x \<and> sign_bit y) (fin_val x + fin_val y)
      else if is_finite x then y
      else if is_finite y then x
      else if x = y then x else NaN)"

definition minus_jsnum :: "jsnum \<Rightarrow> jsnum \<Rightarrow> jsnum" where
  "minus_jsnum x y = x + (- y)"

definition times_jsnum :: "jsnum \<Rightarrow> jsnum \<Rightarrow> jsnum" where
  "times_jsnum x y =
     (let neg = (sign_bit x \<noteq> sign_bit y) in
      if x = NaN \<or> y = NaN then NaN
      else if is_finite x \<and> is_finite y then num_of neg (fin_val x * fin_val y)
      else if is_finite x \<and> fin_val x = 0 \<or> is_finite y \<and> fin_val y = 0 then NaN
      else signed_inf neg)"

definition divide_jsnum :: "jsnum \<Rightarrow> jsnum \<Rightarrow> jsnum" where
  "divide_jsnum x y =
     (let neg = (sign_bit x \<noteq> sign_bit y) in
      if x = NaN \<or> y = NaN then NaN
      else if is_finite x \<and> is_finite y then
        (if fin_val y \<noteq> 0 then num_of neg (fin_val x / fin_val y)
         else if fin_val x = 0 then NaN else signed_inf neg)
      else if is_finite x then signed_zero neg
      else if is_finite y then signed_inf neg
      else NaN)"

definition inverse_jsnum :: "jsnum \<Rightarrow> jsnum" where
  "inverse_jsnum x = divide (Fin 1) x"

definition less_jsnum :: "jsnum \<Rightarrow> jsnum \<Rightarrow> bool" where
  "less_jsnum x y \<longleftrightarrow> x \<noteq> NaN \<and> y \<noteq> NaN \<and>
     (if is_finite x \<and> is_finite y then fin_val x < fin_val y
      else x \<noteq> y \<and> (x = NegInf \<or> y = PosInf))"

definition less_eq_jsnum :: "jsnum \<Rightarrow> jsnum \<Rightarrow> bool" where
  "less_eq_jsnum x y \<longleftrightarrow> x \<noteq> NaN \<and> y \<noteq> NaN \<and>
     (if is_finite x \<and> is_finite y then fin_val x \<le> fin_val y
      else x = y \<or> x = NegInf \<or> y = PosInf)"

instance ..

end

text \<open>The operator \<open>===\<close> on numbers.\<close>

definition num_eq :: "jsnum \<Rightarrow> jsnum \<Rightarrow> bool" where
  "num_eq x y \<longleftrightarrow> x \<noteq> NaN \<and> y \<noteq> NaN \<and>
     (if is_finite x \<and> is_finite y then fin_val x = fin_val y else x = y)"

definition math_max :: "jsnum \<Rightarrow> jsnum \<Rightarrow> jsnum" where
  "math_max x y = (if x = NaN \<or> y = NaN then NaN
     else if x < y then y else if y < x then x
     else if x = NegZero then y else x)"

definition math_min :: "jsnum \<Rightarrow> jsnum \<Rightarrow> jsnum" where
  "math_min x y = (if x = NaN \<or> y = NaN then NaN
     else if x < y then x else if y < x then y
     else if x = NegZero then x else y)"

text \<open>\<open>Math.round\<close>: the nearest integer, a half goes up; what rounds to 0 keeps its sign.\<close>

definition math_round :: "jsnum \<Rightarrow> jsnum" where
  "math_round x = (case x of
     Fin q \<Rightarrow> (let n = \<lfloor>q + 1/2\<rfloor> in if n = 0 \<and> q < 0 then NegZero else Fin (of_int n))
   | _ \<Rightarrow> x)"

definition num_of_nat :: "nat \<Rightarrow> jsnum" where
  "num_of_nat n = Fin (of_nat n)"

lemmas [simp] = is_finite_def [where x = NaN, simplified] is_finite_def [where x = PosInf, simplified]
  is_finite_def [where x = NegInf, simplified] is_finite_def [where x = NegZero, simplified]
  is_finite_def [where x = "Fin q" for q, simplified]

lemmas [simp] = fin_val_def [where x = NegZero, simplified]
  fin_val_def [where x = "Fin q" for q, simplified]

lemma finite_cases:
  assumes "is_finite x"
  obtains "x = NegZero" | q where "x = Fin q"
  using assms by (cases x) auto

lemma is_finite_not [simp]: "is_finite x \<Longrightarrow> x \<noteq> NaN" "is_finite x \<Longrightarrow> x \<noteq> PosInf"
  "is_finite x \<Longrightarrow> x \<noteq> NegInf"
  by auto

lemma signed_zero_simps [simp]: "is_finite (signed_zero s)" "fin_val (signed_zero s) = 0"
  "signed_zero s \<noteq> NaN"
  by (simp_all add: signed_zero_def)

lemma num_of_not_NaN [simp]: "num_of s q \<noteq> NaN"
  by (auto simp: num_of_def Let_def signed_zero_def signed_inf_def)

lemma num_of_finite:
  assumes "\<bar>rnd64 q\<bar> < 2 ^ 1024"
  shows "is_finite (num_of s q)" and "fin_val (num_of s q) = rnd64 q"
  using assms by (auto simp: num_of_def Let_def)

lemma num_of_finite_iff: "is_finite (num_of s q) \<longleftrightarrow> \<bar>rnd64 q\<bar> < 2 ^ 1024"
  by (auto simp: num_of_def Let_def signed_inf_def)

lemma num_of_val: "is_finite (num_of s q) \<Longrightarrow> fin_val (num_of s q) = rnd64 q"
  using num_of_finite num_of_finite_iff by blast

lemma num_of_double: "is_double (num_of s q)"
  using b64.idem by (auto simp: num_of_def Let_def is_double_def signed_zero_def signed_inf_def)

lemma num_of_bounded:
  assumes "\<bar>q\<bar> \<le> of_int n" and "n \<le> 2 ^ 53"
  shows "is_finite (num_of s q)" and "fin_val (num_of s q) = rnd64 q"
proof -
  have n: "\<bar>n\<bar> \<le> 2 ^ 53" using assms
    by (metis abs_ge_zero abs_of_nonneg of_int_0_le_iff order_trans)
  have "rnd64 \<bar>q\<bar> \<le> of_int n" using b64.le_fixed [OF rnd64_int [OF n] assms(1)] .
  moreover have "\<bar>rnd64 q\<bar> = rnd64 \<bar>q\<bar>"
    using b64.nonneg [of q] b64.nonpos [of q] by (auto simp: abs_if)
  moreover have "of_int n \<le> (2 ^ 53 :: rat)"
    using assms(2) of_int_le_iff [of n "2 ^ 53", where ?'a = rat] by simp
  ultimately have "\<bar>rnd64 q\<bar> \<le> 2 ^ 53" by linarith
  also have "(2 :: rat) ^ 53 < 2 ^ 1024" by (rule power_strict_increasing) simp_all
  finally show "is_finite (num_of s q)" and "fin_val (num_of s q) = rnd64 q"
    using num_of_finite by blast+
qed

lemma plus_finite:
  "is_finite x \<Longrightarrow> is_finite y \<Longrightarrow>
     x + y = num_of (sign_bit x \<and> sign_bit y) (fin_val x + fin_val y)"
  by (auto simp: plus_jsnum_def)

lemma uminus_finite: "is_finite x \<Longrightarrow> is_finite (- x) \<and> fin_val (- x) = - fin_val x"
  by (auto simp: uminus_jsnum_def elim: finite_cases)

lemma minus_finite:
  "is_finite x \<Longrightarrow> is_finite y \<Longrightarrow> \<exists>s. x - y = num_of s (fin_val x - fin_val y)"
  using uminus_finite [of y] by (auto simp: minus_jsnum_def plus_finite)

lemma times_finite:
  "is_finite x \<Longrightarrow> is_finite y \<Longrightarrow>
     x * y = num_of (sign_bit x \<noteq> sign_bit y) (fin_val x * fin_val y)"
  by (auto simp: times_jsnum_def)

lemma divide_finite:
  "is_finite x \<Longrightarrow> is_finite y \<Longrightarrow> fin_val y \<noteq> 0 \<Longrightarrow>
     x / y = num_of (sign_bit x \<noteq> sign_bit y) (fin_val x / fin_val y)"
  by (auto simp: divide_jsnum_def)

lemma less_finite [simp]:
  "is_finite x \<Longrightarrow> is_finite y \<Longrightarrow> x < y \<longleftrightarrow> fin_val x < fin_val y"
  by (auto simp: less_jsnum_def)

lemma less_eq_finite [simp]:
  "is_finite x \<Longrightarrow> is_finite y \<Longrightarrow> x \<le> y \<longleftrightarrow> fin_val x \<le> fin_val y"
  by (auto simp: less_eq_jsnum_def)

lemma num_eq_finite [simp]:
  "is_finite x \<Longrightarrow> is_finite y \<Longrightarrow> num_eq x y \<longleftrightarrow> fin_val x = fin_val y"
  by (auto simp: num_eq_def)

lemma math_max_finite:
  "is_finite x \<Longrightarrow> is_finite y \<Longrightarrow>
     is_finite (math_max x y) \<and> fin_val (math_max x y) = max (fin_val x) (fin_val y)"
  by (auto simp: math_max_def max_def)

lemma math_min_finite:
  "is_finite x \<Longrightarrow> is_finite y \<Longrightarrow>
     is_finite (math_min x y) \<and> fin_val (math_min x y) = min (fin_val x) (fin_val y)"
  by (auto simp: math_min_def min_def)

lemma double_closed:
  "is_double x \<Longrightarrow> is_double y \<Longrightarrow> is_double (x + y)"
  "is_double x \<Longrightarrow> is_double (- x)"
  "is_double x \<Longrightarrow> is_double y \<Longrightarrow> is_double (x - y)"
  "is_double x \<Longrightarrow> is_double y \<Longrightarrow> is_double (x * y)"
  "is_double x \<Longrightarrow> is_double y \<Longrightarrow> is_double (x / y)"
proof -
  have u: "is_double (- x)" if "is_double x" for x
    using that by (cases x) (auto simp: is_double_def uminus_jsnum_def)
  have p: "is_double (x + y)" if "is_double x" "is_double y" for x y
    using that by (auto simp: plus_jsnum_def num_of_double is_double_def [of NaN])
  show "is_double x \<Longrightarrow> is_double y \<Longrightarrow> is_double (x + y)"
    "is_double x \<Longrightarrow> is_double (- x)"
    "is_double x \<Longrightarrow> is_double y \<Longrightarrow> is_double (x - y)"
    using u p by (simp_all add: minus_jsnum_def)
  show "is_double x \<Longrightarrow> is_double y \<Longrightarrow> is_double (x * y)"
    "is_double x \<Longrightarrow> is_double y \<Longrightarrow> is_double (x / y)"
    by (auto simp: times_jsnum_def divide_jsnum_def num_of_double is_double_def [of NaN]
      is_double_def [of PosInf] is_double_def [of NegInf] is_double_def [of NegZero]
      is_double_def [of "Fin 0"] signed_inf_def signed_zero_def Let_def)
qed

lemma double_rnd: "is_double x \<Longrightarrow> rnd64 (fin_val x) = fin_val x"
  by (cases x) (auto simp: is_double_def fin_val_def)

lemma plus_finiteD:
  assumes "is_finite (x + y)"
  shows "is_finite x" and "is_finite y" and "fin_val (x + y) = rnd64 (fin_val x + fin_val y)"
proof -
  show x: "is_finite x" and y: "is_finite y"
    using assms by (auto simp: plus_jsnum_def split: if_splits)
  show "fin_val (x + y) = rnd64 (fin_val x + fin_val y)"
    using assms x y by (simp add: plus_finite num_of_val)
qed

lemma nonneg_finite: "\<not> x < 0 \<Longrightarrow> is_finite x \<Longrightarrow> 0 \<le> fin_val x"
  by (simp add: zero_jsnum_def)

lemma zero_num_simps [simp]: "is_finite 0" "fin_val 0 = 0" "sign_bit 0 = False"
  by (simp_all add: zero_jsnum_def sign_bit_def)

lemma fin_val_zero_neg: "is_finite x \<Longrightarrow> fin_val x \<noteq> 0 \<Longrightarrow> sign_bit x \<longleftrightarrow> fin_val x < 0"
  by (cases x) (auto simp: sign_bit_def)

lemma double_repr: "rnd64 q = q \<Longrightarrow> \<exists>k. q = of_int k * 2 powi (- 1074)"
proof -
  assume "rnd64 q = q"
  then have "repr64 q" using repr64_rnd64 [of q] by simp
  then obtain m u where "q = of_int m * 2 powi u" "- 1074 \<le> u" by (auto simp: repr64_def)
  then show ?thesis using powi_multiple [of "- 1074" u m] by blast
qed

text \<open>The difference of two distinct values does not vanish by rounding.\<close>

lemma rnd64_diff_pos:
  assumes "rnd64 x = x" and "rnd64 y = y" and "x < y"
  shows "0 < rnd64 (y - x)"
proof -
  let ?u = "2 powi (- 1074) :: rat"
  have u: "0 < ?u" by (rule zero_less_power_int) simp
  obtain j k where j: "x = of_int j * ?u" and k: "y = of_int k * ?u"
    using double_repr assms(1,2) by blast
  have "of_int j * ?u < of_int k * ?u" using assms(3) by (simp only: j k)
  then have "j < k" using u by (simp only: mult_less_cancel_right_pos of_int_less_iff)
  then have "(1 :: rat) \<le> of_int (k - j)" by simp
  then have "1 * ?u \<le> of_int (k - j) * ?u" using u by (intro mult_right_mono) simp_all
  also have "\<dots> = y - x" by (simp only: j k of_int_diff left_diff_distrib)
  finally have le: "?u \<le> y - x" by (simp only: mult_1)
  have "repr64 ?u" by (rule repr64_powi) simp
  moreover have "0 < y - x" using assms(3) by (simp only: diff_gt_0_iff_gt)
  ultimately have "?u \<le> rnd64 (y - x)" using rnd64_lower le by blast
  then show ?thesis using u by (rule less_le_trans [rotated])
qed

lemma math_clamp:
  assumes "v \<noteq> NaN" and "is_finite lo" and "is_finite hi" and "fin_val lo \<le> fin_val hi"
  shows "is_finite (math_min hi (math_max lo v))"
    and "fin_val lo \<le> fin_val (math_min hi (math_max lo v))"
    and "fin_val (math_min hi (math_max lo v)) \<le> fin_val hi"
proof -
  consider "is_finite v" | "v = PosInf" | "v = NegInf" using assms(1) by (cases v) auto
  then have "is_finite (math_min hi (math_max lo v)) \<and> fin_val lo \<le> fin_val (math_min hi (math_max lo v))
    \<and> fin_val (math_min hi (math_max lo v)) \<le> fin_val hi"
  proof cases
    case 1
    then show ?thesis using assms math_max_finite [of lo v] math_min_finite [of hi "math_max lo v"] by simp
  next
    case 2
    have "math_max lo PosInf = PosInf" using assms(2) by (cases lo) (auto simp: math_max_def less_jsnum_def)
    moreover have "math_min hi PosInf = hi" using assms(3) by (cases hi) (auto simp: math_min_def less_jsnum_def)
    ultimately show ?thesis using 2 assms by simp
  next
    case 3
    have "math_max lo NegInf = lo" using assms(2) by (cases lo) (auto simp: math_max_def less_jsnum_def)
    then show ?thesis using 3 assms math_min_finite [of hi lo] by simp
  qed
  then show "is_finite (math_min hi (math_max lo v))"
    and "fin_val lo \<le> fin_val (math_min hi (math_max lo v))"
    and "fin_val (math_min hi (math_max lo v)) \<le> fin_val hi" by blast+
qed

lemma math_round_finite:
  assumes "is_finite x"
  shows "is_finite (math_round x)" and "fin_val (math_round x) = of_int \<lfloor>fin_val x + 1/2\<rfloor>"
proof -
  have half: "\<lfloor>1/2 :: rat\<rfloor> = 0" by (simp add: floor_eq_iff)
  show "is_finite (math_round x)" and "fin_val (math_round x) = of_int \<lfloor>fin_val x + 1/2\<rfloor>"
    using assms half by (cases x; simp add: math_round_def Let_def)+
qed

lemma num_of_nat_simps [simp]: "is_finite (num_of_nat n)" "fin_val (num_of_nat n) = of_nat n"
  by (simp_all add: num_of_nat_def)

lemma one_num_simps [simp]: "is_finite 1" "fin_val 1 = 1"
  by (simp_all add: one_jsnum_def)

text \<open>Results bounded by an integer of at most 53 bits do not overflow.\<close>

lemma minus_bounded:
  assumes "is_finite x" and "is_finite y" and "\<bar>fin_val x - fin_val y\<bar> \<le> of_int n" and "n \<le> 2 ^ 53"
  shows "is_finite (x - y)" and "fin_val (x - y) = rnd64 (fin_val x - fin_val y)"
proof -
  obtain s where "x - y = num_of s (fin_val x - fin_val y)" using minus_finite assms(1,2) by blast
  then show "is_finite (x - y)" and "fin_val (x - y) = rnd64 (fin_val x - fin_val y)"
    using num_of_bounded [OF assms(3,4), of s] by simp_all
qed

lemma plus_bounded:
  assumes "is_finite x" and "is_finite y" and "\<bar>fin_val x + fin_val y\<bar> \<le> of_int n" and "n \<le> 2 ^ 53"
  shows "is_finite (x + y)" and "fin_val (x + y) = rnd64 (fin_val x + fin_val y)"
  using num_of_bounded [OF assms(3,4)] assms(1,2) by (simp_all add: plus_finite)

lemma times_bounded:
  assumes "is_finite x" and "is_finite y" and "\<bar>fin_val x * fin_val y\<bar> \<le> of_int n" and "n \<le> 2 ^ 53"
  shows "is_finite (x * y)" and "fin_val (x * y) = rnd64 (fin_val x * fin_val y)"
  using num_of_bounded [OF assms(3,4)] assms(1,2) by (simp_all add: times_finite)

lemma divide_bounded:
  assumes "is_finite x" and "is_finite y" and "fin_val y \<noteq> 0"
    and "\<bar>fin_val x / fin_val y\<bar> \<le> of_int n" and "n \<le> 2 ^ 53"
  shows "is_finite (x / y)" and "fin_val (x / y) = rnd64 (fin_val x / fin_val y)"
  using num_of_bounded [OF assms(4,5)] assms(1,2,3) by (simp_all add: divide_finite)

text \<open>Values in a closed range, and the error of rounding a value of moderate size.\<close>

definition in_range :: "jsnum \<Rightarrow> rat \<Rightarrow> rat \<Rightarrow> bool" where
  "in_range x a b \<longleftrightarrow> is_finite x \<and> a \<le> fin_val x \<and> fin_val x \<le> b"

lemma rnd64_between:
  assumes "a \<le> q" and "q \<le> b" and "rnd64 a = a" and "rnd64 b = b"
    and "\<bar>a\<bar> \<le> 2 ^ 53" and "\<bar>b\<bar> \<le> 2 ^ 53"
  shows "in_range (num_of s q) a b" and "fin_val (num_of s q) = rnd64 q"
proof -
  have "\<bar>q\<bar> \<le> of_int (2 ^ 53)" using assms(1,2,5,6) by (simp add: abs_le_iff)
  note r = num_of_bounded [OF this order_refl, of s]
  show "fin_val (num_of s q) = rnd64 q" by (rule r)
  show "in_range (num_of s q) a b"
    using r b64.enclosed [OF assms(3,4,1,2)] by (simp add: in_range_def)
qed

lemma range_plus:
  assumes "in_range x a b" and "in_range y c d"
    and "rnd64 (a + c) = a + c" and "rnd64 (b + d) = b + d"
    and "\<bar>a + c\<bar> \<le> 2 ^ 53" and "\<bar>b + d\<bar> \<le> 2 ^ 53"
  shows "in_range (x + y) (a + c) (b + d)" and "fin_val (x + y) = rnd64 (fin_val x + fin_val y)"
  using assms(1,2) rnd64_between [OF _ _ assms(3-6), of "fin_val x + fin_val y"]
  by (auto simp: in_range_def plus_finite)

lemma range_minus:
  assumes "in_range x a b" and "in_range y c d"
    and "rnd64 (a - d) = a - d" and "rnd64 (b - c) = b - c"
    and "\<bar>a - d\<bar> \<le> 2 ^ 53" and "\<bar>b - c\<bar> \<le> 2 ^ 53"
  shows "in_range (x - y) (a - d) (b - c)" and "fin_val (x - y) = rnd64 (fin_val x - fin_val y)"
proof -
  obtain s where s: "x - y = num_of s (fin_val x - fin_val y)"
    using assms(1,2) minus_finite by (auto simp: in_range_def)
  have "a - d \<le> fin_val x - fin_val y" "fin_val x - fin_val y \<le> b - c"
    using assms(1,2) by (auto simp: in_range_def)
  from rnd64_between [OF this assms(3-6), of s]
  show "in_range (x - y) (a - d) (b - c)" and "fin_val (x - y) = rnd64 (fin_val x - fin_val y)"
    by (simp_all add: s)
qed

lemma range_share:
  assumes "in_range x 0 b" and "in_range y b b" and "0 < b"
  shows "in_range (x / y) 0 1" and "fin_val (x / y) = rnd64 (fin_val x / fin_val y)"
  using assms rnd64_between [of 0 "fin_val x / b" 1]
  by (auto simp: in_range_def divide_finite)

lemma range_scale:
  assumes "in_range x 0 1" and "in_range y c c" and "0 \<le> c" and "rnd64 c = c" and "c \<le> 2 ^ 53"
  shows "in_range (x * y) 0 c" and "fin_val (x * y) = rnd64 (fin_val x * fin_val y)"
proof -
  have "0 \<le> fin_val x * fin_val y" "fin_val x * fin_val y \<le> c"
    using assms mult_right_mono [of "fin_val x" 1 c] by (auto simp: in_range_def)
  from rnd64_between [OF this] show "in_range (x * y) 0 c" and "fin_val (x * y) = rnd64 (fin_val x * fin_val y)"
    using assms by (auto simp: in_range_def times_finite)
qed

lemma rnd64_near:
  assumes "\<bar>q\<bar> \<le> 2 ^ k" and "k \<le> 52"
  shows "\<bar>rnd64 q - q\<bar> \<le> 1 / 2 ^ (52 - k)"
proof -
  let ?g = "2 ^ (52 - k) :: rat"
  let ?m = "\<lfloor>q * ?g\<rfloor>"
  have split: "(2 :: rat) ^ k * ?g = 2 ^ 52" using assms(2) by (simp flip: power_add)
  have "\<bar>q * ?g\<bar> \<le> 2 ^ 52"
    using mult_right_mono [OF assms(1), of ?g] by (simp add: abs_mult split)
  then have "- (2 ^ 52) \<le> ?m" "?m \<le> 2 ^ 52"
    by (simp_all add: abs_le_iff le_floor_iff floor_le_iff)
  then have m: "\<bar>?m\<bar> \<le> 2 ^ 52" by (simp only: abs_le_iff minus_le_iff simp_thms)
  have grid: "rnd64 (of_int j / ?g) = of_int j / ?g" if "\<bar>j\<bar> \<le> 2 ^ 53" for j
  proof (rule rnd64_repr)
    have "of_int j / ?g = of_int j * 2 powi (- int (52 - k))"
      by (simp add: power_int_minus divide_inverse)
    then show "repr64 (of_int j / ?g)" using that unfolding repr64_def by fastforce
  qed
  have lo: "of_int ?m / ?g \<le> q" by (simp add: divide_le_eq)
  have hi: "q \<le> of_int (?m + 1) / ?g"
    unfolding pos_le_divide_eq [OF zero_less_power [OF zero_less_numeral]] by linarith
  have room: "\<bar>j\<bar> \<le> 2 ^ 53 \<and> \<bar>j + 1\<bar> \<le> 2 ^ 53" if "\<bar>j\<bar> \<le> 2 ^ 52" for j :: int
    using that by simp
  note m53 = room [OF m, THEN conjunct1] room [OF m, THEN conjunct2]
  have "of_int ?m / ?g \<le> rnd64 q" by (rule b64.ge_fixed [OF grid lo]) (rule m53)
  moreover have "rnd64 q \<le> of_int (?m + 1) / ?g" by (rule b64.le_fixed [OF grid hi]) (rule m53)
  ultimately show ?thesis
    using lo hi by (simp add: add_divide_distrib abs_le_iff)
qed

end
