(* ===== verification/Decimal.thy ===== *)
theory Decimal
  imports Doubles
begin

text \<open>
  Numbers as text: the decimal digits of a natural number, \<open>Number::toString\<close> (template
  literals and \<open>String(x)\<close>), \<open>toFixed\<close>, and the en-US formats of \<open>Intl.NumberFormat\<close>
  the page uses, plain with grouping and compact with the suffixes K, M, B and T. A value
  is rounded at the last decimal place it shows, a half away from zero.
\<close>

section \<open>Digits of a natural number\<close>

definition digit_char :: "nat \<Rightarrow> char" where
  "digit_char d = char_of (48 + d)"

fun digits :: "nat \<Rightarrow> string" where
  "digits n = (if n < 10 then [digit_char n] else digits (n div 10) @ [digit_char (n mod 10)])"

declare digits.simps [simp del]

definition read_nat :: "string \<Rightarrow> nat" where
  "read_nat s = fold (\<lambda>c acc. 10 * acc + (of_char c - 48)) s 0"

definition is_digit :: "char \<Rightarrow> bool" where
  "is_digit c \<longleftrightarrow> 48 \<le> (of_char c :: nat) \<and> (of_char c :: nat) \<le> 57"

lemma of_digit_char [simp]: "d < 10 \<Longrightarrow> (of_char (digit_char d) :: nat) = 48 + d"
  by (simp add: digit_char_def)

lemma is_digit_char [simp]: "d < 10 \<Longrightarrow> is_digit (digit_char d)"
  by (simp add: is_digit_def)

lemma read_nat_append: "read_nat (s @ [c]) = 10 * read_nat s + (of_char c - 48)"
  by (simp add: read_nat_def)

lemma digits_not_Nil [simp]: "digits n \<noteq> []"
  by (subst digits.simps) simp

lemma read_digits [simp]: "read_nat (digits n) = n"
proof (induction n rule: digits.induct)
  case (1 n)
  show ?case
  proof (cases "n < 10")
    case True
    then show ?thesis by (subst digits.simps) (simp add: read_nat_def)
  next
    case False
    then have "read_nat (digits n) = 10 * read_nat (digits (n div 10)) + n mod 10"
      by (subst digits.simps) (simp add: read_nat_append)
    with 1 False show ?thesis by simp
  qed
qed

lemma digits_inj: "digits m = digits n \<Longrightarrow> m = n"
  by (metis read_digits)

lemma digits_are_digits: "c \<in> set (digits n) \<Longrightarrow> is_digit c"
proof (induction n rule: digits.induct)
  case (1 n)
  then show ?case
    by (cases "n < 10") (auto simp: digits.simps [of n] mod_less_divisor)
qed

section \<open>Fixed-point text\<close>

definition pad_left :: "nat \<Rightarrow> string \<Rightarrow> string" where
  "pad_left k s = replicate (k - length s) (CHR ''0'') @ s"

text \<open>The value scaled by \<open>10 ^ d\<close> and rounded, a half up (for values that are not negative).\<close>

definition scaled :: "nat \<Rightarrow> rat \<Rightarrow> nat" where
  "scaled d q = nat \<lfloor>q * 10 ^ d + 1/2\<rfloor>"

fun group3 :: "string \<Rightarrow> string" where
  "group3 s = (if length s \<le> 3 then s
     else group3 (take (length s - 3) s) @ [CHR '',''] @ drop (length s - 3) s)"

declare group3.simps [simp del]

text \<open>Trailing zeros are dropped as long as more than \<open>k\<close> digits remain.\<close>

definition trim_zeros :: "nat \<Rightarrow> string \<Rightarrow> string" where
  "trim_zeros k s = take k s @ rev (dropWhile (\<lambda>c. c = CHR ''0'') (rev (drop k s)))"

definition join_point :: "string \<Rightarrow> string \<Rightarrow> string" where
  "join_point ip fp = (if fp = [] then ip else ip @ [CHR ''.''] @ fp)"

text \<open>
  A value that is not negative with at least \<open>lo\<close> and at most \<open>hi\<close> fraction digits; the
  integer part is grouped when it has at least \<open>g\<close> digits.
\<close>

definition decimal_text :: "nat \<Rightarrow> nat \<Rightarrow> nat \<Rightarrow> rat \<Rightarrow> string" where
  "decimal_text g lo hi q =
     (let n = scaled hi q; ip = digits (n div 10 ^ hi)
      in join_point (if g \<le> length ip then group3 ip else ip)
           (if hi = 0 then [] else trim_zeros lo (pad_left hi (digits (n mod 10 ^ hi)))))"

definition infinity_sign :: string where
  "infinity_sign = [CHR 0xE2, CHR 0x88, CHR 0x9E]"

declare infinity_sign_def [literal_simps]

definition with_sign :: "(rat \<Rightarrow> string) \<Rightarrow> jsnum \<Rightarrow> string" where
  "with_sign f x = (case x of NaN \<Rightarrow> ''NaN''
     | PosInf \<Rightarrow> infinity_sign | NegInf \<Rightarrow> ''-'' @ infinity_sign
     | NegZero \<Rightarrow> ''-'' @ f 0
     | Fin q \<Rightarrow> if q < 0 then ''-'' @ f (- q) else f q)"

text \<open>\<open>toLocaleString("en-US", { minimumFractionDigits, maximumFractionDigits })\<close>\<close>

definition locale_string :: "nat \<Rightarrow> nat \<Rightarrow> jsnum \<Rightarrow> string" where
  "locale_string lo hi x = with_sign (decimal_text 4 lo hi) x"

section \<open>Compact notation\<close>

definition compact_exp :: "int \<Rightarrow> nat" where
  "compact_exp mag = (if mag < 3 then 0 else if mag < 6 then 3 else if mag < 9 then 6
     else if mag < 12 then 9 else 12)"

definition compact_suffix :: "nat \<Rightarrow> string" where
  "compact_suffix e = (if e = 3 then ''K'' else if e = 6 then ''M''
     else if e = 9 then ''B'' else if e = 12 then ''T'' else [])"

text \<open>The exponent is chosen again when rounding the mantissa carries into a new digit.\<close>

definition compact_choice :: "nat \<Rightarrow> rat \<Rightarrow> nat" where
  "compact_choice hi q =
     (if q = 0 then 0 else
      let mag = ilog 10 q; e = compact_exp mag; n = scaled hi (q / 10 ^ e)
      in if n = 0 \<or> ilog 10 (of_nat n / 10 ^ hi) = mag - int e then e
         else compact_exp (mag + 1))"

definition compact_text :: "nat \<Rightarrow> rat \<Rightarrow> string" where
  "compact_text hi q = (let e = compact_choice hi q
     in decimal_text 5 0 hi (q / 10 ^ e) @ compact_suffix e)"

definition compact_string :: "nat \<Rightarrow> jsnum \<Rightarrow> string" where
  "compact_string hi x = with_sign (compact_text hi) x"

section \<open>Number::toString and toFixed\<close>

text \<open>
  The shortest decimal \<open>s * 10 ^ (n - k)\<close> with \<open>k\<close> digits that rounds to the value, tried
  for \<open>k = 1, \<dots>, 17\<close>; 17 significant digits identify every binary64 value.
\<close>

definition decimal_candidate :: "rat \<Rightarrow> int \<Rightarrow> nat \<Rightarrow> int option" where
  "decimal_candidate q n k =
     (let y = q * 10 powi (int k - n); s = round_half_even y;
          t = (if of_int s \<le> y then s + 1 else s - 1)
      in find (\<lambda>c. rnd64 (of_int c * 10 powi (n - int k)) = q) [s, t])"

fun shortest_decimal :: "rat \<Rightarrow> int \<Rightarrow> nat \<Rightarrow> nat \<Rightarrow> nat \<times> nat" where
  "shortest_decimal q n k 0 = (nat (round_half_even (q * 10 powi (int k - n))), k)"
| "shortest_decimal q n k (Suc more) = (case decimal_candidate q n k of
     Some s \<Rightarrow> (nat s, k) | None \<Rightarrow> shortest_decimal q n (Suc k) more)"

definition exponent_text :: "int \<Rightarrow> string" where
  "exponent_text e = ''e'' @ (if e < 0 then ''-'' else ''+'') @ digits (nat \<bar>e\<bar>)"

definition positive_to_string :: "rat \<Rightarrow> string" where
  "positive_to_string q =
     (let n0 = ilog 10 q + 1;
          (s, k) = shortest_decimal q n0 1 16;
          n = (if s = 10 ^ k then n0 + 1 else n0);
          ds = (if s = 10 ^ k then ''1'' else digits s);
          k' = length ds
      in if int k' \<le> n \<and> n \<le> 21 then ds @ replicate (nat n - k') (CHR ''0'')
         else if 0 < n \<and> n \<le> 21 then take (nat n) ds @ ''.'' @ drop (nat n) ds
         else if - 6 < n \<and> n \<le> 0 then ''0.'' @ replicate (nat (- n)) (CHR ''0'') @ ds
         else if k' = 1 then ds @ exponent_text (n - 1)
         else take 1 ds @ ''.'' @ drop 1 ds @ exponent_text (n - 1))"

definition number_to_string :: "jsnum \<Rightarrow> string" where
  "number_to_string x = (case x of NaN \<Rightarrow> ''NaN''
     | PosInf \<Rightarrow> ''Infinity'' | NegInf \<Rightarrow> ''-Infinity'' | NegZero \<Rightarrow> ''0''
     | Fin q \<Rightarrow> if q = 0 then ''0'' else if q < 0 then ''-'' @ positive_to_string (- q)
         else positive_to_string q)"

definition to_fixed :: "nat \<Rightarrow> jsnum \<Rightarrow> string" where
  "to_fixed d x = (case x of
     NegZero \<Rightarrow> join_point ''0'' (replicate d (CHR ''0''))
   | Fin q \<Rightarrow> if 10 ^ 21 \<le> \<bar>q\<bar> then number_to_string x
       else (let n = scaled d \<bar>q\<bar>
         in (if q < 0 then ''-'' else []) @ join_point (digits (n div 10 ^ d))
              (if d = 0 then [] else pad_left d (digits (n mod 10 ^ d))))
   | _ \<Rightarrow> number_to_string x)"

section \<open>What the texts keep of the number\<close>

lemma set_group3 [simp]: "set (group3 s) - {CHR '',''} = set s - {CHR '',''}"
proof (induction s rule: group3.induct)
  case (1 s)
  show ?case
  proof (cases "length s \<le> 3")
    case True
    then show ?thesis by (subst group3.simps) simp
  next
    case False
    have "set s = set (take (length s - 3) s) \<union> set (drop (length s - 3) s)"
      by (metis append_take_drop_id set_append)
    with False 1 show ?thesis by (subst group3.simps) auto
  qed
qed

lemma group3_strip: "CHR '','' \<notin> set s \<Longrightarrow> filter (\<lambda>c. c \<noteq> CHR '','') (group3 s) = s"
proof (induction s rule: group3.induct)
  case (1 s)
  show ?case
  proof (cases "length s \<le> 3")
    case True
    with 1(2) show ?thesis by (subst group3.simps) (auto simp: filter_id_conv)
  next
    case False
    have no: "CHR '','' \<notin> set (take k s)" "CHR '','' \<notin> set (drop k s)" for k
      using 1(2) by (auto dest: in_set_takeD in_set_dropD)
    have "filter (\<lambda>c. c \<noteq> CHR '','') (drop (length s - 3) s) = drop (length s - 3) s"
      using no(2) by (auto simp: filter_id_conv)
    with False 1(1) [OF False no(1)] show ?thesis
      by (subst group3.simps) simp
  qed
qed

lemma comma_not_digit: "CHR '','' \<notin> set (digits n)"
  using digits_are_digits by (fastforce simp: is_digit_def)

lemma set_pad_left: "set (pad_left k s) \<subseteq> insert (CHR ''0'') (set s)" "set s \<subseteq> set (pad_left k s)"
  by (auto simp: pad_left_def)

lemma trim_zeros_keeps: "c \<in> set s \<Longrightarrow> c \<noteq> CHR ''0'' \<Longrightarrow> c \<in> set (trim_zeros k s)"
proof -
  have drop: "c \<in> set t \<Longrightarrow> c \<noteq> CHR ''0'' \<Longrightarrow> c \<in> set (dropWhile (\<lambda>c. c = CHR ''0'') t)" for t
    by (induction t) auto
  assume c: "c \<in> set s" "c \<noteq> CHR ''0''"
  have "set s = set (take k s) \<union> set (drop k s)" by (metis append_take_drop_id set_append)
  with c drop [of "rev (drop k s)"] show ?thesis by (auto simp: trim_zeros_def)
qed

lemma set_trim_zeros: "set (trim_zeros k s) \<subseteq> set s"
  by (auto simp: trim_zeros_def dest!: in_set_takeD set_dropWhileD in_set_dropD)

lemma trim_zeros_replicate: "trim_zeros 0 (replicate k (CHR ''0'')) = []"
  by (simp add: trim_zeros_def)

lemma digits_0 [simp]: "digits 0 = ''0''"
  by code_simp

lemma zero_digit: "CHR ''0'' = digit_char 0"
  by code_simp

lemma pad_zero: "0 < k \<Longrightarrow> pad_left k ''0'' = replicate k (CHR ''0'')"
  by (cases k) (simp_all add: pad_left_def replicate_append_same)

definition nonzero_digit :: "char \<Rightarrow> bool" where
  "nonzero_digit c \<longleftrightarrow> is_digit c \<and> c \<noteq> CHR ''0''"

lemma digits_nonzero: "0 < n \<Longrightarrow> \<exists>c \<in> set (digits n). nonzero_digit c"
proof (induction n rule: digits.induct)
  case (1 n)
  have ne: "digit_char d \<noteq> CHR ''0''" if "0 < d" "d < 10" for d
  proof
    assume "digit_char d = CHR ''0''"
    then have "(of_char (digit_char d) :: nat) = of_char (CHR ''0'')" by simp
    with that show False by simp
  qed
  show ?case
  proof (cases "n < 10")
    case True
    with 1 show ?thesis by (subst digits.simps) (simp add: nonzero_digit_def ne)
  next
    case False
    then have "\<exists>c \<in> set (digits (n div 10)). nonzero_digit c" using 1 by simp
    with False show ?thesis by (subst digits.simps) auto
  qed
qed

text \<open>A value whose last shown decimal is not zero shows a digit other than 0.\<close>

lemma decimal_text_nonzero:
  assumes "0 < scaled hi q"
  shows "\<exists>c \<in> set (decimal_text g lo hi q). nonzero_digit c"
proof -
  let ?n = "scaled hi q"
  have "0 < ?n div 10 ^ hi \<or> 0 < ?n mod 10 ^ hi"
    using assms by (metis div_mult_mod_eq gr0I mult_0 add_0)
  then show ?thesis
  proof
    assume "0 < ?n div 10 ^ hi"
    then obtain c where c: "c \<in> set (digits (?n div 10 ^ hi))" "nonzero_digit c"
      using digits_nonzero by blast
    then have "c \<noteq> CHR '',''" using comma_not_digit by metis
    then have "c \<in> set (group3 (digits (?n div 10 ^ hi)))"
      using c(1) set_group3 [of "digits (?n div 10 ^ hi)"] by blast
    with c show ?thesis by (auto simp: decimal_text_def Let_def join_point_def)
  next
    assume mod: "0 < ?n mod 10 ^ hi"
    then have hi: "hi \<noteq> 0" by (metis mod_by_1 less_irrefl power_0)
    obtain c where c: "c \<in> set (digits (?n mod 10 ^ hi))" "nonzero_digit c"
      using digits_nonzero mod by blast
    then have "c \<in> set (trim_zeros lo (pad_left hi (digits (?n mod 10 ^ hi))))"
      using set_pad_left(2) trim_zeros_keeps nonzero_digit_def by blast
    with c hi show ?thesis by (auto simp: decimal_text_def Let_def join_point_def)
  qed
qed

lemma scaled_of_nat: "scaled d (of_nat n) = n * 10 ^ d"
proof -
  have "(of_nat n * 10 ^ d :: rat) = of_int (int (n * 10 ^ d))" by simp
  then have "\<lfloor>of_nat n * 10 ^ d + 1/2 :: rat\<rfloor> = int (n * 10 ^ d)" by linarith
  then show ?thesis by (simp only: scaled_def nat_int)
qed

lemma locale_string_nat:
  "filter (\<lambda>c. c \<noteq> CHR '','') (locale_string 0 hi (Fin (of_nat n))) = digits n"
proof -
  have "decimal_text 4 0 hi (of_nat n) = (if 4 \<le> length (digits n) then group3 (digits n) else digits n)"
    by (simp add: decimal_text_def scaled_of_nat Let_def pad_zero trim_zeros_replicate join_point_def)
  moreover have "filter (\<lambda>c. c \<noteq> CHR '','') (digits n) = digits n"
    using comma_not_digit by (auto simp: filter_id_conv)
  ultimately show ?thesis
    using group3_strip [OF comma_not_digit] by (simp add: locale_string_def with_sign_def)
qed

end
