(* ===== verification/Format.thy ===== *)
theory Format
  imports Decimal
begin

text \<open>
  The values of a response as the page reads them, and the formatting helpers at the head
  of \<open>web/app.js\<close> (lines 3 to 63): escaping, numbers, tokens, cache hit rate, duration,
  request outcome and money.

  A leaf of the JSON data is any primitive JavaScript value (\<open>jsval\<close>), because the code
  tests each leaf itself; a nested object or array that may be absent is an \<open>option\<close>,
  with the field names of the response. The containers have the shape of the server's
  response types (\<open>internal/upstream/types.go\<close>).
\<close>

section \<open>Values and records\<close>

datatype jsval = Undef | Null | Bool bool | Num jsnum | Str string

record cost =
  currency :: string
  total_cost_nanos :: jsval

record totals =
  input_tokens :: jsval
  output_tokens :: jsval
  cache_read_input_tokens :: jsval
  cache_creation_input_tokens :: jsval
  request_count :: jsval
  total_tokens :: jsval
  costs :: "cost list option"

definition num :: "rat \<Rightarrow> jsval" where
  "num q = Num (Fin q)"

definition literal :: "rat \<Rightarrow> jsnum" where
  \<comment> \<open>a numeric literal of the source\<close>
  "literal q = Fin (rnd64 q)"

definition to_string :: "jsval \<Rightarrow> string" where
  "to_string v = (case v of Undef \<Rightarrow> ''undefined'' | Null \<Rightarrow> ''null''
     | Bool b \<Rightarrow> (if b then ''true'' else ''false'')
     | Num x \<Rightarrow> number_to_string x | Str s \<Rightarrow> s)"

text \<open>\<open>a?.f\<close> for a leaf \<open>f\<close>\<close>

definition field :: "('r \<Rightarrow> jsval) \<Rightarrow> 'r option \<Rightarrow> jsval" where
  "field f r = (case r of None \<Rightarrow> Undef | Some x \<Rightarrow> f x)"

section \<open>Escaping\<close>

definition escape_char :: "char \<Rightarrow> string" where
  "escape_char c = (if c = CHR ''&'' then ''&amp;'' else if c = CHR ''<'' then ''&lt;''
     else if c = CHR ''>'' then ''&gt;'' else if c = CHR 0x22 then ''&quot;''
     else if c = CHR 0x27 then ''&#39;'' else [c])"

definition escape_text :: "string \<Rightarrow> string" where
  "escape_text s = concat (map escape_char s)"

definition escapeHTML :: "jsval \<Rightarrow> string" where
  "escapeHTML v = escape_text (case v of Undef \<Rightarrow> em_dash | Null \<Rightarrow> em_dash | _ \<Rightarrow> to_string v)"

lemma escape_text_append [simp]: "escape_text (s @ t) = escape_text s @ escape_text t"
  by (simp add: escape_text_def)

lemma escape_text_Nil [simp]: "escape_text [] = []"
  by (simp add: escape_text_def)

lemma escape_text_Cons: "escape_text (c # s) = escape_char c @ escape_text s"
  by (simp add: escape_text_def)

lemma escape_char_safe: "c \<in> set (escape_char d) \<Longrightarrow> c \<notin> {CHR ''<'', CHR ''>'', CHR 0x22, CHR 0x27}"
  by (auto simp: escape_char_def split: if_splits)

lemma escape_text_safe: "c \<in> set (escape_text s) \<Longrightarrow> c \<notin> {CHR ''<'', CHR ''>'', CHR 0x22, CHR 0x27}"
  unfolding escape_text_def using escape_char_safe by fastforce

lemma escape_char_prefix_free: "escape_char c @ s = escape_char d @ t \<Longrightarrow> c = d \<and> s = t"
  by (auto simp: escape_char_def split: if_splits)

lemma escape_char_not_Nil [simp]: "escape_char c \<noteq> []"
  by (simp add: escape_char_def)

lemma escape_text_inj: "escape_text s = escape_text t \<Longrightarrow> s = t"
proof (induction s arbitrary: t)
  case Nil
  then show ?case by (cases t) (simp_all add: escape_text_Cons)
next
  case (Cons c s)
  then obtain d t' where t: "t = d # t'" by (cases t) (simp_all add: escape_text_Cons)
  with Cons.prems have "c = d \<and> escape_text s = escape_text t'"
    by (intro escape_char_prefix_free) (simp add: escape_text_Cons)
  with Cons.IH t show ?case by simp
qed

section \<open>Numbers and tokens\<close>

definition numeric :: "jsval \<Rightarrow> bool" where
  "numeric v = (case v of Num x \<Rightarrow> is_finite x | _ \<Rightarrow> False)"

definition the_num :: "jsval \<Rightarrow> jsnum" where
  "the_num v = (case v of Num x \<Rightarrow> x | _ \<Rightarrow> NaN)"

definition number :: "jsval \<Rightarrow> string" where
  "number v = (if numeric v then locale_string 0 3 (the_num v) else em_dash)"

definition percent :: "jsnum \<Rightarrow> string" where
  "percent x = locale_string 0 1 x"

definition compact :: "jsnum \<Rightarrow> string" where
  "compact x = compact_string 2 x"

definition tokens :: "jsval \<Rightarrow> string" where
  "tokens v = (if numeric v then escapeHTML (Str (compact (the_num v))) else em_dash)"

definition empty :: "string \<Rightarrow> string" where
  \<open>empty message = ''<p class="empty">'' @ escapeHTML (Str message) @ ''</p>''\<close>

lemma numeric_simps [simp]:
  "numeric (Num x) = is_finite x" "\<not> numeric Undef" "\<not> numeric Null" "\<not> numeric (Bool b)"
  "\<not> numeric (Str s)" "the_num (Num x) = x"
  by (simp_all add: numeric_def the_num_def)

lemma numericE:
  assumes "numeric v"
  obtains x where "v = Num x" and "is_finite x" and "the_num v = x"
  using assms by (cases v) auto

section \<open>Cache hit rate\<close>

text \<open>\<open>!numeric(value) || value < 0\<close>, and the sum from 0 that \<open>reduce\<close> computes\<close>

definition bad_count :: "jsval \<Rightarrow> bool" where
  "bad_count v \<longleftrightarrow> \<not> numeric v \<or> the_num v < 0"

definition sum_counts :: "jsval list \<Rightarrow> jsnum" where
  "sum_counts vs = fold (\<lambda>v s. s + the_num v) vs 0"

definition cacheHitRate :: "totals option \<Rightarrow> jsnum option" where
  "cacheHitRate usage =
     (let counts = [field input_tokens usage, field cache_read_input_tokens usage,
                    field cache_creation_input_tokens usage]
      in if \<exists>v \<in> set counts. bad_count v then None
         else let total = sum_counts counts
              in if is_finite total \<and> 0 < total
                 then Some (the_num (field cache_read_input_tokens usage) / total * Fin 100)
                 else None)"

definition cacheHitRateText :: "totals option \<Rightarrow> string" where
  "cacheHitRateText usage = (case cacheHitRate usage of None \<Rightarrow> em_dash
     | Some rate \<Rightarrow> percent rate @ ''%'')"

lemma cacheHitRate_value:
  assumes "cacheHitRate usage = Some r"
  obtains a b c where "field input_tokens usage = Num a" and "is_finite a" and "0 \<le> fin_val a"
    and "field cache_read_input_tokens usage = Num b" and "is_finite b" and "0 \<le> fin_val b"
    and "field cache_creation_input_tokens usage = Num c" and "is_finite c" and "0 \<le> fin_val c"
    and "is_finite (0 + a + b + c)" and "0 < fin_val (0 + a + b + c)"
    and "r = b / (0 + a + b + c) * Fin 100"
proof -
  have good: "\<not> bad_count (field input_tokens usage)"
    "\<not> bad_count (field cache_read_input_tokens usage)"
    "\<not> bad_count (field cache_creation_input_tokens usage)"
    using assms by (auto simp: cacheHitRate_def Let_def split: if_splits)
  then obtain a b c where
      a: "field input_tokens usage = Num a" "is_finite a" "0 \<le> fin_val a" and
      b: "field cache_read_input_tokens usage = Num b" "is_finite b" "0 \<le> fin_val b" and
      c: "field cache_creation_input_tokens usage = Num c" "is_finite c" "0 \<le> fin_val c"
    by (auto simp: bad_count_def elim!: numericE dest!: nonneg_finite)
  have "sum_counts [Num a, Num b, Num c] = 0 + a + b + c"
    by (simp add: sum_counts_def)
  with assms good a b c that show thesis
    by (auto simp: cacheHitRate_def Let_def split: if_splits)
qed

lemma cache_share_bounds:
  assumes doubles: "is_double a" "is_double b" "is_double c"
    and finite: "is_finite (0 + a + b + c)" and pos: "0 < fin_val (0 + a + b + c)"
    and nonneg: "0 \<le> fin_val a" "0 \<le> fin_val b" "0 \<le> fin_val c"
  shows "is_finite (b / (0 + a + b + c) * Fin 100)"
    and "0 \<le> fin_val (b / (0 + a + b + c) * Fin 100)"
    and "fin_val (b / (0 + a + b + c) * Fin 100) \<le> 100"
proof -
  let ?t = "0 + a + b + c"
  note fc = plus_finiteD [OF finite]
  note fb = plus_finiteD [OF fc(1)]
  have "fin_val b \<le> fin_val (0 + a + b)"
    using b64.sum_ge_left [OF double_rnd [OF doubles(2)], of "fin_val (0 + a)"]
      plus_finiteD(3) [OF fb(1)] b64.nonneg nonneg fb(3) by (simp add: add.commute)
  also have "\<dots> \<le> fin_val ?t"
    using b64.sum_ge_left [of "fin_val (0 + a + b)" "fin_val c"] fb(3) fc(3) nonneg b64.idem
    by simp
  finally have le: "fin_val b \<le> fin_val ?t" .
  let ?s = "fin_val b / fin_val ?t"
  have s: "0 \<le> ?s" "?s \<le> 1" using le pos nonneg by simp_all
  then have s1: "\<bar>?s\<bar> \<le> of_int 1" by (simp only: abs_of_nonneg of_int_1)
  have d: "is_finite (b / ?t)" "fin_val (b / ?t) = rnd64 ?s"
    using num_of_bounded [OF s1] finite fb(2) pos by (simp_all add: divide_finite)
  have rs: "0 \<le> rnd64 ?s" "rnd64 ?s \<le> 1"
    using b64.nonneg b64.le_fixed [of 1] s by simp_all
  have "\<bar>rnd64 ?s * 100\<bar> \<le> of_int 100" using rs by simp
  then have m: "is_finite (b / ?t * Fin 100)" "fin_val (b / ?t * Fin 100) = rnd64 (rnd64 ?s * 100)"
    using num_of_bounded [of "rnd64 ?s * 100" 100] d by (simp_all add: times_finite)
  then show "is_finite (b / ?t * Fin 100)" by simp
  show "0 \<le> fin_val (b / ?t * Fin 100)" using m b64.nonneg rs by simp
  show "fin_val (b / ?t * Fin 100) \<le> 100" using m b64.scaled_le [of 100 "rnd64 ?s"] rs by simp
qed

section \<open>Duration, outcome and money\<close>

definition duration :: "jsval \<Rightarrow> string" where
  "duration v = (if \<not> numeric v \<or> the_num v < 0 then em_dash
     else if the_num v < Fin 1000 then to_fixed 0 (the_num v) @ '' ms''
     else to_fixed 2 (the_num v / Fin 1000) @ '' s'')"

definition requestOutcome :: "jsval \<Rightarrow> string" where
  \<open>requestOutcome v =
     (if v = Str ''completed'' then ''Completed''
      else if v = Str ''cancelled'' then ''<span class="outcome outcome-cancelled">Cancelled</span>''
      else if v = Str ''error'' then ''<span class="outcome outcome-error">Error</span>''
      else em_dash)\<close>

definition money_display :: "jsnum \<Rightarrow> string" where
  "money_display nanos =
     (let amount = nanos / Fin (10 ^ 9);
          subcent = (0 < amount \<and> amount < literal (1 / 100))
      in if subcent \<and> amount < literal (1 / 10 ^ 6) then ''<0.000001''
         else locale_string 2 (if subcent then 6 else 2) amount)"

definition money_item :: "cost \<Rightarrow> string" where
  \<open>money_item c = (if \<not> numeric (total_cost_nanos c) then em_dash
     else ''<span class="money">''
       @ escapeHTML (Str (currency c @ '' '' @ money_display (the_num (total_cost_nanos c))))
       @ ''</span>'')\<close>

definition money :: "cost list option \<Rightarrow> string" where
  "money cs = (case cs of None \<Rightarrow> em_dash | Some [] \<Rightarrow> em_dash
     | Some xs \<Rightarrow> concat (map money_item xs))"

definition costValue :: "cost list option \<Rightarrow> jsval" where
  "costValue cs = (case cs of Some [c] \<Rightarrow>
       (if numeric (total_cost_nanos c) then total_cost_nanos c else Null)
     | _ \<Rightarrow> Null)"

section \<open>Positive costs stay visible\<close>

lemma scaled_positive: "1 / 2 \<le> q * 10 ^ d \<Longrightarrow> 0 < scaled d q"
  by (simp add: scaled_def)

lemma locale_string_nonzero:
  assumes "is_finite x" and "1 / 2 \<le> fin_val x * 10 ^ hi"
  shows "\<exists>c \<in> set (locale_string lo hi x). nonzero_digit c"
proof -
  have pos: "0 < fin_val x"
    using assms(2) by (metis divide_pos_pos less_le_trans mult_nonpos_nonneg not_less zero_le_numeral
        zero_le_power zero_less_numeral zero_less_one)
  then obtain q where q: "x = Fin q" "0 < q" using assms(1) by (elim finite_cases) auto
  have "\<exists>c \<in> set (decimal_text 4 lo hi q). nonzero_digit c"
    using decimal_text_nonzero scaled_positive assms(2) q by simp
  then show ?thesis using q by (simp add: locale_string_def with_sign_def)
qed

text \<open>The two thresholds are at least the powers of two below them.\<close>

lemma threshold: "- 1074 \<le> k \<Longrightarrow> 2 powi k \<le> q \<Longrightarrow> 2 powi k \<le> fin_val (literal q)"
  using b64.ge_fixed [OF rnd64_repr [OF repr64_powi]] by (simp add: literal_def)

lemma money_display_visible:
  assumes "0 < n" and "n \<le> 2 ^ 53"
  shows "\<exists>c \<in> set (money_display (num_of_nat n)). nonzero_digit c"
proof -
  let ?a = "num_of_nat n / Fin (10 ^ 9)"
  have "\<bar>fin_val (num_of_nat n) / fin_val (Fin (10 ^ 9))\<bar> \<le> of_int (int n)" by simp
  from divide_bounded [OF _ _ _ this] assms(2)
  have a: "is_finite ?a" "fin_val ?a = rnd64 (of_nat n / 10 ^ 9)" by simp_all
  have cent: "1 / 128 \<le> fin_val (literal (1 / 100))"
    using threshold [of "- 7" "1 / 100"] by (simp add: power_int_minus)
  have micro: "1 / 1048576 \<le> fin_val (literal (1 / 10 ^ 6))"
    using threshold [of "- 20" "1 / 10 ^ 6"] by (simp add: power_int_minus)
  have lf: "is_finite (literal q)" for q by (simp add: literal_def)
  have one: "nonzero_digit (CHR ''1'')" by (simp add: nonzero_digit_def is_digit_def)
  have posa: "0 < fin_val ?a"
    using threshold [of "- 30" "of_nat n / 10 ^ 9"] assms(1) a by (simp add: literal_def power_int_minus)
  show ?thesis
  proof (cases "?a < literal (1 / 100)")
    case False
    then have "1 / 2 \<le> fin_val ?a * 10 ^ 2" using cent a(1) lf by simp
    with False locale_string_nonzero [OF a(1)] show ?thesis by (simp add: money_display_def Let_def)
  next
    case True
    show ?thesis
    proof (cases "?a < literal (1 / 10 ^ 6)")
      case True
      then show ?thesis using \<open>?a < literal (1 / 100)\<close> posa a(1) one
        by (simp add: money_display_def Let_def zero_jsnum_def)
    next
      case False
      then have "1 / 2 \<le> fin_val ?a * 10 ^ 6" using micro a(1) lf by simp
      with False True posa a(1) locale_string_nonzero [OF a(1)] show ?thesis
        by (simp add: money_display_def Let_def zero_jsnum_def)
    qed
  qed
qed

end
