(* ===== verification/Markup.thy ===== *)
theory Markup
  imports Format
begin

text \<open>
  What a string assigned to \<open>innerHTML\<close> means to the browser: the tokenizer of the HTML
  syntax the page's templates use (tags, attribute names, quoted and unquoted values), and
  the predicate \<open>html\<close>, that a fragment leaves the tokenizer between tags and opens only
  elements and attributes of the page's own templates. Text that cannot contain
  \<open><\<close> or a quote is inert in both positions where data is inserted; the locale
  \<open>inert_text\<close> states that interface, and every formatting helper is an
  interpretation of it.
\<close>

section \<open>The tokenizer\<close>

datatype mode =
    Data
  | TagOpen string                        \<comment> \<open>the name read so far\<close>
  | InTag string "string list"            \<comment> \<open>element and attribute names read so far\<close>
  | AttrName string "string list" string
  | AttrEq string "string list"
  | Quoted char string "string list"
  | Unquoted string "string list"

type_synonym tag = "string \<times> string list"

fun tok_step :: "mode \<Rightarrow> char \<Rightarrow> mode \<times> tag list" where
  "tok_step Data c = (if c = CHR ''<'' then TagOpen [] else Data, [])"
| "tok_step (TagOpen n) c =
     (if c = CHR ''>'' then (Data, [(n, [])])
      else if c = CHR '' '' \<or> c = CHR 0x0A \<or> c = CHR ''/'' \<and> n \<noteq> [] then (InTag n [], [])
      else (TagOpen (n @ [c]), []))"
| "tok_step (InTag n as) c =
     (if c = CHR ''>'' then (Data, [(n, as)])
      else if c = CHR '' '' \<or> c = CHR 0x0A \<or> c = CHR ''/'' then (InTag n as, [])
      else (AttrName n as [c], []))"
| "tok_step (AttrName n as a) c =
     (if c = CHR ''='' then (AttrEq n (as @ [a]), [])
      else if c = CHR ''>'' then (Data, [(n, as @ [a])])
      else if c = CHR '' '' \<or> c = CHR 0x0A \<or> c = CHR ''/'' then (InTag n (as @ [a]), [])
      else (AttrName n as (a @ [c]), []))"
| "tok_step (AttrEq n as) c =
     (if c = CHR 0x22 \<or> c = CHR 0x27 then (Quoted c n as, [])
      else if c = CHR ''>'' then (Data, [(n, as)])
      else (Unquoted n as, []))"
| "tok_step (Quoted q n as) c = (if c = q then InTag n as else Quoted q n as, [])"
| "tok_step (Unquoted n as) c =
     (if c = CHR ''>'' then (Data, [(n, as)])
      else if c = CHR '' '' \<or> c = CHR 0x0A then (InTag n as, [])
      else (Unquoted n as, []))"

section \<open>The markup of the page\<close>

definition page_elements :: "string list" where
  "page_elements =
     [''p'', ''/p'', ''span'', ''/span'', ''div'', ''/div'', ''table'', ''/table'', ''caption'',
      ''/caption'', ''thead'', ''/thead'', ''tbody'', ''/tbody'', ''tr'', ''/tr'', ''th'', ''/th'',
      ''td'', ''/td'', ''button'', ''/button'', ''article'', ''/article'', ''progress'',
      ''/progress'', ''h2'', ''/h2'', ''h3'', ''/h3'', ''strong'', ''/strong'', ''dl'', ''/dl'',
      ''dt'', ''/dt'', ''dd'', ''/dd'', ''svg'', ''/svg'', ''line'', ''text'', ''/text'',
      ''polygon'', ''polyline'', ''circle'', ''rect'', ''details'', ''/details'', ''summary'',
      ''/summary'', ''a'', ''/a'']"

definition page_attributes :: "string list" where
  "page_attributes =
     [''class'', ''id'', ''role'', ''tabindex'', ''title'', ''scope'', ''type'', ''disabled'',
      ''hidden'', ''open'', ''value'', ''max'', ''aria-label'', ''aria-hidden'', ''aria-sort'',
      ''aria-atomic'', ''data-table'', ''data-sort'', ''data-column'', ''href'', ''viewBox'',
      ''points'', ''x'', ''y'', ''x1'', ''x2'', ''y1'', ''y2'', ''cx'', ''cy'', ''r'', ''width'',
      ''height'', ''text-anchor'']"

definition allowed :: "tag \<Rightarrow> bool" where
  "allowed t \<longleftrightarrow> fst t \<in> set page_elements \<and> list_all (\<lambda>a. a \<in> set page_attributes) (snd t)"

text \<open>
  The mode after a string; \<open>None\<close> once a tag that the page's templates do not contain
  has been read.
\<close>

definition next_mode :: "mode \<Rightarrow> char \<Rightarrow> mode option" where
  "next_mode m c = (case tok_step m c of (m', ts) \<Rightarrow>
     if list_all allowed ts then Some m' else None)"

fun walk :: "mode option \<Rightarrow> string \<Rightarrow> mode option" where
  "walk None s = None"
| "walk (Some m) [] = Some m"
| "walk (Some m) (c # s) = walk (next_mode m c) s"

text \<open>
  To follow a template, the simplifier rewrites the mode only and leaves the text that is
  still to be read alone.
\<close>

lemma walk_cong: "m = m' \<Longrightarrow> walk m s = walk m' s"
  by simp

definition html :: "string \<Rightarrow> bool" where
  "html s \<longleftrightarrow> walk (Some Data) s = Some Data"

lemma walk_None [simp]: "walk None s = None"
  by simp

lemma walk_Nil [simp]: "walk m [] = m"
  by (cases m) simp_all

lemma walk_append [simp]: "walk m (s @ t) = walk (walk m s) t"
proof (induction s arbitrary: m)
  case (Cons c s)
  then show ?case by (cases m) simp_all
qed simp

lemma html_walk [simp]: "html s \<Longrightarrow> walk (Some Data) s = Some Data"
  unfolding html_def by blast

lemma html_Nil [simp]: "html []"
  unfolding html_def by simp

lemma html_append [intro]: "html s \<Longrightarrow> html t \<Longrightarrow> html (s @ t)"
  unfolding html_def by simp

lemma html_concat: "(\<And>s. s \<in> set ss \<Longrightarrow> html s) \<Longrightarrow> html (concat ss)"
  by (induction ss) auto

lemma html_concat_map: "(\<And>x. x \<in> set xs \<Longrightarrow> html (f x)) \<Longrightarrow> html (concat (map f xs))"
  by (induction xs) auto

lemma walk_branch:
  "walk m (if p then s else t) = (if p then walk m s else walk m t)"
  "walk m (Let x f) = walk m (f x)"
  "walk m (case None of None \<Rightarrow> s | Some y \<Rightarrow> g y) = walk m s"
  "walk m (case Some z of None \<Rightarrow> s | Some y \<Rightarrow> g y) = walk m (g z)"
  "walk m (case (a, b) of (x, y) \<Rightarrow> h x y) = walk m (h a b)"
  by simp_all

lemma element_members:
  "list_all (\<lambda>n. n \<in> set page_elements) page_elements"
  "list_all (\<lambda>n. n \<in> set page_attributes) page_attributes"
  by (simp_all add: list_all_iff)

lemmas page_members =
  element_members(1) [unfolded page_elements_def list.pred_inject, folded page_elements_def]
  element_members(2) [unfolded page_attributes_def list.pred_inject, folded page_attributes_def]

lemmas walk_simps = walk_branch next_mode_def allowed_def page_members

lemma walk_data_text: "CHR ''<'' \<notin> set s \<Longrightarrow> walk (Some Data) s = Some Data"
  by (induction s) (auto simp: next_mode_def)

lemma walk_quoted_text:
  "CHR 0x22 \<notin> set s \<Longrightarrow>
     walk (Some (Quoted (CHR 0x22) n as)) s = Some (Quoted (CHR 0x22) n as)"
  by (induction s) (auto simp: next_mode_def)

section \<open>Inert text\<close>

locale inert_text =
  fixes text_of :: "'a \<Rightarrow> string"
  assumes no_tag: "CHR ''<'' \<notin> set (text_of x)"
    and no_quote: "CHR 0x22 \<notin> set (text_of x)"
begin

lemma is_html: "html (text_of x)"
  unfolding html_def by (rule walk_data_text [OF no_tag])

lemma in_attribute:
  "walk (Some (Quoted (CHR 0x22) n as)) (text_of x) = Some (Quoted (CHR 0x22) n as)"
  by (rule walk_quoted_text [OF no_quote])

end

text \<open>
  Decimal texts are made of digits, a few signs and the bytes of the infinity sign.
\<close>

definition number_chars :: "char set" where
  "number_chars = {c. is_digit c} \<union> set (''.,-+eKMBTNaInfity%'' @ infinity_sign @ em_dash)"

lemma number_chars_inert: "CHR ''<'' \<notin> number_chars" "CHR 0x22 \<notin> number_chars"
  by (auto simp: number_chars_def is_digit_def literal_simps)

lemma number_chars_special [simp]:
  "CHR ''.'' \<in> number_chars" "CHR '','' \<in> number_chars" "CHR ''-'' \<in> number_chars"
  "CHR ''0'' \<in> number_chars" "CHR ''e'' \<in> number_chars" "CHR ''+'' \<in> number_chars"
  "CHR ''1'' \<in> number_chars"
  by (auto simp: number_chars_def is_digit_def)

lemma digits_number_chars: "set (digits n) \<subseteq> number_chars"
  using digits_are_digits by (auto simp: number_chars_def)

lemma group3_number_chars: "set s \<subseteq> number_chars \<Longrightarrow> set (group3 s) \<subseteq> number_chars"
  using set_group3 [of s] by (metis Diff_subset insert_Diff_single insert_subset
      number_chars_special(2) subset_insertI2 subset_trans Diff_subset_conv sup_commute insert_is_Un)

lemma decimal_text_chars: "set (decimal_text g lo hi q) \<subseteq> number_chars"
proof -
  let ?n = "scaled hi q"
  have ip: "set (if g \<le> length (digits (?n div 10 ^ hi)) then group3 (digits (?n div 10 ^ hi))
      else digits (?n div 10 ^ hi)) \<subseteq> number_chars"
    by (simp add: group3_number_chars digits_number_chars)
  have "set (pad_left hi (digits (?n mod 10 ^ hi))) \<subseteq> number_chars"
    using digits_number_chars by (auto simp: pad_left_def)
  then have fp: "set (trim_zeros lo (pad_left hi (digits (?n mod 10 ^ hi)))) \<subseteq> number_chars"
    using set_trim_zeros by blast
  show ?thesis using ip fp by (simp add: decimal_text_def Let_def join_point_def)
qed

lemma with_sign_chars:
  assumes "\<And>q. set (f q) \<subseteq> number_chars"
  shows "set (with_sign f x) \<subseteq> number_chars"
  using assms by (cases x) (auto simp: with_sign_def number_chars_def literal_simps)

lemma locale_string_chars: "set (locale_string lo hi x) \<subseteq> number_chars"
  unfolding locale_string_def by (rule with_sign_chars) (rule decimal_text_chars)

lemma compact_string_chars: "set (compact_string hi x) \<subseteq> number_chars"
proof -
  have "set (compact_suffix e) \<subseteq> number_chars" for e
    by (auto simp: compact_suffix_def number_chars_def)
  then have "set (compact_text hi q) \<subseteq> number_chars" for q
    using decimal_text_chars by (simp add: compact_text_def Let_def)
  then show ?thesis unfolding compact_string_def by (rule with_sign_chars)
qed

lemma positive_to_string_chars: "set (positive_to_string q) \<subseteq> number_chars"
proof -
  have e: "set (exponent_text k) \<subseteq> number_chars" for k
    using digits_number_chars by (auto simp: exponent_text_def)
  have d: "set (take i (digits n)) \<subseteq> number_chars" "set (drop i (digits n)) \<subseteq> number_chars" for i n
    using digits_number_chars by (auto dest: in_set_takeD in_set_dropD)
  have z: "set (replicate i (CHR ''0'')) \<subseteq> number_chars" for i by auto
  have t: "set (take i ''1'') \<subseteq> number_chars" "set (drop i ''1'') \<subseteq> number_chars" for i
    by (auto simp: take_Cons drop_Cons split: nat.splits)
  obtain n k where nk: "shortest_decimal q (ilog 10 q + 1) 1 16 = (n, k)" by fastforce
  show ?thesis
    unfolding positive_to_string_def Let_def nk prod.case
    using e d z t digits_number_chars [of n] by simp
qed

lemma number_to_string_chars: "set (number_to_string x) \<subseteq> number_chars"
  using positive_to_string_chars
  by (cases x) (auto simp: number_to_string_def number_chars_def is_digit_def)

lemma em_dash_chars: "set em_dash \<subseteq> number_chars"
  by (auto simp: number_chars_def)

lemma inert_textI: "(\<And>x. set (f x) \<subseteq> number_chars) \<Longrightarrow> inert_text f"
  using number_chars_inert by unfold_locales blast+

interpretation esc: inert_text escapeHTML
  by unfold_locales (auto simp: escapeHTML_def dest: escape_text_safe)

interpretation num: inert_text number
  by (rule inert_textI) (auto simp: number_def em_dash_chars locale_string_chars
      dest: subsetD [OF locale_string_chars] subsetD [OF em_dash_chars])

interpretation pct: inert_text percent
  by (rule inert_textI) (simp add: percent_def locale_string_chars)

interpretation str: inert_text number_to_string
  by (rule inert_textI) (rule number_to_string_chars)

interpretation dash: inert_text "\<lambda>_ :: unit. em_dash"
  by (rule inert_textI) (rule em_dash_chars)

lemma em_dash_html [simp]: "html em_dash"
  by (rule dash.is_html)

interpretation tok: inert_text tokens
  by unfold_locales (auto simp: tokens_def esc.no_tag esc.no_quote dash.no_tag dash.no_quote)

lemma to_fixed_chars: "set (to_fixed d x) \<subseteq> number_chars"
  using digits_number_chars number_to_string_chars
  by (cases x) (auto simp: to_fixed_def join_point_def Let_def pad_left_def)

interpretation dur: inert_text duration
  using number_chars_inert to_fixed_chars dash.no_tag dash.no_quote
  by unfold_locales (auto simp: duration_def)

lemmas inert_simps [simp] =
  esc.is_html esc.in_attribute num.is_html num.in_attribute pct.is_html pct.in_attribute
  str.is_html str.in_attribute tok.is_html tok.in_attribute dur.is_html

lemma empty_html [simp]: "html (empty s)"
  unfolding html_def empty_def by (simp add: walk_simps cong: walk_cong)

end
