(* ===== verification/Quota.thy ===== *)
theory Quota
  imports Markup
begin

text \<open>
  Quota snapshots (\<open>web/app.js\<close>, lines 112 to 183): what is used, what remains and the
  share used, each possibly unknown; the warning levels; the cells of the account table
  and the quota cards of one account.
\<close>

record quota =
  unlimited :: jsval
  entitlement :: jsval
  quota_remaining :: jsval
  percent_remaining :: jsval
  has_quota :: jsval
  credits_used :: jsval

record quotas =
  chat :: "quota option"
  completions :: "quota option"
  premium_interactions :: "quota option"

section \<open>Values\<close>

text \<open>\<open>v === 0\<close>\<close>

definition is_zero :: "jsval \<Rightarrow> bool" where
  "is_zero v = (case v of Num x \<Rightarrow> num_eq x 0 | _ \<Rightarrow> False)"

definition validMeteredQuota :: "quota option \<Rightarrow> bool" where
  "validMeteredQuota q \<longleftrightarrow> field unlimited q = Bool False
     \<and> numeric (field entitlement q) \<and> 0 < the_num (field entitlement q)"

definition remainingValue :: "quota option \<Rightarrow> jsval" where
  "remainingValue q =
     (if field unlimited q \<noteq> Bool False \<or> is_zero (field entitlement q) then Null
      else if numeric (field quota_remaining q) \<and> 0 \<le> the_num (field quota_remaining q)
        then field quota_remaining q else Null)"

definition usedPercentValue :: "quota option \<Rightarrow> jsval" where
  "usedPercentValue q =
     (if field unlimited q \<noteq> Bool False \<or> is_zero (field entitlement q) then Null
      else if numeric (field percent_remaining q)
        then Num (Fin 100 - math_min (Fin 100) (math_max 0 (the_num (field percent_remaining q))))
      else Null)"

definition usedValue :: "quota option \<Rightarrow> jsval" where
  "usedValue q =
     (if field unlimited q = Bool True then
        (if field has_quota q \<noteq> Bool False \<and> numeric (field credits_used q)
            \<and> 0 \<le> the_num (field credits_used q)
         then field credits_used q else Null)
      else if \<not> validMeteredQuota q then Null
      else let remaining = remainingValue q; total = the_num (field entitlement q)
        in if numeric remaining then Num (math_max 0 (total - the_num remaining))
           else let usedPercent = usedPercentValue q
             in if numeric usedPercent then Num (total * the_num usedPercent / Fin 100)
                else Null)"

definition usageLevel :: "jsnum \<Rightarrow> string" where
  "usageLevel usedPercent =
     (let rounded = math_round (usedPercent * Fin 10) / Fin 10
      in if Fin 100 \<le> rounded then ''exhausted''
         else if Fin 90 \<le> rounded then ''warning'' else [])"

section \<open>Cells\<close>

definition quotaUsed :: "quota option \<Rightarrow> string" where
  "quotaUsed q = number (usedValue q)"

definition quotaRemaining :: "quota option \<Rightarrow> string" where
  "quotaRemaining q = (if field unlimited q = Bool True then ''Unlimited''
     else number (remainingValue q))"

definition quotaTotal :: "quota option \<Rightarrow> string" where
  "quotaTotal q = (if field unlimited q = Bool True then ''Unlimited''
     else if validMeteredQuota q then number (field entitlement q) else em_dash)"

definition quotaUsage :: "quota option \<Rightarrow> string" where
  \<open>quotaUsage q =
     (if field unlimited q = Bool True then ''<span class="unlimited">Unlimited</span>''
      else let usedPercent = usedPercentValue q
        in if \<not> numeric usedPercent then em_dash
           else let rounded = math_round (the_num usedPercent * Fin 10) / Fin 10;
                    display = percent rounded @ ''%'';
                    progress = math_min (Fin 100) (math_max 0 rounded);
                    level = usageLevel rounded
             in ''<span class="quota-usage'' @ (if level \<noteq> [] then '' '' @ level else [])
                @ ''"><progress value="'' @ number_to_string progress
                @ ''" max="100" aria-label="'' @ display
                @ '' used"></progress><span class="quota-usage-value">'' @ display
                @ ''</span></span>'')\<close>

section \<open>Quota cards\<close>

text \<open>The template of \<open>renderQuotas\<close> for one quota and its label.\<close>

definition quota_card :: "quota option \<Rightarrow> string \<Rightarrow> string" where
  \<open>quota_card q label =
     (if field unlimited q = Bool True then
        ''<article class="quota"><div class="quota-top"><h3>'' @ label
        @ ''</h3><span class="unlimited">Unlimited</span></div>''
        @ (if numeric (usedValue q)
           then ''<div class="quota-values"><span>'' @ quotaUsed q @ '' used</span></div>'' else [])
        @ ''</article>''
      else
        let usedPercent = usedPercentValue q; known = numeric usedPercent;
            level = (if known then usageLevel (the_num usedPercent) else []);
            shown = percent (the_num usedPercent)
        in ''<article class="quota"><div class="quota-top"><h3>'' @ label @ ''</h3><span class="''
           @ (if level \<noteq> [] then level else ''muted'') @ ''">''
           @ (if known then shown @ ''% used'' else em_dash) @ ''</span></div>
      ''
           @ (if known
              then ''<progress'' @ (if level \<noteq> [] then '' class="'' @ level @ ''"'' else [])
                @ '' value="''
                @ number_to_string (math_min (Fin 100) (math_max 0 (the_num usedPercent)))
                @ ''" max="100" aria-label="'' @ label @ '': '' @ shown @ ''% used"></progress>''
              else empty em_dash)
           @ ''
      <div class="quota-values"><span>'' @ quotaUsed q @ '' used / '' @ quotaTotal q
           @ ''</span><span>'' @ quotaRemaining q @ '' remaining</span></div></article>'')\<close>

definition quotas_html :: "quotas option \<Rightarrow> string" where
  "quotas_html snapshots =
     (let q = (\<lambda>f. case snapshots of None \<Rightarrow> None | Some s \<Rightarrow> f s)
      in quota_card (q premium_interactions) ''Premium interactions''
         @ quota_card (q chat) ''Chat''
         @ quota_card (q completions) ''Completions'')"

section \<open>Ranges\<close>

lemma clamped_percent:
  assumes "is_finite x"
  shows "is_finite (math_min (Fin 100) (math_max 0 x))"
    and "0 \<le> fin_val (math_min (Fin 100) (math_max 0 x))"
    and "fin_val (math_min (Fin 100) (math_max 0 x)) \<le> 100"
  using math_max_finite [of 0 x] math_min_finite [of "Fin 100" "math_max 0 x"] assms by auto

lemma hundred_minus:
  assumes "is_finite x" and "0 \<le> fin_val x" and "fin_val x \<le> 100"
  shows "is_finite (Fin 100 - x)" and "0 \<le> fin_val (Fin 100 - x)" and "fin_val (Fin 100 - x) \<le> 100"
proof -
  obtain s where s: "Fin 100 - x = num_of s (100 - fin_val x)"
    using minus_finite [of "Fin 100" x] assms by auto
  have "\<bar>100 - fin_val x\<bar> \<le> of_int 100" using assms by simp
  note b = num_of_bounded [OF this, of s]
  show "is_finite (Fin 100 - x)" using b s by simp
  show "0 \<le> fin_val (Fin 100 - x)" using b s b64.nonneg assms by simp
  show "fin_val (Fin 100 - x) \<le> 100"
    using b s b64.le_fixed [of 100 "100 - fin_val x"] assms by simp
qed

lemma usedPercentValue_cases:
  obtains "usedPercentValue q = Null"
  | x where "usedPercentValue q = Num x" and "is_finite x" and "0 \<le> fin_val x" and "fin_val x \<le> 100"
proof (cases "field unlimited q \<noteq> Bool False \<or> is_zero (field entitlement q)
    \<or> \<not> numeric (field percent_remaining q)")
  case True
  then show thesis by (intro that(1)) (auto simp: usedPercentValue_def)
next
  case False
  then obtain p where "field percent_remaining q = Num p" "is_finite p" by (auto elim: numericE)
  then show thesis
    using False clamped_percent [of p] hundred_minus
    by (intro that(2) [of "Fin 100 - math_min (Fin 100) (math_max 0 p)"])
      (auto simp: usedPercentValue_def)
qed

text \<open>A rounded share, in tenths of a percent, stays between 0 and 100.\<close>

lemma rounded_tenths:
  assumes "is_finite x" and "0 \<le> fin_val x" and "fin_val x \<le> 100"
  shows "is_finite (math_round (x * Fin 10) / Fin 10)"
    and "0 \<le> fin_val (math_round (x * Fin 10) / Fin 10)"
    and "fin_val (math_round (x * Fin 10) / Fin 10) \<le> 100"
    and "fin_val (math_round (x * Fin 10) / Fin 10) =
      rnd64 (of_int \<lfloor>rnd64 (fin_val x * 10) + 1/2\<rfloor> / 10)"
proof -
  have "\<bar>fin_val x * 10\<bar> \<le> of_int 1000" using assms by simp
  note b = num_of_bounded [OF this]
  let ?p = "rnd64 (fin_val x * 10)" and ?n = "\<lfloor>rnd64 (fin_val x * 10) + 1/2\<rfloor>"
  have p: "is_finite (x * Fin 10)" "fin_val (x * Fin 10) = ?p"
    using b assms by (simp_all add: times_finite)
  have pr: "0 \<le> ?p" "?p \<le> 1000"
    using b64.nonneg b64.le_fixed [of 1000 "fin_val x * 10"] assms by simp_all
  have n: "0 \<le> ?n" "?n \<le> 1000" using pr by linarith+
  have half: "\<lfloor>1/2 :: rat\<rfloor> = 0" by (simp add: floor_eq_iff)
  have r: "is_finite (math_round (x * Fin 10))" "fin_val (math_round (x * Fin 10)) = of_int ?n"
    using p pr half by (auto simp: math_round_def Let_def elim!: finite_cases)
  have "\<bar>of_int ?n / 10 :: rat\<bar> \<le> of_int 100"
  proof -
    have "(of_int ?n :: rat) \<le> 1000"
      using n(2) of_int_le_iff [of ?n 1000, where ?'a = rat] by simp
    moreover have "(0 :: rat) \<le> of_int ?n" using n(1) by simp
    ultimately show ?thesis by simp
  qed
  note d = num_of_bounded [OF this]
  have q: "is_finite (math_round (x * Fin 10) / Fin 10)"
    "fin_val (math_round (x * Fin 10) / Fin 10) = rnd64 (of_int ?n / 10)"
    using d r by (simp_all add: divide_finite)
  then show "is_finite (math_round (x * Fin 10) / Fin 10)"
    "fin_val (math_round (x * Fin 10) / Fin 10) = rnd64 (of_int ?n / 10)" by simp_all
  have "(of_int ?n :: rat) / 10 \<le> 100" "0 \<le> (of_int ?n :: rat) / 10"
    using n of_int_le_iff [of ?n 1000, where ?'a = rat] by simp_all
  then show "0 \<le> fin_val (math_round (x * Fin 10) / Fin 10)"
    "fin_val (math_round (x * Fin 10) / Fin 10) \<le> 100"
    using q b64.nonneg b64.le_fixed [of 100 "of_int ?n / 10"] by simp_all
qed

section \<open>Markup\<close>

lemma usageLevel_cases: "usageLevel x \<in> {''exhausted'', ''warning'', []}"
  by (simp add: usageLevel_def Let_def)

interpretation level: inert_text usageLevel
proof (unfold_locales, goal_cases)
  case (1 x)
  then show ?case using usageLevel_cases [of x] by auto
next
  case (2 x)
  then show ?case using usageLevel_cases [of x] by auto
qed

lemmas [simp] = level.in_attribute

lemma quota_cells_html [simp]: "html (quotaUsed q)" "html (quotaRemaining q)" "html (quotaTotal q)"
  unfolding html_def quotaUsed_def quotaRemaining_def quotaTotal_def
  by (simp_all add: walk_simps cong: walk_cong)

lemma quotaUsage_html: "html (quotaUsage q)"
  unfolding html_def quotaUsage_def
  by (simp add: walk_simps cong: walk_cong)

lemma quota_card_html:
  assumes "html label" and "CHR 0x22 \<notin> set label"
  shows "html (quota_card q label)"
proof -
  have "walk (Some (Quoted (CHR 0x22) n as)) label = Some (Quoted (CHR 0x22) n as)" for n as
    using assms(2) by (rule walk_quoted_text)
  then show ?thesis
    unfolding html_def quota_card_def
    using assms(1) by (simp add: walk_simps cong: walk_cong)
qed

lemma quotas_html_html: "html (quotas_html s)"
proof -
  have "html ''Premium interactions''" "html ''Chat''" "html ''Completions''"
    by code_simp+
  then show ?thesis
    unfolding quotas_html_def Let_def by (intro html_append quota_card_html) simp_all
qed

end
