(* ===== verification/Stable_Sort.thy ===== *)
theory Stable_Sort
  imports Prelude
begin

text \<open>
  \<open>Array.prototype.sort\<close> with a comparator. The language fixes the result whenever the
  comparator is consistent on the elements: it is sorted and stable, which determines it
  (\<open>stable_sorted_unique\<close>), whatever algorithm the engine runs. The model is an insertion
  sort; the locale \<open>comparator_on\<close> states what a consistent comparator is. String
  collation (\<open>localeCompare\<close>) is one such comparator; the collation of the en locale with
  base sensitivity is given for ASCII.
\<close>

section \<open>The sort\<close>

fun insert_by :: "('a \<Rightarrow> 'a \<Rightarrow> int) \<Rightarrow> 'a \<Rightarrow> 'a list \<Rightarrow> 'a list" where
  "insert_by cmp x [] = [x]"
| "insert_by cmp x (y # ys) = (if cmp x y \<le> 0 then x # y # ys else y # insert_by cmp x ys)"

definition sort_by :: "('a \<Rightarrow> 'a \<Rightarrow> int) \<Rightarrow> 'a list \<Rightarrow> 'a list" where
  "sort_by cmp xs = foldr (insert_by cmp) xs []"

lemma mset_insert_by [simp]: "mset (insert_by cmp x ys) = add_mset x (mset ys)"
  by (induction ys) auto

lemma set_insert_by [simp]: "set (insert_by cmp x ys) = insert x (set ys)"
  by (induction ys) auto

lemma mset_sort_by [simp]: "mset (sort_by cmp xs) = mset xs"
  by (induction xs) (auto simp: sort_by_def)

lemma set_sort_by [simp]: "set (sort_by cmp xs) = set xs"
  by (rule mset_eq_setD) simp

lemma length_sort_by [simp]: "length (sort_by cmp xs) = length xs"
  by (rule mset_eq_length) simp

lemma sort_by_Cons: "sort_by cmp (x # xs) = insert_by cmp x (sort_by cmp xs)"
  by (simp add: sort_by_def)

definition sorted_cmp :: "('a \<Rightarrow> 'a \<Rightarrow> int) \<Rightarrow> 'a list \<Rightarrow> bool" where
  "sorted_cmp cmp xs \<longleftrightarrow> sorted_wrt (\<lambda>x y. cmp x y \<le> 0) xs"

section \<open>Consistent comparators\<close>

locale comparator_on =
  fixes cmp :: "'a \<Rightarrow> 'a \<Rightarrow> int" and A :: "'a set"
  assumes refl: "x \<in> A \<Longrightarrow> cmp x x = 0"
    and antisym: "x \<in> A \<Longrightarrow> y \<in> A \<Longrightarrow> cmp x y \<le> 0 \<longleftrightarrow> 0 \<le> cmp y x"
    and trans: "x \<in> A \<Longrightarrow> y \<in> A \<Longrightarrow> z \<in> A \<Longrightarrow> cmp x y \<le> 0 \<Longrightarrow> cmp y z \<le> 0 \<Longrightarrow> cmp x z \<le> 0"
begin

lemma total: "x \<in> A \<Longrightarrow> y \<in> A \<Longrightarrow> cmp x y \<le> 0 \<or> cmp y x \<le> 0"
  using antisym [of x y] antisym [of y x] by linarith

lemma equal_sym: "x \<in> A \<Longrightarrow> y \<in> A \<Longrightarrow> cmp x y = 0 \<Longrightarrow> cmp y x = 0"
  using antisym [of x y] antisym [of y x] by linarith

lemma equal_trans:
  assumes "x \<in> A" and "y \<in> A" and "z \<in> A" and "cmp x y = 0" and "cmp y z = 0"
  shows "cmp x z = 0"
proof -
  have "cmp z y = 0" and "cmp y x = 0" using assms equal_sym by blast+
  then have "cmp z x \<le> 0" using trans [of z y x] assms by simp
  then have "0 \<le> cmp x z" using antisym [of z x] assms by simp
  moreover have "cmp x z \<le> 0" using trans [of x y z] assms by simp
  ultimately show ?thesis by simp
qed

lemma sorted_insert_by:
  assumes "x \<in> A" and "set ys \<subseteq> A" and "sorted_cmp cmp ys"
  shows "sorted_cmp cmp (insert_by cmp x ys)"
  using assms
proof (induction ys)
  case Nil
  then show ?case by (simp add: sorted_cmp_def)
next
  case (Cons y ys)
  show ?case
  proof (cases "cmp x y \<le> 0")
    case True
    with Cons.prems show ?thesis
      by (auto simp: sorted_cmp_def intro: trans [of x y])
  next
    case False
    then have "cmp y x \<le> 0" using total [of x y] Cons.prems by auto
    with Cons False show ?thesis by (auto simp: sorted_cmp_def)
  qed
qed

lemma sorted_sort_by: "set xs \<subseteq> A \<Longrightarrow> sorted_cmp cmp (sort_by cmp xs)"
proof (induction xs)
  case Nil
  then show ?case by (simp add: sorted_cmp_def sort_by_def)
next
  case (Cons x xs)
  then show ?case by (simp add: sort_by_Cons sorted_insert_by)
qed

lemma insert_by_stable:
  assumes "x \<in> A" and "z \<in> A" and "set ys \<subseteq> A"
  shows "filter (\<lambda>y. cmp z y = 0) (insert_by cmp x ys) = filter (\<lambda>y. cmp z y = 0) (x # ys)"
  using assms
proof (induction ys)
  case (Cons y ys)
  have "\<not> (cmp z x = 0 \<and> cmp z y = 0)" if "\<not> cmp x y \<le> 0"
    using that equal_trans [of x z y] equal_sym [of z x] Cons.prems by auto
  with Cons show ?case by auto
qed simp

lemma stable: "z \<in> A \<Longrightarrow> set xs \<subseteq> A \<Longrightarrow>
    filter (\<lambda>y. cmp z y = 0) (sort_by cmp xs) = filter (\<lambda>y. cmp z y = 0) xs"
proof (induction xs)
  case Nil
  then show ?case by (simp add: sort_by_def)
next
  case (Cons x xs)
  then show ?case
    using insert_by_stable [of x z "sort_by cmp xs"] by (simp add: sort_by_Cons)
qed

lemma sorted_same_classes:
  assumes "set ys \<subseteq> A" and "set zs \<subseteq> A" and "sorted_cmp cmp ys" and "sorted_cmp cmp zs"
    and "\<And>x. x \<in> A \<Longrightarrow> filter (\<lambda>y. cmp x y = 0) ys = filter (\<lambda>y. cmp x y = 0) zs"
  shows "ys = zs"
  using assms
proof (induction ys arbitrary: zs)
  case Nil
  show ?case
  proof (cases zs)
    case (Cons z zs')
    then show ?thesis using Nil.prems(5) [of z] Nil.prems(2) refl by auto
  qed simp
next
  case (Cons y ys)
  have mem: "x \<in> set us" if "x \<in> set vs" "x \<in> A"
      "filter (\<lambda>y. cmp x y = 0) vs = filter (\<lambda>y. cmp x y = 0) us" for x us vs
    using that refl [of x] by (metis (mono_tags, lifting) mem_Collect_eq set_filter)
  have y: "y \<in> A" using Cons.prems(1) by simp
  then have "y \<in> set zs" using mem [of y "y # ys" zs] Cons.prems(5) by simp
  then obtain z zs' where zs: "zs = z # zs'" by (cases zs) auto
  have z: "z \<in> A" using Cons.prems(2) zs by simp
  have "z \<in> set (y # ys)" using mem [of z zs "y # ys"] Cons.prems(5) [OF z] z zs by simp
  then have "cmp y z \<le> 0" using Cons.prems(3) refl [OF y] by (auto simp: sorted_cmp_def)
  moreover have "cmp z y \<le> 0"
    using \<open>y \<in> set zs\<close> zs Cons.prems(4) refl [OF z] by (auto simp: sorted_cmp_def)
  ultimately have yz: "cmp y z = 0" using antisym [OF z y] by linarith
  have heads: "filter (\<lambda>v. cmp y v = 0) (y # ys) = y # filter (\<lambda>v. cmp y v = 0) ys"
    "filter (\<lambda>v. cmp y v = 0) zs = z # filter (\<lambda>v. cmp y v = 0) zs'"
    using refl [OF y] yz zs by simp_all
  then have eq: "y = z" using Cons.prems(5) [OF y] by simp
  have "ys = zs'"
  proof (rule Cons.IH)
    show "filter (\<lambda>y. cmp x y = 0) ys = filter (\<lambda>y. cmp x y = 0) zs'" if "x \<in> A" for x
      using Cons.prems(5) [OF that] zs eq by (simp split: if_splits)
    show "set ys \<subseteq> A" and "set zs' \<subseteq> A" using Cons.prems(1,2) zs by simp_all
    show "sorted_cmp cmp ys" and "sorted_cmp cmp zs'"
      using Cons.prems(3,4) zs by (simp_all add: sorted_cmp_def)
  qed
  with eq zs show ?case by simp
qed

lemma stable_sorted_unique:
  assumes "set xs \<subseteq> A" and "set ys \<subseteq> A" and "sorted_cmp cmp ys"
    and "\<And>x. x \<in> A \<Longrightarrow> filter (\<lambda>y. cmp x y = 0) ys = filter (\<lambda>y. cmp x y = 0) xs"
  shows "ys = sort_by cmp xs"
proof (rule sorted_same_classes)
  show "set ys \<subseteq> A" and "sorted_cmp cmp ys" by fact+
  show "set (sort_by cmp xs) \<subseteq> A" using assms(1) by simp
  show "sorted_cmp cmp (sort_by cmp xs)" by (rule sorted_sort_by [OF assms(1)])
  show "filter (\<lambda>y. cmp x y = 0) ys = filter (\<lambda>y. cmp x y = 0) (sort_by cmp xs)" if "x \<in> A" for x
    by (simp only: assms(4) [OF that] stable [OF that assms(1)])
qed

end

section \<open>Building comparators\<close>

lemma comparator_lex:
  assumes c: "comparator_on c A" and d: "comparator_on d A"
  shows "comparator_on (\<lambda>x y. if c x y \<noteq> 0 then c x y else d x y) A"
proof unfold_locales
  note eqs = comparator_on.equal_sym [OF c] comparator_on.equal_trans [OF c]
  fix x y z assume x: "x \<in> A"
  show "(if c x x \<noteq> 0 then c x x else d x x) = 0"
    using x comparator_on.refl [OF c] comparator_on.refl [OF d] by simp
  assume y: "y \<in> A"
  show "(if c x y \<noteq> 0 then c x y else d x y) \<le> 0 \<longleftrightarrow> 0 \<le> (if c y x \<noteq> 0 then c y x else d y x)"
    using comparator_on.antisym [OF c x y] comparator_on.antisym [OF c y x]
      comparator_on.antisym [OF d x y] by auto
  assume z: "z \<in> A"
    and xy: "(if c x y \<noteq> 0 then c x y else d x y) \<le> 0"
    and yz: "(if c y z \<noteq> 0 then c y z else d y z) \<le> 0"
  have "c x y \<le> 0" "c y z \<le> 0" using xy yz by (simp_all split: if_splits)
  then have xz: "c x z \<le> 0" using comparator_on.trans [OF c x y z] by simp
  show "(if c x z \<noteq> 0 then c x z else d x z) \<le> 0"
  proof (cases "c x z = 0")
    case True
    then have zx: "c z x \<le> 0" using comparator_on.antisym [OF c z x] by simp
    have "c y x \<le> 0" by (rule comparator_on.trans [OF c y z x \<open>c y z \<le> 0\<close> zx])
    then have "0 \<le> c x y" using comparator_on.antisym [OF c y x] by simp
    have "c z y \<le> 0" by (rule comparator_on.trans [OF c z x y zx \<open>c x y \<le> 0\<close>])
    then have "0 \<le> c y z" using comparator_on.antisym [OF c z y] by simp
    have "c x y = 0" "c y z = 0"
      using \<open>c x y \<le> 0\<close> \<open>0 \<le> c x y\<close> \<open>c y z \<le> 0\<close> \<open>0 \<le> c y z\<close> by linarith+
    then have "d x y \<le> 0" "d y z \<le> 0" using xy yz by simp_all
    then show ?thesis using True comparator_on.trans [OF d x y z] by simp
  qed (use xz in simp)
qed

lemma comparator_image:
  assumes c: "comparator_on c B" and f: "\<And>x. x \<in> A \<Longrightarrow> f x \<in> B"
  shows "comparator_on (\<lambda>x y. c (f x) (f y)) A"
proof unfold_locales
  fix x y z assume x: "x \<in> A"
  show "c (f x) (f x) = 0" by (rule comparator_on.refl [OF c f [OF x]])
  assume y: "y \<in> A"
  show "c (f x) (f y) \<le> 0 \<longleftrightarrow> 0 \<le> c (f y) (f x)"
    by (rule comparator_on.antisym [OF c f [OF x] f [OF y]])
  assume z: "z \<in> A" and "c (f x) (f y) \<le> 0" and "c (f y) (f z) \<le> 0"
  then show "c (f x) (f z) \<le> 0" by (intro comparator_on.trans [OF c f [OF x] f [OF y] f [OF z]])
qed

lemma comparator_neg:
  assumes c: "comparator_on c A"
  shows "comparator_on (\<lambda>x y. - c x y) A"
proof unfold_locales
  fix x y z
  show "x \<in> A \<Longrightarrow> - c x x = 0" using comparator_on.refl [OF c] by simp
  assume x: "x \<in> A" and y: "y \<in> A"
  show "- c x y \<le> 0 \<longleftrightarrow> 0 \<le> - c y x"
    using comparator_on.antisym [OF c y x] by simp
  assume z: "z \<in> A" and "- c x y \<le> 0" and "- c y z \<le> 0"
  then have "c y x \<le> 0" "c z y \<le> 0"
    using comparator_on.antisym [OF c y x] comparator_on.antisym [OF c z y] by simp_all
  then have "c z x \<le> 0" using comparator_on.trans [OF c z y x] by simp
  then show "- c x z \<le> 0" using comparator_on.antisym [OF c z x] by simp
qed

section \<open>Collation\<close>

locale collation = comparator_on collate UNIV for collate :: "string \<Rightarrow> string \<Rightarrow> int"

fun compare_weights :: "nat list \<Rightarrow> nat list \<Rightarrow> int" where
  "compare_weights [] [] = 0"
| "compare_weights [] (_ # _) = - 1"
| "compare_weights (_ # _) [] = 1"
| "compare_weights (a # as) (b # bs) =
     (if a < b then - 1 else if b < a then 1 else compare_weights as bs)"

text \<open>
  The primary order of ASCII in the CLDR root collation: white space, punctuation, symbols,
  digits, letters; base sensitivity ignores case. Bytes of other characters come last.
\<close>

definition ascii_order :: string where
  \<open>ascii_order = [CHR 0x09, CHR 0x0A] @ '' _-,;:!?.'' @ [CHR 0x27, CHR 0x22]
     @ ''()[]{}@*/'' @ [CHR 0x5C] @ ''&#%`^+<=>|~$0123456789abcdefghijklmnopqrstuvwxyz''\<close>

definition weight :: "char \<Rightarrow> nat" where
  "weight c = (let l = length (takeWhile (\<lambda>d. d \<noteq> lower_char c) ascii_order)
     in if l < length ascii_order then l else l + of_char c)"

definition ascii_collate :: "string \<Rightarrow> string \<Rightarrow> int" where
  "ascii_collate s t = compare_weights (map weight s) (map weight t)"

lemma compare_weights_refl [simp]: "compare_weights as as = 0"
  by (induction as) auto

lemma compare_weights_flip: "compare_weights bs as = - compare_weights as bs"
  by (induction as bs rule: compare_weights.induct) auto

lemma compare_weights_Nil: "compare_weights as [] \<le> 0 \<longleftrightarrow> as = []"
  by (cases as) auto

lemma compare_weights_trans:
  "compare_weights as bs \<le> 0 \<Longrightarrow> compare_weights bs cs \<le> 0 \<Longrightarrow> compare_weights as cs \<le> 0"
proof (induction as arbitrary: bs cs)
  case Nil
  then show ?case by (cases cs) auto
next
  case (Cons a as)
  then obtain b bs' where bs: "bs = b # bs'" by (cases bs) auto
  with Cons.prems obtain c cs' where "cs = c # cs'" by (cases cs) auto
  with Cons bs show ?case by (auto split: if_splits)
qed

interpretation ascii: collation ascii_collate
proof unfold_locales
  fix x y z
  show "ascii_collate x x = 0" by (simp add: ascii_collate_def)
  show "ascii_collate x y \<le> 0 \<longleftrightarrow> 0 \<le> ascii_collate y x"
    unfolding ascii_collate_def by (subst compare_weights_flip) simp
  show "ascii_collate x y \<le> 0 \<Longrightarrow> ascii_collate y z \<le> 0 \<Longrightarrow> ascii_collate x z \<le> 0"
    unfolding ascii_collate_def by (rule compare_weights_trans)
qed

end
