(* ===== verification/Tables.thy ===== *)
theory Tables
  imports Quota Stable_Sort
begin

text \<open>
  The tables (\<open>web/app.js\<close>, lines 26, 65 to 96 and 583 to 590): the sort specification of
  each sortable table, the header cells, the table template, the row comparator and the
  view of a sortable table, and the click that changes the sort. \<open>sortableTable\<close> returns
  what it assigns: the sort specifications, the closure it stores in \<open>tableViews\<close> (a
  function of the state it reads when it is called) and the markup.
\<close>

section \<open>Conversions the comparison of two keys performs\<close>

definition trim_text :: "string \<Rightarrow> string" where
  "trim_text s = (let ws = (\<lambda>c. c \<in> set [CHR 0x09, CHR 0x0A, CHR 0x0B, CHR 0x0C, CHR 0x0D, CHR '' ''])
     in rev (dropWhile ws (rev (dropWhile ws s))))"

text \<open>A decimal literal without sign: digits, a fraction and an exponent.\<close>

definition read_decimal :: "string \<Rightarrow> rat option" where
  "read_decimal s =
     (let ip = takeWhile is_digit s; r = dropWhile is_digit s;
          point = (r \<noteq> [] \<and> hd r = CHR ''.'');
          fp = (if point then takeWhile is_digit (tl r) else []);
          r' = (if point then dropWhile is_digit (tl r) else r);
          mant = of_nat (read_nat (ip @ fp)) / 10 ^ length fp
      in if ip = [] \<and> fp = [] then None
         else if r' = [] then Some mant
         else if hd r' = CHR ''e'' \<or> hd r' = CHR ''E'' then
           (let e = tl r'; neg = (e \<noteq> [] \<and> hd e = CHR ''-'');
                ds = (if e \<noteq> [] \<and> (hd e = CHR ''-'' \<or> hd e = CHR ''+'') then tl e else e)
            in if ds \<noteq> [] \<and> list_all is_digit ds
               then Some (mant * 10 powi (if neg then - int (read_nat ds) else int (read_nat ds)))
               else None)
         else None)"

definition radix_digit :: "char \<Rightarrow> nat" where
  "radix_digit c = (let n = of_char (lower_char c) :: nat
     in if 48 \<le> n \<and> n \<le> 57 then n - 48 else if 97 \<le> n \<and> n \<le> 122 then n - 87 else 36)"

definition read_radix :: "nat \<Rightarrow> string \<Rightarrow> rat option" where
  "read_radix b s = (if s \<noteq> [] \<and> list_all (\<lambda>c. radix_digit c < b) s
     then Some (of_nat (fold (\<lambda>c acc. b * acc + radix_digit c) s 0)) else None)"

definition string_to_number :: "string \<Rightarrow> jsnum" where
  "string_to_number s =
     (let t = trim_text s; pre = take 2 (to_lower t);
          neg = (t \<noteq> [] \<and> hd t = CHR ''-'');
          body = (if t \<noteq> [] \<and> (hd t = CHR ''-'' \<or> hd t = CHR ''+'') then tl t else t);
          value = (\<lambda>r. case r of None \<Rightarrow> NaN | Some q \<Rightarrow> num_of False q)
      in if t = [] then 0
         else if pre = ''0x'' then value (read_radix 16 (drop 2 t))
         else if pre = ''0o'' then value (read_radix 8 (drop 2 t))
         else if pre = ''0b'' then value (read_radix 2 (drop 2 t))
         else if body = ''Infinity'' then signed_inf neg
         else case read_decimal body of None \<Rightarrow> NaN
           | Some q \<Rightarrow> num_of neg (if neg then - q else q))"

definition to_number :: "jsval \<Rightarrow> jsnum" where
  "to_number v = (case v of Undef \<Rightarrow> NaN | Null \<Rightarrow> 0 | Bool b \<Rightarrow> (if b then 1 else 0)
     | Num x \<Rightarrow> x | Str s \<Rightarrow> string_to_number s)"

definition strict_eq :: "jsval \<Rightarrow> jsval \<Rightarrow> bool" where
  "strict_eq v w = (case (v, w) of (Num x, Num y) \<Rightarrow> num_eq x y | _ \<Rightarrow> v = w)"

section \<open>Sort specifications\<close>

record sort_spec =
  column :: nat
  direction :: int

type_synonym sorts = "string \<Rightarrow> sort_spec"

definition initial_sorts :: sorts where
  "initial_sorts tid = (if tid = ''accounts'' then \<lparr>column = 3, direction = - 1\<rparr>
     else if tid = ''models'' then \<lparr>column = 6, direction = - 1\<rparr>
     else \<lparr>column = 0, direction = 1\<rparr>)"

definition click_sort :: "string \<Rightarrow> nat \<Rightarrow> sorts \<Rightarrow> sorts" where
  "click_sort tid col sorts =
     (let srt = sorts tid
      in sorts(tid := \<lparr>column = col,
           direction = (if column srt = col then - direction srt else 1)\<rparr>))"

section \<open>Markup of a table\<close>

definition sort_arrow :: "bool \<Rightarrow> bool \<Rightarrow> bool \<Rightarrow> string" where
  "sort_arrow disabled active ascending = (if disabled then []
     else if active then (if ascending then arrow_up else arrow_down) else arrow_both)"

definition aria_sort :: "bool \<Rightarrow> bool \<Rightarrow> string" where
  "aria_sort active ascending =
     (if active then (if ascending then ''ascending'' else ''descending'') else ''none'')"

definition sort_button :: "string \<Rightarrow> string \<Rightarrow> nat \<Rightarrow> bool \<Rightarrow> string \<Rightarrow> string" where
  \<open>sort_button tid label index disabled arrow =
     ''<button type="button" class="sort" data-sort="'' @ tid @ ''" data-column="''
     @ digits index @ ''"''
     @ (if disabled then '' disabled title="Cost sorting requires a single currency"'' else [])
     @ ''>'' @ escapeHTML (Str label) @ '' <span aria-hidden="true">'' @ arrow @ ''</span></button>''\<close>

definition headerCell ::
  "string \<Rightarrow> nat \<Rightarrow> (string \<times> sort_spec) option \<Rightarrow> bool \<Rightarrow> string \<Rightarrow> string \<Rightarrow> string" where
  \<open>headerCell label index srt disabledCost className attributes =
     (let disabled = (label = ''Cost'' \<and> disabledCost);
          active = (case srt of None \<Rightarrow> False | Some (_, sp) \<Rightarrow> \<not> disabled \<and> column sp = index);
          ascending = (case srt of None \<Rightarrow> False | Some (_, sp) \<Rightarrow> direction sp = 1);
          content = (case srt of None \<Rightarrow> escapeHTML (Str label)
            | Some (tid, _) \<Rightarrow>
                sort_button tid label index disabled (sort_arrow disabled active ascending))
      in ''<th scope="col"'' @ attributes
         @ (case srt of None \<Rightarrow> []
            | Some _ \<Rightarrow> '' aria-sort="'' @ aria_sort active ascending @ ''"'')
         @ (if className \<noteq> [] then '' class="'' @ className @ ''"'' else [])
         @ ''>'' @ content @ ''</th>'')\<close>

definition text_headers :: "string list" where
  "text_headers = [''Model'', ''Plan'', ''Endpoint'', ''Outcome'', ''Target'', ''Operation'', ''Error'']"

definition outcome_title :: string where
  \<open>outcome_title = '' title="HTTP/body completion. Completed does not certify model success."''\<close>

definition table ::
  "string \<Rightarrow> string list \<Rightarrow> string list \<Rightarrow> (string \<times> sort_spec) option \<Rightarrow> bool \<Rightarrow> string" where
  \<open>table label headers rows srt disabledCost =
     (let cells = concat (map (\<lambda>(index, header).
            headerCell header index srt disabledCost
              (if index \<noteq> 0 \<and> header \<notin> set text_headers then ''number'' else [])
              (if header = ''Outcome'' then outcome_title else [])) (enumerate 0 headers))
      in ''<div class="table-scroll"''
         @ (case srt of None \<Rightarrow> [] | Some (tid, _) \<Rightarrow> '' data-table="'' @ tid @ ''"'')
         @ '' tabindex="0" role="region" aria-label="'' @ escapeHTML (Str (label @ '' table''))
         @ ''"><table><caption class="sr-only">'' @ escapeHTML (Str label)
         @ ''</caption><thead><tr>'' @ cells @ ''</tr></thead><tbody>'' @ concat rows
         @ ''</tbody></table></div>'')\<close>

section \<open>The order of the rows\<close>

definition missing :: "jsval \<Rightarrow> bool" where
  "missing v \<longleftrightarrow> v = Undef \<or> v = Null \<or> v = Num NaN"

definition compare :: "(string \<Rightarrow> string \<Rightarrow> int) \<Rightarrow> jsval \<Rightarrow> jsval \<Rightarrow> int" where
  "compare collate a b = (case a of Str s \<Rightarrow> collate s (to_string b)
     | _ \<Rightarrow> if strict_eq a b then 0 else if to_number a < to_number b then - 1 else 1)"

text \<open>
  \<open>getters[column]\<close>; the column is always in range (\<open>sorts_ok\<close>, part of the invariant of
  the page), a column out of range reads as undefined.
\<close>

definition getter :: "('a \<Rightarrow> jsval) list \<Rightarrow> nat \<Rightarrow> 'a \<Rightarrow> jsval" where
  "getter getters i = (if i < length getters then getters ! i else (\<lambda>_. Undef))"

definition row_compare ::
  "(string \<Rightarrow> string \<Rightarrow> int) \<Rightarrow> ('a \<Rightarrow> jsval) list \<Rightarrow> sort_spec \<Rightarrow> 'a \<Rightarrow> 'a \<Rightarrow> int" where
  "row_compare collate getters srt a b =
     (let av = getter getters (column srt) a; bv = getter getters (column srt) b;
          first = (if missing av \<or> missing bv then of_bool (missing av) - of_bool (missing bv)
                   else compare collate av bv * direction srt)
      in if first \<noteq> 0 then first
         else compare collate (getter getters 0 a) (getter getters 0 b))"

definition sorted_rows ::
  "(string \<Rightarrow> string \<Rightarrow> int) \<Rightarrow> ('a \<Rightarrow> jsval) list \<Rightarrow> sort_spec \<Rightarrow> 'a list \<Rightarrow> 'a list" where
  "sorted_rows collate getters srt items = sort_by (row_compare collate getters srt) items"

section \<open>Sortable tables\<close>

definition row_currencies :: "('a \<Rightarrow> cost list option) \<Rightarrow> 'a list \<Rightarrow> string list" where
  "row_currencies costs_of items =
     remdups (concat (map (\<lambda>item. map currency (case costs_of item of None \<Rightarrow> [] | Some cs \<Rightarrow> cs)) items))"

definition reset_cost_sort :: "string \<Rightarrow> nat \<Rightarrow> bool \<Rightarrow> sorts \<Rightarrow> sorts" where
  "reset_cost_sort tid width disabledCost sorts =
     (if disabledCost \<and> column (sorts tid) = width - 1
      then sorts(tid := \<lparr>column = 0, direction = 1\<rparr>) else sorts)"

definition table_view ::
  "(string \<Rightarrow> string \<Rightarrow> int) \<Rightarrow> string \<Rightarrow> string \<Rightarrow> string list \<Rightarrow> 'a list \<Rightarrow> ('a \<Rightarrow> jsval) list
     \<Rightarrow> ('a \<Rightarrow> string) \<Rightarrow> bool \<Rightarrow> sorts \<Rightarrow> string" where
  "table_view collate tid label headers items getters renderRow disabledCost sorts =
     table label headers (map renderRow (sorted_rows collate getters (sorts tid) items))
       (Some (tid, sorts tid)) disabledCost"

definition sortableTable ::
  "(string \<Rightarrow> string \<Rightarrow> int) \<Rightarrow> string \<Rightarrow> string \<Rightarrow> string list \<Rightarrow> 'a list \<Rightarrow> ('a \<Rightarrow> jsval) list
     \<Rightarrow> ('a \<Rightarrow> string) \<Rightarrow> ('a \<Rightarrow> cost list option) \<Rightarrow> sorts \<Rightarrow> sorts \<times> (sorts \<Rightarrow> string) \<times> string" where
  "sortableTable collate tid label headers items getters renderRow costs_of sorts =
     (let disabledCost = (length (row_currencies costs_of items) \<noteq> 1);
          sorts' = reset_cost_sort tid (length headers) disabledCost sorts;
          view = table_view collate tid label headers items getters renderRow disabledCost
      in (sorts', view, view sorts'))"

section \<open>Comparing keys\<close>

definition num_rank :: "jsnum \<Rightarrow> int" where
  "num_rank x = (case x of NegInf \<Rightarrow> - 1 | PosInf \<Rightarrow> 1 | _ \<Rightarrow> 0)"

lemma num_order:
  assumes "x \<noteq> NaN" and "y \<noteq> NaN"
  shows "x < y \<longleftrightarrow> num_rank x < num_rank y \<or> num_rank x = num_rank y \<and> fin_val x < fin_val y"
    and "num_eq x y \<longleftrightarrow> num_rank x = num_rank y \<and> fin_val x = fin_val y"
  using assms by (cases x; cases y; auto simp: less_jsnum_def num_eq_def num_rank_def fin_val_def)+

lemma compare_numbers:
  "compare collate (Num x) (Num y) = (if num_eq x y then 0 else if x < y then - 1 else 1)"
  by (simp add: compare_def strict_eq_def to_number_def)

lemma compare_strings: "compare collate (Str s) (Str t) = collate s t"
  by (simp add: compare_def to_string_def)

lemma number_comparator: "comparator_on (compare collate) {Num x | x. x \<noteq> NaN}"
proof unfold_locales
  fix a b c
  assume "a \<in> {Num x | x. x \<noteq> NaN}"
  then obtain x where a: "a = Num x" "x \<noteq> NaN" by auto
  then show "compare collate a a = 0" by (simp add: compare_numbers num_order)
  assume "b \<in> {Num x | x. x \<noteq> NaN}"
  then obtain y where b: "b = Num y" "y \<noteq> NaN" by auto
  from a b show "compare collate a b \<le> 0 \<longleftrightarrow> 0 \<le> compare collate b a"
    by (auto simp: compare_numbers num_order)
  assume "c \<in> {Num x | x. x \<noteq> NaN}"
  then obtain z where c: "c = Num z" "z \<noteq> NaN" by auto
  assume "compare collate a b \<le> 0" and "compare collate b c \<le> 0"
  with a b c show "compare collate a c \<le> 0"
    by (auto simp: compare_numbers num_order split: if_splits)
qed

text \<open>Missing keys after all others, whatever the direction of the sort.\<close>

definition missing_last :: "(jsval \<Rightarrow> jsval \<Rightarrow> int) \<Rightarrow> jsval \<Rightarrow> jsval \<Rightarrow> int" where
  "missing_last c a b = (if missing a \<or> missing b then of_bool (missing a) - of_bool (missing b)
     else c a b)"

lemma missing_last_comparator:
  assumes c: "comparator_on c K"
  shows "comparator_on (missing_last c) (K \<union> {v. missing v})"
proof unfold_locales
  fix x y z assume x: "x \<in> K \<union> {v. missing v}"
  show "missing_last c x x = 0" using x comparator_on.refl [OF c] by (auto simp: missing_last_def)
  assume y: "y \<in> K \<union> {v. missing v}"
  show "missing_last c x y \<le> 0 \<longleftrightarrow> 0 \<le> missing_last c y x"
    using x y comparator_on.antisym [OF c, of x y] by (auto simp: missing_last_def)
  assume z: "z \<in> K \<union> {v. missing v}"
    and "missing_last c x y \<le> 0" and "missing_last c y z \<le> 0"
  then show "missing_last c x z \<le> 0"
    using x y z comparator_on.trans [OF c, of x y z]
    by (cases "missing x"; cases "missing y"; cases "missing z") (auto simp: missing_last_def)
qed

text \<open>
  The shape of the keys of the page's tables: the sort column holds numbers or strings
  (or is missing), the first column holds strings.
\<close>

definition uniform_keys :: "jsval list \<Rightarrow> bool" where
  "uniform_keys vs \<longleftrightarrow>
     list_all (\<lambda>v. missing v \<or> (case v of Num _ \<Rightarrow> True | _ \<Rightarrow> False)) vs
     \<or> list_all (\<lambda>v. missing v \<or> (case v of Str _ \<Rightarrow> True | _ \<Rightarrow> False)) vs"

definition well_keyed :: "('a \<Rightarrow> jsval) list \<Rightarrow> sort_spec \<Rightarrow> 'a list \<Rightarrow> bool" where
  "well_keyed getters srt items \<longleftrightarrow>
     (direction srt = 1 \<or> direction srt = - 1)
     \<and> uniform_keys (map (getter getters (column srt)) items)
     \<and> list_all (\<lambda>x. case getter getters 0 x of Str _ \<Rightarrow> True | _ \<Rightarrow> False) items"

lemma row_compare_lex:
  "row_compare collate getters srt a b =
     (let first = missing_last (\<lambda>v w. compare collate v w * direction srt)
            (getter getters (column srt) a) (getter getters (column srt) b)
      in if first \<noteq> 0 then first
         else compare collate (getter getters 0 a) (getter getters 0 b))"
  by (simp add: row_compare_def missing_last_def Let_def)

context collation
begin

lemma string_comparator: "comparator_on (compare collate) (range Str)"
proof unfold_locales
  fix a b c
  assume "a \<in> range Str"
  then obtain s where a: "a = Str s" by auto
  then show "compare collate a a = 0" by (simp add: compare_strings refl)
  assume "b \<in> range Str"
  then obtain t where b: "b = Str t" by auto
  from a b show "compare collate a b \<le> 0 \<longleftrightarrow> 0 \<le> compare collate b a"
    using antisym [of s t] by (simp add: compare_strings)
  assume "c \<in> range Str"
  then obtain u where c: "c = Str u" by auto
  assume "compare collate a b \<le> 0" and "compare collate b c \<le> 0"
  with a b c show "compare collate a c \<le> 0"
    using trans [of s t u] by (simp add: compare_strings)
qed

lemma key_comparator:
  assumes "uniform_keys vs"
  obtains K where "comparator_on (compare collate) K" and "set vs \<subseteq> K \<union> {v. missing v}"
proof -
  have "set vs \<subseteq> {Num x | x. x \<noteq> NaN} \<union> {v. missing v}"
    if "list_all (\<lambda>v. missing v \<or> (case v of Num _ \<Rightarrow> True | _ \<Rightarrow> False)) vs"
  proof
    fix v assume "v \<in> set vs"
    with that show "v \<in> {Num x | x. x \<noteq> NaN} \<union> {v. missing v}"
      by (cases v) (auto simp: list_all_iff missing_def)
  qed
  moreover have "set vs \<subseteq> range Str \<union> {v. missing v}"
    if "list_all (\<lambda>v. missing v \<or> (case v of Str _ \<Rightarrow> True | _ \<Rightarrow> False)) vs"
  proof
    fix v assume "v \<in> set vs"
    with that show "v \<in> range Str \<union> {v. missing v}"
      by (cases v) (auto simp: list_all_iff)
  qed
  ultimately consider
      "set vs \<subseteq> {Num x | x. x \<noteq> NaN} \<union> {v. missing v}" | "set vs \<subseteq> range Str \<union> {v. missing v}"
    using assms unfolding uniform_keys_def by blast
  then show thesis using that number_comparator string_comparator by cases blast+
qed

lemma row_comparator:
  assumes "well_keyed getters srt items"
  shows "comparator_on (row_compare collate getters srt) (set items)"
proof -
  let ?key = "getter getters (column srt)" and ?label = "getter getters 0"
  obtain K where K: "comparator_on (compare collate) K"
      and keys: "set (map ?key items) \<subseteq> K \<union> {v. missing v}"
    using assms unfolding well_keyed_def by (elim conjE) (rule key_comparator)
  have "comparator_on (\<lambda>v w. compare collate v w * direction srt) K"
    using assms K comparator_neg [OF K] by (auto simp: well_keyed_def)
  then have first: "comparator_on (\<lambda>x y. missing_last (\<lambda>v w. compare collate v w * direction srt)
      (?key x) (?key y)) (set items)"
    by (rule comparator_image [OF missing_last_comparator]) (use keys in auto)
  have "?label x \<in> range Str" if "x \<in> set items" for x
    using assms that by (cases "?label x") (auto simp: well_keyed_def list_all_iff)
  then have "comparator_on (\<lambda>x y. compare collate (?label x) (?label y)) (set items)"
    by (rule comparator_image [OF string_comparator])
  from comparator_lex [OF first this] show ?thesis
    by (simp only: row_compare_lex [abs_def] Let_def)
qed

lemma rows_sorted:
  "well_keyed getters srt items \<Longrightarrow>
     sorted_cmp (row_compare collate getters srt) (sorted_rows collate getters srt items)"
  unfolding sorted_rows_def by (rule comparator_on.sorted_sort_by [OF row_comparator subset_refl])

lemma rows_stable:
  "well_keyed getters srt items \<Longrightarrow> x \<in> set items \<Longrightarrow>
     filter (\<lambda>y. row_compare collate getters srt x y = 0) (sorted_rows collate getters srt items)
     = filter (\<lambda>y. row_compare collate getters srt x y = 0) items"
  unfolding sorted_rows_def by (rule comparator_on.stable [OF row_comparator _ subset_refl])

end

lemma sorted_cmp_nth:
  "sorted_cmp c xs \<Longrightarrow> i < j \<Longrightarrow> j < length xs \<Longrightarrow> c (xs ! i) (xs ! j) \<le> 0"
  unfolding sorted_cmp_def by (erule sorted_wrt_nth_less)

lemma set_sorted_rows [simp]: "set (sorted_rows collate getters srt items) = set items"
  by (simp add: sorted_rows_def)

lemma row_compare_missing:
  "row_compare collate getters srt a b \<le> 0 \<Longrightarrow> missing (getter getters (column srt) a) \<Longrightarrow>
     missing (getter getters (column srt) b)"
  by (auto simp: row_compare_def Let_def split: if_splits)

section \<open>Markup\<close>

interpretation dig: inert_text digits
  by (rule inert_textI) (rule digits_number_chars)

lemmas [simp] = dig.in_attribute

lemma arrows_html [simp]: "html arrow_up" "html arrow_down" "html arrow_both"
  by code_simp+

lemma sort_arrow_html [simp]: "html (sort_arrow d a u)"
  by (simp add: sort_arrow_def)

lemma aria_sort_quoted [simp]:
  "walk (Some (Quoted (CHR 0x22) n as)) (aria_sort a u) = Some (Quoted (CHR 0x22) n as)"
  unfolding aria_sort_def by (simp add: walk_simps cong: walk_cong)

lemma sort_button_html:
  assumes "CHR 0x22 \<notin> set tid" and "html arrow"
  shows "html (sort_button tid label index disabled arrow)"
  unfolding html_def sort_button_def
  using assms by (simp add: walk_simps walk_quoted_text cong: walk_cong)

lemma headerCell_html:
  assumes "case srt of None \<Rightarrow> True | Some (tid, _) \<Rightarrow> CHR 0x22 \<notin> set tid"
    and "className = [] \<or> className = ''number''" and "attributes = [] \<or> attributes = outcome_title"
  shows "html (headerCell label index srt disabledCost className attributes)"
proof -
  have "html (sort_button tid label index d (sort_arrow d a u))"
    if "srt = Some (tid, sp)" for tid sp d a u
    using that assms(1) by (simp add: sort_button_html)
  then show ?thesis
    using assms(2,3) unfolding html_def headerCell_def outcome_title_def
    by (cases srt) (auto simp: walk_simps cong: walk_cong)
qed

lemma table_html:
  assumes "case srt of None \<Rightarrow> True | Some (tid, _) \<Rightarrow> CHR 0x22 \<notin> set tid"
    and "\<And>r. r \<in> set rows \<Longrightarrow> html r"
  shows "html (table label headers rows srt disabledCost)"
proof -
  let ?cells = "concat (map (\<lambda>(index, header).
            headerCell header index srt disabledCost
              (if index \<noteq> 0 \<and> header \<notin> set text_headers then ''number'' else [])
              (if header = ''Outcome'' then outcome_title else [])) (enumerate 0 headers))"
  have "html ?cells"
    by (rule html_concat_map, clarify, rule headerCell_html [OF assms(1)]) simp_all
  moreover have "html (concat rows)" by (rule html_concat) (rule assms(2))
  ultimately show ?thesis
    unfolding html_def table_def using assms(1)
    by (cases srt) (auto simp: walk_simps walk_quoted_text cong: walk_cong)
qed

lemma table_view_html:
  assumes "CHR 0x22 \<notin> set tid" and "\<And>x. x \<in> set items \<Longrightarrow> html (renderRow x)"
  shows "html (table_view collate tid label headers items getters renderRow disabledCost sorts)"
  unfolding table_view_def by (rule table_html) (use assms in auto)

end
