(* ===== verification/Chart.thy ===== *)
theory Chart
  imports Tables
begin

text \<open>
  The daily usage chart (\<open>web/app.js\<close>, lines 193 to 308): the tooltip text, the date under
  a pointer position, the geometry of the polyline, the placement of the tooltip, the
  interaction state of the plot as a machine over pointer, focus and keyboard events, and
  the markup of the chart. Coordinates are binary64 numbers, as in the code.
\<close>

record day =
  date :: string
  recorded :: jsval
  totals_of_day :: "totals option"

definition day_costs :: "totals option \<Rightarrow> cost list option" where
  "day_costs t = (case t of None \<Rightarrow> None | Some x \<Rightarrow> costs x)"

definition trendTooltip :: "day \<Rightarrow> string" where
  \<open>trendTooltip d =
     (if recorded d = Bool False then
        ''<strong>'' @ escapeHTML (Str (date d))
        @ ''</strong><span class="chart-tooltip-empty">No recorded usage</span>''
      else
        ''<strong>'' @ escapeHTML (Str (date d)) @ ''</strong><dl><div><dt>Total tokens</dt><dd>''
        @ tokens (field total_tokens (totals_of_day d))
        @ ''</dd></div><div><dt>Requests</dt><dd>''
        @ number (field request_count (totals_of_day d))
        @ ''</dd></div><div><dt>Cost</dt><dd>'' @ money (day_costs (totals_of_day d))
        @ ''</dd></div></dl>'')\<close>

section \<open>The date under a position\<close>

definition trendIndexAt :: "jsnum \<Rightarrow> jsnum \<Rightarrow> jsnum \<Rightarrow> nat \<Rightarrow> jsnum" where
  "trendIndexAt position start stop n =
     (if n \<le> 1 \<or> stop \<le> start then 0
      else math_round ((math_min stop (math_max start position) - start) / (stop - start)
             * (num_of_nat n - 1)))"

section \<open>Geometry\<close>

record geometry =
  g_width :: jsnum
  g_count :: nat
  g_values :: "jsnum list"
  g_max :: jsnum

abbreviation (input) g_height :: jsnum where "g_height \<equiv> Fin 200"
abbreviation (input) g_left :: jsnum where "g_left \<equiv> Fin 50"
abbreviation (input) g_right :: jsnum where "g_right \<equiv> Fin 12"
abbreviation (input) g_top :: jsnum where "g_top \<equiv> Fin 12"
abbreviation (input) g_bottom :: jsnum where "g_bottom \<equiv> Fin 32"

definition day_value :: "day \<Rightarrow> jsnum" where
  "day_value d = (if numeric (field total_tokens (totals_of_day d))
     then the_num (field total_tokens (totals_of_day d)) else 0)"

definition chart_geometry :: "jsnum \<Rightarrow> day list \<Rightarrow> geometry" where
  "chart_geometry clientWidth days =
     (let values = map day_value days
      in \<lparr>g_width = math_max (Fin 280) (clientWidth - Fin 32), g_count = length days,
          g_values = values, g_max = fold (\<lambda>v m. math_max m v) values (Fin 1)\<rparr>)"

definition chart_x :: "geometry \<Rightarrow> nat \<Rightarrow> jsnum" where
  "chart_x g i = (if g_count g = 1 then (g_width g + g_left - g_right) / Fin 2
     else g_left + num_of_nat i * (g_width g - g_left - g_right) / (num_of_nat (g_count g) - 1))"

definition chart_y :: "geometry \<Rightarrow> jsnum \<Rightarrow> jsnum" where
  "chart_y g v = g_height - g_bottom - v / g_max g * (g_height - g_top - g_bottom)"

section \<open>The date under a position: bounds\<close>

lemma rnd64_nat [simp]: "n \<le> 2 ^ 53 \<Longrightarrow> rnd64 (of_nat n) = of_nat n"
  using rnd64_int [of "int n"] by (simp del: rnd64_int)

lemma rnd64_nat_pred [simp]: "0 < n \<Longrightarrow> n \<le> 2 ^ 53 \<Longrightarrow> rnd64 (of_nat n - 1) = of_nat n - 1"
  using rnd64_nat [of "n - 1"] by (simp add: of_nat_diff del: rnd64_nat)

lemma range_pred_nat:
  assumes "0 < n" and "n \<le> 2 ^ 53"
  shows "in_range (num_of_nat n - 1) (of_nat (n - 1)) (of_nat (n - 1))"
proof -
  have "(of_nat n :: rat) - 1 = of_nat (n - 1)" using assms(1) by (simp add: of_nat_diff)
  moreover have "\<bar>of_nat (n - 1) :: rat\<bar> \<le> 2 ^ 53"
    using assms(2) of_nat_le_iff [of "n - 1" "2 ^ 53", where ?'a = rat] by simp
  moreover have "in_range (num_of_nat n) (of_nat n) (of_nat n)" "in_range 1 1 1"
    by (simp_all add: in_range_def)
  ultimately show ?thesis
    using range_minus(1) [of "num_of_nat n" "of_nat n" "of_nat n" 1 1 1] assms
    by (simp add: rnd64_nat)
qed

lemma round_in_range:
  assumes "in_range x 0 (of_nat k)"
  shows "is_finite (math_round x)" and "\<exists>i \<le> k. fin_val (math_round x) = of_nat i"
proof -
  let ?j = "\<lfloor>fin_val x + 1/2\<rfloor>"
  have j: "0 \<le> ?j" "?j \<le> int k" using assms unfolding in_range_def by (auto simp: floor_le_iff)
  note r = math_round_finite [of x]
  show "is_finite (math_round x)" using assms r(1) by (simp add: in_range_def)
  have "fin_val (math_round x) = of_nat (nat ?j)" using assms r(2) j(1) by (simp add: in_range_def)
  moreover have "nat ?j \<le> k" using j by linarith
  ultimately show "\<exists>i \<le> k. fin_val (math_round x) = of_nat i" by blast
qed

definition coordinate :: "jsnum \<Rightarrow> bool" where
  "coordinate x \<longleftrightarrow> is_double x \<and> is_finite x \<and> \<bar>fin_val x\<bar> \<le> 2 ^ 52"

lemma coordinate_diff:
  assumes "coordinate x" and "coordinate y"
  shows "is_finite (y - x)" and "fin_val (y - x) = rnd64 (fin_val y - fin_val x)"
proof -
  have "\<bar>fin_val y - fin_val x\<bar> \<le> of_int (2 ^ 53)"
    using assms by (simp add: coordinate_def abs_le_iff)
  from minus_bounded [OF _ _ this order_refl]
  show "is_finite (y - x)" and "fin_val (y - x) = rnd64 (fin_val y - fin_val x)"
    using assms by (simp_all add: coordinate_def)
qed

lemma clamped_share:
  assumes start: "coordinate start" and stop: "coordinate stop" and less: "start < stop"
    and "position \<noteq> NaN"
  defines "c \<equiv> math_min stop (math_max start position)"
  shows "in_range ((c - start) / (stop - start)) 0 1"
proof -
  let ?a = "fin_val start" and ?b = "fin_val stop" and ?d = "rnd64 (fin_val stop - fin_val start)"
  have ab: "?a < ?b" using assms by (simp add: coordinate_def)
  have c: "is_finite c" "?a \<le> fin_val c" "fin_val c \<le> ?b"
    using math_clamp [of position start stop] ab assms by (simp_all add: coordinate_def c_def)
  have d: "0 < ?d" using rnd64_diff_pos double_rnd start stop ab by (simp add: coordinate_def)
  have "in_range (stop - start) ?d ?d"
    using coordinate_diff [OF start stop] by (simp add: in_range_def)
  moreover have "in_range (c - start) 0 ?d"
  proof -
    have "\<bar>fin_val c - ?a\<bar> \<le> of_int (2 ^ 53)"
      using c start stop by (simp add: coordinate_def abs_le_iff)
    from minus_bounded [OF c(1) _ this order_refl]
    have "is_finite (c - start)" "fin_val (c - start) = rnd64 (fin_val c - ?a)"
      using start by (simp_all add: coordinate_def)
    then show ?thesis using c b64.nonneg rnd64_mono by (simp add: in_range_def)
  qed
  ultimately show ?thesis using d by (intro range_share(1))
qed

lemma index_of_share:
  assumes "in_range r 0 1" and "0 < n" and "n \<le> 2 ^ 52"
  shows "is_finite (math_round (r * (num_of_nat n - 1)))"
    and "\<exists>i < n. fin_val (math_round (r * (num_of_nat n - 1))) = of_nat i"
proof -
  have n: "n \<le> 2 ^ 53" using assms(3) by simp
  have "(of_nat (n - 1) :: rat) \<le> 2 ^ 53"
    using n of_nat_le_iff [of "n - 1" "2 ^ 53", where ?'a = rat] by simp
  then have "in_range (r * (num_of_nat n - 1)) 0 (of_nat (n - 1))"
    using assms n by (intro range_scale(1) range_pred_nat) simp_all
  note r = round_in_range [OF this]
  show "is_finite (math_round (r * (num_of_nat n - 1)))" by (rule r)
  show "\<exists>i < n. fin_val (math_round (r * (num_of_nat n - 1))) = of_nat i"
    using r(2) assms(2) by fastforce
qed

lemma trendIndexAt_bounds:
  assumes "coordinate start" and "coordinate stop" and "position \<noteq> NaN"
    and "0 < n" and "n \<le> 2 ^ 52"
  shows "is_finite (trendIndexAt position start stop n)"
    and "\<exists>i < n. fin_val (trendIndexAt position start stop n) = of_nat i"
proof -
  have "is_finite (trendIndexAt position start stop n)
      \<and> (\<exists>i < n. fin_val (trendIndexAt position start stop n) = of_nat i)"
  proof (cases "n \<le> 1 \<or> stop \<le> start")
    case True
    then show ?thesis using assms(4) by (auto simp: trendIndexAt_def)
  next
    case False
    then have "start < stop" using assms by (simp add: coordinate_def)
    from index_of_share [OF clamped_share [OF assms(1,2) this assms(3)] assms(4,5)] False
    show ?thesis by (simp add: trendIndexAt_def)
  qed
  then show "is_finite (trendIndexAt position start stop n)"
    and "\<exists>i < n. fin_val (trendIndexAt position start stop n) = of_nat i" by blast+
qed

section \<open>Geometry: bounds\<close>

text \<open>The bounds of the layout: widths and day counts of at most 20 bits.\<close>

definition small_geometry :: "geometry \<Rightarrow> nat \<Rightarrow> bool" where
  "small_geometry g w \<longleftrightarrow> g_width g = Fin (of_nat w) \<and> 280 \<le> w \<and> w \<le> 2 ^ 20
     \<and> 0 < g_count g \<and> g_count g \<le> 2 ^ 20"

lemma chart_geometry_small:
  assumes "w \<le> 2 ^ 20" and "days \<noteq> []" and "length days \<le> 2 ^ 20"
  shows "small_geometry (chart_geometry (num_of_nat w) days) (max 280 (w - 32))"
proof -
  have "in_range (num_of_nat w - Fin 32) (of_nat w - 32) (of_nat w - 32)"
    using range_minus(1) [of "num_of_nat w" "of_nat w" "of_nat w" "Fin 32" 32 32]
      rnd64_int [of "int w - 32"] assms(1) of_nat_le_iff [of w "2 ^ 20", where ?'a = rat]
    by (simp add: in_range_def abs_le_iff)
  then have "is_finite (num_of_nat w - Fin 32)" "fin_val (num_of_nat w - Fin 32) = of_nat w - 32"
    by (auto simp: in_range_def)
  then have "math_max (Fin 280) (num_of_nat w - Fin 32) = Fin (of_nat (max 280 (w - 32)))"
    by (cases "num_of_nat w - Fin 32") (auto simp: math_max_def max_def of_nat_diff)
  moreover have "max 280 (w - 32) \<le> 2 ^ 20" using assms(1) by simp
  ultimately show ?thesis
    using assms(2,3) by (simp add: small_geometry_def chart_geometry_def Let_def)
qed

lemma rnd64_20:
  assumes "\<bar>q\<bar> \<le> 2 ^ 20"
  shows "\<bar>rnd64 q - q\<bar> \<le> 1 / 2 ^ 32"
  using rnd64_near [of q 20] assms by simp

lemma num_of_exact: "n \<le> 2 ^ 53 \<Longrightarrow> num_of False (of_nat n) = Fin (of_nat n)"
  using num_of_bounded [of "of_nat n" "2 ^ 53" False] of_nat_le_iff [of n "2 ^ 53", where ?'a = rat]
  by (cases "num_of False (of_nat n)") (auto simp: num_of_def signed_zero_def Let_def split: if_splits)

lemma nat_minus_exact:
  assumes "b < a" and "a \<le> 2 ^ 20"
  shows "Fin (of_nat a) - Fin (of_nat b) = Fin (of_nat (a - b))"
proof -
  have "rnd64 (of_nat a - of_nat b) = of_nat a - of_nat b"
    using rnd64_nat [of "a - b"] assms by (simp add: of_nat_diff del: rnd64_nat)
  moreover have "\<bar>of_nat a - of_nat b :: rat\<bar> \<le> 2 ^ 53"
    using assms of_nat_le_iff [of a "2 ^ 20", where ?'a = rat] by (simp add: abs_le_iff)
  ultimately have "is_finite (Fin (of_nat a) - Fin (of_nat b))"
    "fin_val (Fin (of_nat a) - Fin (of_nat b)) = of_nat a - of_nat b"
    using minus_bounded [of "Fin (of_nat a)" "Fin (of_nat b)" "2 ^ 53"] by simp_all
  then show ?thesis using assms by (cases "Fin (of_nat a) - Fin (of_nat b)") (auto simp: of_nat_diff)
qed

lemma inner_width:
  assumes "small_geometry g w"
  shows "g_width g - Fin 50 - Fin 12 = Fin (of_nat (w - 62))"
    and "g_width g - Fin 12 = Fin (of_nat (w - 12))"
proof -
  show "g_width g - Fin 12 = Fin (of_nat (w - 12))"
    using nat_minus_exact [of 12 w] assms by (simp add: small_geometry_def)
  show "g_width g - Fin 50 - Fin 12 = Fin (of_nat (w - 62))"
  proof -
    have w: "12 < w - 50" "w - 50 \<le> 2 ^ 20" "50 < w" "w \<le> 2 ^ 20"
      using assms by (auto simp: small_geometry_def)
    then show ?thesis
      using nat_minus_exact [OF w(1,2)] nat_minus_exact [OF w(3,4)] assms
      by (simp add: small_geometry_def del: of_nat_diff)
  qed
qed

lemma chart_x_value:
  assumes g: "small_geometry g w" and i: "i < g_count g" and n: "2 \<le> g_count g"
  defines "q \<equiv> of_nat i * of_nat (w - 62) / of_nat (g_count g - 1) :: rat"
  shows "0 \<le> q" and "q \<le> of_nat (w - 62)"
    and "in_range (chart_x g i) 50 (of_nat (w - 12))"
    and "fin_val (chart_x g i) = rnd64 (50 + rnd64 q)"
proof -
  let ?m = "of_nat (g_count g - 1) :: rat" and ?L = "of_nat (w - 62) :: rat"
  have w: "280 \<le> w" "w \<le> 2 ^ 20" and c: "g_count g \<le> 2 ^ 20" using g by (auto simp: small_geometry_def)
  have L: "?L \<le> 2 ^ 20" using w of_nat_le_iff [of "w - 62" "2 ^ 20", where ?'a = rat] by simp
  have m: "0 < ?m" and im: "of_nat i \<le> ?m" using i n by simp_all
  show q0: "0 \<le> q" by (simp add: q_def)
  show qL: "q \<le> ?L" unfolding q_def using mult_right_mono [OF im, of ?L] m
    by (simp add: pos_divide_le_eq mult.commute)
  have p: "num_of_nat i * Fin ?L = Fin (of_nat (i * (w - 62)))"
  proof -
    have "i * (w - 62) \<le> 2 ^ 20 * 2 ^ 20" using i c w by (intro mult_le_mono) simp_all
    then have le: "i * (w - 62) \<le> 2 ^ 53" by simp
    have "num_of_nat i * Fin ?L = num_of False (of_nat (i * (w - 62)))"
      by (simp add: num_of_nat_def times_finite sign_bit_def del: of_nat_diff)
    then show ?thesis using num_of_exact [OF le] by simp
  qed
  have d: "is_finite (num_of_nat (g_count g) - 1)" "fin_val (num_of_nat (g_count g) - 1) = ?m"
    using range_pred_nat [of "g_count g"] n c by (simp_all add: in_range_def)
  have "in_range (Fin (of_nat (i * (w - 62))) / (num_of_nat (g_count g) - 1)) 0 ?L
      \<and> fin_val (Fin (of_nat (i * (w - 62))) / (num_of_nat (g_count g) - 1)) = rnd64 q"
    using rnd64_between [OF q0 qL] L w d m rnd64_nat [of "w - 62"]
    by (simp add: divide_finite q_def)
  then have a: "in_range (Fin (of_nat (i * (w - 62))) / (num_of_nat (g_count g) - 1)) 0 ?L"
    and av: "fin_val (Fin (of_nat (i * (w - 62))) / (num_of_nat (g_count g) - 1)) = rnd64 q" by auto
  have e: "(50 :: rat) + ?L = of_nat (w - 12)" using w by (simp add: of_nat_diff)
  have f: "in_range (Fin 50) 50 50" by (simp add: in_range_def)
  have "rnd64 (50 + ?L) = 50 + ?L" "\<bar>50 + ?L\<bar> \<le> 2 ^ 53"
    using rnd64_nat [of "w - 12"] w L unfolding e [symmetric] by (simp_all del: rnd64_nat)
  note s = range_plus [OF f a _ this(1) _ this(2)]
  have x: "chart_x g i = Fin 50 + Fin (of_nat (i * (w - 62))) / (num_of_nat (g_count g) - 1)"
    using n by (simp add: chart_x_def inner_width [OF g] p)
  show "in_range (chart_x g i) 50 (of_nat (w - 12))" using s(1) e by (simp add: x)
  show "fin_val (chart_x g i) = rnd64 (50 + rnd64 q)" using s(2) av by (simp add: x)
qed

text \<open>The ends of the frame, and its middle for a single day.\<close>

lemma chart_x_ends:
  assumes "small_geometry g w" and "2 \<le> g_count g"
  shows "fin_val (chart_x g 0) = 50" and "fin_val (chart_x g (g_count g - 1)) = of_nat (w - 12)"
proof -
  have w: "280 \<le> w" "w \<le> 2 ^ 20" and g: "g_count g - 1 < g_count g" "0 < g_count g" "(of_nat (g_count g - 1) :: rat) \<noteq> 0"
    using assms by (auto simp: small_geometry_def)
  have e: "(50 :: rat) + of_nat (w - 62) = of_nat (w - 12)" using w by (simp add: of_nat_diff)
  show "fin_val (chart_x g 0) = 50" using chart_x_value(4) [OF assms(1) g(2) assms(2)] by simp
  have "fin_val (chart_x g (g_count g - 1)) = rnd64 (50 + rnd64 (of_nat (w - 62)))"
    using chart_x_value(4) [OF assms(1) g(1) assms(2)] g(3) by simp
  also have "rnd64 (of_nat (w - 62)) = of_nat (w - 62)" by (rule rnd64_nat) (use w in simp)
  also have "rnd64 (50 + of_nat (w - 62)) = of_nat (w - 12)" unfolding e by (rule rnd64_nat) (use w in simp)
  finally show "fin_val (chart_x g (g_count g - 1)) = of_nat (w - 12)" .
qed

lemma rnd64_half: "\<bar>n\<bar> \<le> 2 ^ 53 \<Longrightarrow> rnd64 (of_int n / 2) = of_int n / 2"
proof (rule rnd64_repr)
  assume "\<bar>n\<bar> \<le> 2 ^ 53"
  then have "of_int n / 2 = of_int n * (2 :: rat) powi (- 1) \<and> \<bar>n\<bar> \<le> 2 ^ 53 \<and> - 1074 \<le> (- 1 :: int)"
    by (simp add: power_int_minus)
  then show "repr64 (of_int n / 2)" unfolding repr64_def by blast
qed

lemma chart_x_single:
  assumes "small_geometry g w" and "g_count g = 1"
  shows "is_finite (chart_x g i)" and "fin_val (chart_x g i) = (50 + of_nat (w - 12)) / 2"
proof -
  have w: "280 \<le> w" "w \<le> 2 ^ 20" "g_width g = Fin (of_nat w)" using assms by (auto simp: small_geometry_def)
  have wq: "(of_nat w :: rat) \<le> 2 ^ 20" using w of_nat_le_iff [of w "2 ^ 20", where ?'a = rat] by simp
  have p: "is_finite (g_width g + Fin 50)" "fin_val (g_width g + Fin 50) = of_nat (w + 50)"
    using plus_bounded [of "g_width g" "Fin 50" "2 ^ 21"] rnd64_nat [of "w + 50"] w wq by simp_all
  have m: "is_finite (g_width g + Fin 50 - Fin 12)" "fin_val (g_width g + Fin 50 - Fin 12) = of_nat (w + 38)"
    using minus_bounded [of "g_width g + Fin 50" "Fin 12" "2 ^ 21"] rnd64_nat [of "w + 38"] p w wq
    by (simp_all add: add.commute)
  have h: "rnd64 (of_nat (w + 38) / 2) = of_nat (w + 38) / 2"
    using rnd64_half [of "int (w + 38)"] w(2) by simp
  have x: "chart_x g i = (g_width g + Fin 50 - Fin 12) / Fin 2" using assms(2) by (simp add: chart_x_def)
  have "\<bar>fin_val (g_width g + Fin 50 - Fin 12) / fin_val (Fin 2)\<bar> \<le> of_int (2 ^ 21)" using m(2) wq by simp
  note d = divide_bounded [OF m(1) _ _ this]
  have e: "(of_nat (w + 38) :: rat) = 50 + of_nat (w - 12)" using w by (simp add: of_nat_diff)
  show "is_finite (chart_x g i)" unfolding x by (rule d(1)) simp_all
  have "fin_val (chart_x g i) = rnd64 (of_nat (w + 38) / 2)" unfolding x m(2) [symmetric] using d(2) by simp
  then show "fin_val (chart_x g i) = (50 + of_nat (w - 12)) / 2" using h by (simp only: e)
qed

text \<open>Pointing at the abscissa of a day selects that day, whatever the rounding.\<close>

lemma error_sum:
  fixes q a V N e :: rat
  shows "\<bar>a - q\<bar> \<le> e \<Longrightarrow> \<bar>V - (50 + a)\<bar> \<le> e \<Longrightarrow> \<bar>N - (V - 50)\<bar> \<le> e \<Longrightarrow> \<bar>N - q\<bar> \<le> 3 * e"
  by linarith

lemma round_near:
  fixes v :: rat
  assumes "\<bar>v - of_nat i\<bar> < 1 / 2"
  shows "\<lfloor>v + 1 / 2\<rfloor> = int i"
proof -
  have "of_nat i \<le> v + 1 / 2" "v + 1 / 2 < of_nat i + 1" using assms by linarith+
  then show ?thesis by (simp only: floor_eq_iff of_int_of_nat_eq simp_thms)
qed

lemma share_error:
  fixes q N R L m i e :: rat
  assumes "218 \<le> L" and "0 < m" and "m \<le> 2 ^ 20" and "q = i * L / m"
    and N: "\<bar>N - q\<bar> \<le> 3 * e" and R: "\<bar>R - N / L\<bar> \<le> e" and e: "0 \<le> e" "2 ^ 20 * e \<le> 1 / 8"
  shows "\<bar>R * m - i\<bar> \<le> 1 / 4"
proof -
  have "\<bar>N / L - i / m\<bar> = \<bar>N - q\<bar> / L"
    using assms(1,2,4) by (simp add: abs_divide flip: diff_divide_distrib) (simp add: field_simps)
  also have "\<dots> \<le> (3 * e) / 218"
    using N assms(1) by (intro frac_le) simp_all
  finally have "\<bar>N / L - i / m\<bar> \<le> e" using e(1) by linarith
  with R have "\<bar>R - i / m\<bar> \<le> 2 * e" by linarith
  then have "\<bar>R - i / m\<bar> * m \<le> (2 * e) * 2 ^ 20"
    using assms(2,3) e(1) by (intro mult_mono) simp_all
  moreover have "\<bar>R - i / m\<bar> * m = \<bar>R * m - i\<bar>"
  proof -
    have "\<bar>R - i / m\<bar> * m = \<bar>(R - i / m) * m\<bar>" using assms(2) by (simp add: abs_mult)
    also have "(R - i / m) * m = R * m - i" using assms(2) by (simp add: left_diff_distrib)
    finally show ?thesis .
  qed
  ultimately show ?thesis using e(2) by simp
qed

lemma pointer_hits:
  assumes g: "small_geometry g w" and i: "i < g_count g"
  shows "fin_val (trendIndexAt (chart_x g i) (Fin 50) (g_width g - Fin 12) (g_count g)) = of_nat i"
proof (cases "g_count g \<le> 1")
  case True
  then show ?thesis using i by (simp add: trendIndexAt_def)
next
  case False
  then have n: "2 \<le> g_count g" by simp
  let ?m = "of_nat (g_count g - 1) :: rat" and ?L = "of_nat (w - 62) :: rat"
  let ?q = "of_nat i * ?L / ?m" and ?X = "chart_x g i" and ?stop = "Fin (of_nat (w - 12))"
  have w: "280 \<le> w" "w \<le> 2 ^ 20" and c: "g_count g \<le> 2 ^ 20" using g by (auto simp: small_geometry_def)
  have wq: "(of_nat w :: rat) \<le> 2 ^ 20" using w of_nat_le_iff [of w "2 ^ 20", where ?'a = rat] by simp
  have L: "218 \<le> ?L" "?L \<le> 2 ^ 20"
    using w wq of_nat_le_iff [of 218 "w - 62", where ?'a = rat] by simp_all
  have m: "0 < ?m" "?m \<le> 2 ^ 20"
    using n c of_nat_le_iff [of "g_count g - 1" "2 ^ 20", where ?'a = rat] by simp_all
  note x = chart_x_value [OF g i n]
  let ?V = "fin_val ?X"
  have V: "is_finite ?X" "50 \<le> ?V" "?V \<le> of_nat (w - 12)" using x(3) by (simp_all add: in_range_def)
  have q20: "\<bar>?q\<bar> \<le> 2 ^ 20" using x(1,2) L by simp
  have e1: "\<bar>rnd64 ?q - ?q\<bar> \<le> 1 / 2 ^ 32" by (rule rnd64_20 [OF q20])
  have "rnd64 ?q \<le> ?L" "0 \<le> rnd64 ?q"
    using b64.le_fixed [of ?L ?q] b64.nonneg x(1,2) w rnd64_nat [of "w - 62"] by simp_all
  then have "\<bar>50 + rnd64 ?q\<bar> \<le> 2 ^ 20" using w wq by (simp add: of_nat_diff)
  then have e2: "\<bar>?V - (50 + rnd64 ?q)\<bar> \<le> 1 / 2 ^ 32" unfolding x(4) by (rule rnd64_20)
  let ?c = "math_min ?stop (math_max (Fin 50) ?X)"
  have c_val: "is_finite ?c" "fin_val ?c = ?V"
    using V w math_max_finite [of "Fin 50" ?X] math_min_finite [of ?stop "math_max (Fin 50) ?X"]
    by (simp_all add: max_def min_def)
  have top: "\<bar>?V - 50\<bar> \<le> 2 ^ 20" using V w wq by (simp add: of_nat_diff)
  then have "\<bar>?V - 50\<bar> \<le> of_int (2 ^ 20)" by simp
  then have N: "is_finite (?c - Fin 50)" "fin_val (?c - Fin 50) = rnd64 (?V - 50)"
    using minus_bounded [of ?c "Fin 50" "2 ^ 20"] c_val by simp_all
  have e3: "\<bar>rnd64 (?V - 50) - (?V - 50)\<bar> \<le> 1 / 2 ^ 32" by (rule rnd64_20 [OF top])
  have Nq: "\<bar>rnd64 (?V - 50) - ?q\<bar> \<le> 3 * (1 / 2 ^ 32)" by (rule error_sum [OF e1 e2 e3])
  have Nr: "in_range (?c - Fin 50) 0 ?L"
  proof -
    have "?V - 50 \<le> ?L" using V w by (simp add: of_nat_diff)
    then show ?thesis
      using N V b64.nonneg b64.le_fixed [of ?L "?V - 50"] rnd64_nat [of "w - 62"] w
      by (simp add: in_range_def)
  qed
  have d: "?stop - Fin 50 = Fin ?L"
    using nat_minus_exact [of 50 "w - 12"] w by simp
  have share: "in_range ((?c - Fin 50) / Fin ?L) 0 1"
    "fin_val ((?c - Fin 50) / Fin ?L) = rnd64 (rnd64 (?V - 50) / ?L)"
    using range_share [OF Nr, of "Fin ?L"] L N by (simp_all add: in_range_def)
  let ?R = "fin_val ((?c - Fin 50) / Fin ?L)"
  have "\<bar>rnd64 (?V - 50) / ?L\<bar> \<le> 1"
    using Nr N L by (simp add: in_range_def abs_le_iff)
  then have "\<bar>rnd64 (?V - 50) / ?L\<bar> \<le> 2 ^ 20" by simp
  from rnd64_20 [OF this] have e4: "\<bar>?R - rnd64 (?V - 50) / ?L\<bar> \<le> 1 / 2 ^ 32"
    by (simp only: share(2))
  have near: "\<bar>?R * ?m - of_nat i\<bar> \<le> 1 / 4"
    by (rule share_error [OF L(1) m refl Nq e4]) simp_all
  have pr: "in_range (num_of_nat (g_count g) - 1) ?m ?m" using range_pred_nat [of "g_count g"] n c by simp
  then have pv: "fin_val (num_of_nat (g_count g) - 1) = ?m" unfolding in_range_def by linarith
  have "rnd64 ?m = ?m" using rnd64_nat [of "g_count g - 1"] c by simp
  then have P: "in_range ((?c - Fin 50) / Fin ?L * (num_of_nat (g_count g) - 1)) 0 ?m"
    "fin_val ((?c - Fin 50) / Fin ?L * (num_of_nat (g_count g) - 1)) = rnd64 (?R * ?m)"
    using range_scale [OF share(1) pr] m pv by simp_all
  have R0: "0 \<le> ?R * ?m" and Rm: "?R * ?m \<le> ?m"
    using share(1) m mult_right_mono [of ?R 1 ?m] by (simp_all add: in_range_def)
  have "\<bar>?R * ?m\<bar> \<le> 2 ^ 20"
    using order_trans [OF Rm m(2)] by (simp only: abs_of_nonneg [OF R0])
  from rnd64_20 [OF this] have "\<bar>rnd64 (?R * ?m) - ?R * ?m\<bar> \<le> 1 / 8"
    by (rule order_trans) simp
  with near have "\<bar>rnd64 (?R * ?m) - of_nat i\<bar> < 1 / 2" by linarith
  then have "\<lfloor>rnd64 (?R * ?m) + 1 / 2\<rfloor> = int i" by (rule round_near)
  then have "fin_val (math_round ((?c - Fin 50) / Fin ?L * (num_of_nat (g_count g) - 1))) = of_nat i"
    using math_round_finite(2) P by (simp add: in_range_def)
  moreover have "\<not> ?stop \<le> Fin 50" using w of_nat_less_iff [of 50 "w - 12", where ?'a = rat] by simp
  ultimately show ?thesis
    using False unfolding trendIndexAt_def inner_width [OF g] by (simp only: d if_False simp_thms)
qed

text \<open>
  Days as the service sends them: a token total that is a number is a non-negative double.
\<close>

definition counted_days :: "day list \<Rightarrow> bool" where
  "counted_days days \<longleftrightarrow> list_all (\<lambda>d. \<forall>x. field total_tokens (totals_of_day d) = Num x \<longrightarrow>
     is_finite x \<longrightarrow> is_double x \<and> 0 \<le> fin_val x) days"

lemma day_value_range:
  "counted_days days \<Longrightarrow> d \<in> set days \<Longrightarrow> is_finite (day_value d) \<and> 0 \<le> fin_val (day_value d)
     \<and> rnd64 (fin_val (day_value d)) = fin_val (day_value d)"
  by (auto simp: counted_days_def list_all_iff day_value_def double_rnd elim!: numericE)

lemma fold_max:
  assumes "is_finite m" and "\<And>v. v \<in> set vs \<Longrightarrow> is_finite v"
  shows "is_finite (fold (\<lambda>v m. math_max m v) vs m)
    \<and> (\<forall>v \<in> insert m (set vs). fin_val v \<le> fin_val (fold (\<lambda>v m. math_max m v) vs m))"
  using assms
proof (induction vs arbitrary: m)
  case (Cons v vs)
  have m: "is_finite (math_max m v)" "fin_val (math_max m v) = max (fin_val m) (fin_val v)"
    using math_max_finite Cons.prems by simp_all
  from Cons.IH [OF m(1)] Cons.prems(2) m(2) show ?case by auto
qed simp

lemma chart_max:
  fixes cw days
  assumes "counted_days days"
  defines "g \<equiv> chart_geometry cw days"
  shows "is_finite (g_max g)" and "1 \<le> fin_val (g_max g)"
    and "v \<in> set (g_values g) \<Longrightarrow> in_range v 0 (fin_val (g_max g))"
proof -
  have v: "is_finite v \<and> 0 \<le> fin_val v" if "v \<in> set (g_values g)" for v
    using that day_value_range [OF assms(1)] by (auto simp: g_def chart_geometry_def Let_def)
  have "g_max g = fold (\<lambda>v m. math_max m v) (g_values g) (Fin 1)"
    by (simp add: g_def chart_geometry_def Let_def)
  with fold_max [of "Fin 1" "g_values g"] v
  show "is_finite (g_max g)" and "1 \<le> fin_val (g_max g)"
    and "v \<in> set (g_values g) \<Longrightarrow> in_range v 0 (fin_val (g_max g))"
    by (auto simp: in_range_def)
qed

lemma chart_y_range:
  assumes "is_finite (g_max g)" and "1 \<le> fin_val (g_max g)" and "in_range v 0 (fin_val (g_max g))"
  shows "in_range (chart_y g v) 12 168"
proof -
  have exact: "Fin 200 - Fin 32 = Fin 168" "Fin 200 - Fin 12 - Fin 32 = Fin 156"
    using nat_minus_exact [of 32 200] nat_minus_exact [of 12 200] nat_minus_exact [of 32 188]
    by simp_all
  have "in_range (v / g_max g) 0 1"
    by (rule range_share(1) [OF assms(3)]) (use assms in \<open>simp_all add: in_range_def\<close>)
  then have s: "in_range (v / g_max g * Fin 156) 0 156"
    by (rule range_scale(1)) (simp_all add: in_range_def)
  have "in_range (Fin 168) 168 168" by (simp add: in_range_def)
  from range_minus(1) [OF this s] show ?thesis by (simp add: chart_y_def exact)
qed

end
