(* ===== verification/Systems.thy ===== *)
theory Systems
  imports Main
begin

text \<open>
  Transition systems: the states reachable from the initial states, the locale of an
  inductive invariant and of a simulation by a more abstract system. The page's machines
  (the chart's plot, the request controller) are interpretations.
\<close>

inductive reachable :: "('s \<Rightarrow> bool) \<Rightarrow> ('s \<Rightarrow> 's \<Rightarrow> bool) \<Rightarrow> 's \<Rightarrow> bool"
  for init :: "'s \<Rightarrow> bool" and step :: "'s \<Rightarrow> 's \<Rightarrow> bool" where
  start: "init s \<Longrightarrow> reachable init step s"
| move: "reachable init step s \<Longrightarrow> step s t \<Longrightarrow> reachable init step t"

locale invariant =
  fixes init :: "'s \<Rightarrow> bool" and step :: "'s \<Rightarrow> 's \<Rightarrow> bool" and inv :: "'s \<Rightarrow> bool"
  assumes initially: "init s \<Longrightarrow> inv s"
    and preserved: "inv s \<Longrightarrow> step s t \<Longrightarrow> inv t"
begin

lemma always: "reachable init step s \<Longrightarrow> inv s"
  by (induction rule: reachable.induct) (auto intro: initially preserved)

lemma along: "step\<^sup>*\<^sup>* s t \<Longrightarrow> inv s \<Longrightarrow> inv t"
  by (induction rule: rtranclp_induct) (auto intro: preserved)

end

text \<open>The states after a list of labels, in a relation with labels and by a partial function.\<close>

inductive runs :: "('l \<Rightarrow> 's \<Rightarrow> 's \<Rightarrow> bool) \<Rightarrow> 's \<Rightarrow> 'l list \<Rightarrow> 's \<Rightarrow> bool" for step :: "'l \<Rightarrow> 's \<Rightarrow> 's \<Rightarrow> bool" where
  rest: "runs step s [] s"
| act: "step l s t \<Longrightarrow> runs step t ls u \<Longrightarrow> runs step s (l # ls) u"

fun after :: "('l \<Rightarrow> 'a \<Rightarrow> 'a option) \<Rightarrow> 'l list \<Rightarrow> 'a \<Rightarrow> 'a option" where
  "after next_of [] a = Some a"
| "after next_of (l # ls) a = Option.bind (next_of l a) (after next_of ls)"

text \<open>
  A concrete system whose steps carry labels, and an abstract one that the labels determine: seen
  through \<open>abs\<close>, a step with a label is the abstract step of that label, so the abstract machine
  says which labels are possible in a state, in which order, and what they lead to.
\<close>

locale simulation = invariant init step inv
  for init :: "'s \<Rightarrow> bool" and step and inv +
  fixes labelled :: "'l \<Rightarrow> 's \<Rightarrow> 's \<Rightarrow> bool" and next_of :: "'l \<Rightarrow> 'a \<Rightarrow> 'a option" and abs :: "'s \<Rightarrow> 'a"
  assumes labels: "step s t \<longleftrightarrow> (\<exists>l. labelled l s t)"
    and follows: "inv s \<Longrightarrow> labelled l s t \<Longrightarrow> next_of l (abs s) = Some (abs t)"
begin

lemma step_follows: "reachable init step s \<Longrightarrow> labelled l s t \<Longrightarrow> next_of l (abs s) = Some (abs t)"
  by (rule follows [OF always])

lemma run_follows: "runs labelled s ls t \<Longrightarrow> inv s \<Longrightarrow> after next_of ls (abs s) = Some (abs t)"
proof (induction rule: runs.induct)
  case (act l s t ls u)
  then have "inv t" using labels preserved by blast
  then show ?case using act follows [OF act.prems act.hyps(1)] by simp
qed simp

end

end
