(* ===== verification/Plot.thy ===== *)
theory Plot
  imports Chart Systems
begin

text \<open>
  The interaction with the chart (\<open>web/app.js\<close>, lines 203 to 283): where the tooltip is
  placed, and the plot as a machine over pointer, focus and keyboard events. The state is
  what the closures of \<open>setupTrendInteraction\<close> share and the properties they set on the
  guide, the active point and the tooltip.
\<close>

section \<open>Where the tooltip goes\<close>

definition clamp :: "jsnum \<Rightarrow> jsnum \<Rightarrow> jsnum \<Rightarrow> jsnum" where
  "clamp value lo hi = math_min hi (math_max lo value)"

text \<open>
  The plot's width and height, the tooltip's, and the point it belongs to, in the
  coordinates of the plot: the left and the top of the tooltip.
\<close>

definition tooltip_position ::
  "jsnum \<Rightarrow> jsnum \<Rightarrow> jsnum \<Rightarrow> jsnum \<Rightarrow> jsnum \<Rightarrow> jsnum \<Rightarrow> jsnum \<times> jsnum" where
  "tooltip_position plotWidth plotHeight tooltipWidth tooltipHeight screenX screenY =
     (let inset = Fin 8; gap = Fin 12;
          minLeft = inset; maxLeft = math_max minLeft (plotWidth - tooltipWidth - inset);
          minTop = inset; maxTop = math_max minTop (plotHeight - tooltipHeight - inset);
          tooltipLeft = clamp (screenX - tooltipWidth / Fin 2) minLeft maxLeft;
          above = screenY - tooltipHeight - gap; below = screenY + gap
      in if minTop \<le> above then (tooltipLeft, above)
         else if below \<le> maxTop then (tooltipLeft, below)
         else
           (let besideLeft = screenX - tooltipWidth - gap; besideRight = screenX + gap
            in (if minLeft \<le> besideLeft then besideLeft
                else if besideRight \<le> maxLeft then besideRight else tooltipLeft,
                clamp (screenY - tooltipHeight / Fin 2) minTop maxTop)))"

section \<open>The interaction state\<close>

text \<open>Measured boxes, in CSS pixels: what \<open>getBoundingClientRect\<close> and the offsets return.\<close>

record box =
  b_left :: jsnum
  b_top :: jsnum
  b_width :: jsnum
  b_height :: jsnum

record layout =
  svg_box :: box
  plot_box :: box
  tip_width :: jsnum
  tip_height :: jsnum

record plot_state =
  selected :: int
  focused :: bool
  guide_hidden :: bool
  active_hidden :: bool
  tooltip_hidden :: bool
  guide_x :: jsnum
  active_x :: jsnum
  active_y :: jsnum
  tooltip_html :: string
  tip_pos :: "jsnum \<times> jsnum"

definition svg_scale :: "geometry \<Rightarrow> box \<Rightarrow> jsnum" where
  "svg_scale g b = math_min (b_width b / g_width g) (b_height b / g_height)"

definition plot_hide :: "bool \<Rightarrow> plot_state \<Rightarrow> plot_state" where
  "plot_hide reset st =
     (let st' = (if reset then st\<lparr>selected := - 1\<rparr> else st)
      in st'\<lparr>guide_hidden := True, active_hidden := True, tooltip_hidden := True\<rparr>)"

definition plot_show :: "geometry \<Rightarrow> day list \<Rightarrow> layout \<Rightarrow> int \<Rightarrow> plot_state \<Rightarrow> plot_state" where
  "plot_show g days l index st =
     (if index < 0 \<or> int (length days) \<le> index then st
      else if index = selected st \<and> \<not> tooltip_hidden st then st
      else
        let i = nat index; pointX = chart_x g i; pointY = chart_y g (g_values g ! i);
            b = svg_box l; p = plot_box l; scale = svg_scale g b;
            offsetX = (b_width b - g_width g * scale) / Fin 2;
            offsetY = (b_height b - g_height * scale) / Fin 2;
            screenX = b_left b - b_left p + offsetX + pointX * scale;
            screenY = b_top b - b_top p + offsetY + pointY * scale
        in st\<lparr>selected := index, guide_x := pointX, active_x := pointX, active_y := pointY,
              guide_hidden := False, active_hidden := False,
              tooltip_html := trendTooltip (days ! i), tooltip_hidden := False,
              tip_pos := tooltip_position (b_width p) (b_height p) (tip_width l) (tip_height l)
                screenX screenY\<rparr>)"

text \<open>
  The index under the pointer; NaN, the position in an svg without extent, would make the
  handler read \<open>days[NaN]\<close> and throw, which is \<open>None\<close>.
\<close>

definition pointer_index :: "geometry \<Rightarrow> nat \<Rightarrow> layout \<Rightarrow> jsnum \<Rightarrow> int option" where
  "pointer_index g n l clientX =
     (let b = svg_box l; scale = svg_scale g b;
          offsetX = (b_width b - g_width g * scale) / Fin 2;
          position = (clientX - b_left b - offsetX) / scale;
          index = trendIndexAt position g_left (g_width g - g_right) n
      in if is_finite index then Some \<lfloor>fin_val index\<rfloor> else None)"

definition showAtPointer ::
  "geometry \<Rightarrow> day list \<Rightarrow> layout \<Rightarrow> jsnum \<Rightarrow> plot_state \<Rightarrow> plot_state option" where
  "showAtPointer g days l clientX st =
     map_option (\<lambda>index. plot_show g days l index st) (pointer_index g (length days) l clientX)"

datatype plot_event =
    PointerMove jsnum
  | PointerDown string jsnum      \<comment> \<open>pointer type and position\<close>
  | PointerLeave string
  | PlotFocus
  | PlotBlur
  | PlotKey string

definition current_index :: "day list \<Rightarrow> plot_state \<Rightarrow> int" where
  "current_index days st = (if 0 \<le> selected st then selected st else int (length days) - 1)"

definition plot_focus :: "geometry \<Rightarrow> day list \<Rightarrow> layout \<Rightarrow> plot_state \<Rightarrow> plot_state" where
  "plot_focus g days l st =
     (if focused st then st
      else plot_show g days l (current_index days st) (st\<lparr>focused := True\<rparr>))"

definition key_target :: "nat \<Rightarrow> string \<Rightarrow> int \<Rightarrow> int option" where
  "key_target n key index =
     (if key = ''ArrowLeft'' then Some (max 0 (index - 1))
      else if key = ''ArrowRight'' then Some (min (int n - 1) (index + 1))
      else if key = ''Home'' then Some 0
      else if key = ''End'' then Some (int n - 1)
      else None)"

fun plot_step :: "geometry \<Rightarrow> day list \<Rightarrow> layout \<Rightarrow> plot_event \<Rightarrow> plot_state \<Rightarrow> plot_state option" where
  "plot_step g days l (PointerMove x) st = showAtPointer g days l x st"
| "plot_step g days l (PointerDown kind x) st =
     map_option (\<lambda>st'. if kind \<noteq> ''mouse'' then plot_focus g days l st' else st')
       (showAtPointer g days l x st)"
| "plot_step g days l (PointerLeave kind) st = Some (if kind = ''mouse'' then plot_hide False st else st)"
| "plot_step g days l PlotFocus st = Some (plot_focus g days l st)"
| "plot_step g days l PlotBlur st = Some (plot_hide True (st\<lparr>focused := False\<rparr>))"
| "plot_step g days l (PlotKey key) st =
     Some (case key_target (length days) key (current_index days st) of
         Some index \<Rightarrow> plot_show g days l index st
       | None \<Rightarrow> if key = ''Escape'' then plot_hide False st else st)"

definition plot_init :: plot_state where
  "plot_init = \<lparr>selected = - 1, focused = False, guide_hidden = True, active_hidden = True,
     tooltip_hidden = True, guide_x = NaN, active_x = NaN, active_y = NaN, tooltip_html = [],
     tip_pos = (NaN, NaN)\<rparr>"

section \<open>The tooltip stays inside the plot\<close>

text \<open>Pixel values of at most 40 bits; differences and sums of them do not overflow.\<close>

definition sized :: "int \<Rightarrow> jsnum \<Rightarrow> bool" where
  "sized n x \<longleftrightarrow> is_finite x \<and> \<bar>fin_val x\<bar> \<le> of_int n"

lemma rnd64_sized:
  assumes "\<bar>q\<bar> \<le> of_int n" and "n \<le> 2 ^ 53"
  shows "\<bar>rnd64 q\<bar> \<le> of_int n"
proof -
  have n: "\<bar>n\<bar> \<le> 2 ^ 53" using assms by (metis abs_ge_zero abs_of_nonneg of_int_0_le_iff order_trans)
  have "rnd64 q \<le> of_int n" using b64.le_fixed [OF rnd64_int [OF n]] assms(1) by (simp add: abs_le_iff)
  moreover have "- of_int n \<le> rnd64 q"
    using b64.ge_fixed [of "of_int (- n)" q] rnd64_int [of "- n"] n assms(1) by (simp add: abs_le_iff)
  ultimately show ?thesis by (simp add: abs_le_iff)
qed

lemma sized_minus:
  assumes "sized a x" and "sized b y" and "a + b \<le> 2 ^ 53"
  shows "sized (a + b) (x - y)" and "fin_val (x - y) = rnd64 (fin_val x - fin_val y)"
proof -
  have le: "\<bar>fin_val x - fin_val y\<bar> \<le> of_int (a + b)" using assms by (simp add: sized_def abs_le_iff)
  note m = minus_bounded [OF _ _ le assms(3)]
  show "fin_val (x - y) = rnd64 (fin_val x - fin_val y)" using m assms by (simp add: sized_def)
  then show "sized (a + b) (x - y)" using m(1) rnd64_sized [OF le assms(3)] assms by (simp add: sized_def)
qed

lemma sized_plus:
  assumes "sized a x" and "sized b y" and "a + b \<le> 2 ^ 53"
  shows "sized (a + b) (x + y)" and "fin_val (x + y) = rnd64 (fin_val x + fin_val y)"
proof -
  have le: "\<bar>fin_val x + fin_val y\<bar> \<le> of_int (a + b)" using assms by (simp add: sized_def abs_le_iff)
  note m = plus_bounded [OF _ _ le assms(3)]
  show "fin_val (x + y) = rnd64 (fin_val x + fin_val y)" using m assms by (simp add: sized_def)
  then show "sized (a + b) (x + y)" using m(1) rnd64_sized [OF le assms(3)] assms by (simp add: sized_def)
qed

lemma sized_half: "sized a x \<Longrightarrow> a \<le> 2 ^ 53 \<Longrightarrow> sized a (x / Fin 2)"
proof -
  assume x: "sized a x" and a: "a \<le> 2 ^ 53"
  then have le: "\<bar>fin_val x / fin_val (Fin 2)\<bar> \<le> of_int a"
    by (auto simp: sized_def abs_le_iff)
  from divide_bounded [OF _ _ _ le a] rnd64_sized [OF le a] x show ?thesis by (simp add: sized_def)
qed

lemma sized_literal [simp]: "sized 16 (Fin 8)" "sized 16 (Fin 12)" "sized 1 (Fin 0)"
  by (simp_all add: sized_def)

lemma clamp_range:
  assumes "is_finite v" and "is_finite lo" and "is_finite hi" and "fin_val lo \<le> fin_val hi"
  shows "in_range (clamp v lo hi) (fin_val lo) (fin_val hi)"
  using math_clamp [OF _ assms(2-4), of v] assms(1) by (simp add: clamp_def in_range_def)

text \<open>
  One axis of the placement: the largest offset, and the candidates beside the point.
\<close>

definition last_offset :: "jsnum \<Rightarrow> jsnum \<Rightarrow> rat" where
  "last_offset extent sz = fin_val (math_max (Fin 8) (extent - sz - Fin 8))"

lemma axis:
  assumes s: "sized (2 ^ 40) extent" "sized (2 ^ 40) sz" "sized (2 ^ 40) pt"
    and pt: "0 \<le> fin_val pt" "fin_val pt \<le> fin_val extent"
  shows "is_finite (math_max (Fin 8) (extent - sz - Fin 8))"
    and "8 \<le> last_offset extent sz"
    and "is_finite (pt - sz - Fin 12)" and "fin_val (pt - sz - Fin 12) \<le> last_offset extent sz"
    and "is_finite (pt + Fin 12)" and "8 \<le> fin_val (pt + Fin 12)"
    and "is_finite (pt - sz / Fin 2)"
proof -
  note e = sized_minus [OF s(1,2)] note a = sized_minus [OF s(3,2)]
  note e8 = sized_minus [OF e(1) sized_literal(1)] note a12 = sized_minus [OF a(1) sized_literal(2)]
  note p = sized_plus [OF s(3) sized_literal(2)]
  note mx = math_max_finite [of "Fin 8" "extent - sz - Fin 8"]
  have fe: "is_finite (extent - sz - Fin 8)" using e8(1) by (simp add: sized_def)
  show "is_finite (math_max (Fin 8) (extent - sz - Fin 8))" "8 \<le> last_offset extent sz"
    using mx fe by (simp_all add: last_offset_def)
  show "is_finite (pt - sz - Fin 12)" using a12(1) by (simp add: sized_def)
  have "rnd64 (fin_val pt - fin_val sz) \<le> rnd64 (fin_val extent - fin_val sz)"
    using pt by (intro rnd64_mono) simp
  then have "fin_val (pt - sz - Fin 12) \<le> fin_val (extent - sz - Fin 8)"
    using e a e8(2) a12(2) by (simp add: rnd64_mono)
  then show "fin_val (pt - sz - Fin 12) \<le> last_offset extent sz"
    using mx fe by (simp add: last_offset_def)
  show "is_finite (pt + Fin 12)" using p(1) by (simp add: sized_def)
  show "8 \<le> fin_val (pt + Fin 12)" using p(2) pt b64.ge_fixed [of 8 "fin_val pt + 12"] by simp
  show "is_finite (pt - sz / Fin 2)"
    using sized_minus(1) [OF s(3) sized_half [OF s(2)]] by (simp add: sized_def)
qed

lemma tooltip_inside:
  assumes "sized (2 ^ 40) pw" "sized (2 ^ 40) ph" "sized (2 ^ 40) tw" "sized (2 ^ 40) th"
    and "sized (2 ^ 40) sx" "0 \<le> fin_val sx" "fin_val sx \<le> fin_val pw"
    and "sized (2 ^ 40) sy" "0 \<le> fin_val sy" "fin_val sy \<le> fin_val ph"
  shows "in_range (fst (tooltip_position pw ph tw th sx sy)) 8 (last_offset pw tw)"
    and "in_range (snd (tooltip_position pw ph tw th sx sy)) 8 (last_offset ph th)"
proof -
  note x = axis [OF assms(1,3,5-7)] note y = axis [OF assms(2,4,8-10)]
  have cx: "in_range (clamp (sx - tw / Fin 2) (Fin 8) (math_max (Fin 8) (pw - tw - Fin 8)))
      8 (last_offset pw tw)"
    using clamp_range [OF x(7) _ x(1), of "Fin 8"] x(2) by (simp add: last_offset_def)
  have cy: "in_range (clamp (sy - th / Fin 2) (Fin 8) (math_max (Fin 8) (ph - th - Fin 8)))
      8 (last_offset ph th)"
    using clamp_range [OF y(7) _ y(1), of "Fin 8"] y(2) by (simp add: last_offset_def)
  show "in_range (fst (tooltip_position pw ph tw th sx sy)) 8 (last_offset pw tw)"
    unfolding tooltip_position_def Let_def
    using cx x by (auto simp: in_range_def last_offset_def)
  show "in_range (snd (tooltip_position pw ph tw th sx sy)) 8 (last_offset ph th)"
    unfolding tooltip_position_def Let_def
    using cy y by (auto simp: in_range_def last_offset_def)
qed

section \<open>A laid-out plot always has a date under the pointer\<close>

definition laid_out :: "layout \<Rightarrow> bool" where
  "laid_out l \<longleftrightarrow> sized (2 ^ 30) (b_left (svg_box l)) \<and> sized (2 ^ 30) (b_width (svg_box l))
     \<and> sized (2 ^ 30) (b_height (svg_box l))
     \<and> 1 \<le> fin_val (b_width (svg_box l)) \<and> 1 \<le> fin_val (b_height (svg_box l))"

lemma ratio_range:
  assumes "sized (2 ^ 30) x" and "1 \<le> fin_val x" and "1 \<le> d" and "d \<le> 2 ^ 20"
  shows "in_range (x / Fin d) (1 / 2 ^ 20) (2 ^ 30)"
proof -
  have "rnd64 (1 / 2 ^ 20) = 1 / 2 ^ 20"
    using rnd64_repr [OF repr64_powi [of "- 20"]] by (simp add: power_int_minus)
  moreover have "1 / 2 ^ 20 \<le> fin_val x / d"
    using assms by (intro frac_le) simp_all
  moreover have "fin_val x / d \<le> 2 ^ 30 / 1"
    using assms by (intro frac_le) (simp_all add: sized_def)
  ultimately show ?thesis
    using rnd64_between(1) [of "1 / 2 ^ 20" "fin_val x / d" "2 ^ 30"] assms
    by (simp add: divide_finite sized_def)
qed

lemma pointer_position:
  assumes g: "small_geometry g w" and l: "laid_out l" and x: "sized (2 ^ 30) clientX"
  defines "scale \<equiv> svg_scale g (svg_box l)"
  shows "(clientX - b_left (svg_box l) - (b_width (svg_box l) - g_width g * scale) / Fin 2) / scale
    \<noteq> NaN"
proof -
  let ?b = "svg_box l"
  have w: "(1 :: rat) \<le> of_nat w" "(of_nat w :: rat) \<le> 2 ^ 20" and gw: "g_width g = Fin (of_nat w)"
    using g of_nat_le_iff [of w "2 ^ 20", where ?'a = rat] by (auto simp: small_geometry_def)
  have r: "in_range (b_width ?b / g_width g) (1 / 2 ^ 20) (2 ^ 30)"
    "in_range (b_height ?b / g_height) (1 / 2 ^ 20) (2 ^ 30)"
    using ratio_range [OF _ _ w] ratio_range [of "b_height ?b" 200] l
    by (simp_all add: laid_out_def gw)
  then have sc: "in_range scale (1 / 2 ^ 20) (2 ^ 30)"
    using math_min_finite [of "b_width ?b / g_width g" "b_height ?b / g_height"]
    by (auto simp: in_range_def scale_def svg_scale_def min_def)
  then have sf: "is_finite scale" "0 < fin_val scale" by (auto simp: in_range_def)
  have "fin_val (Fin (of_nat w)) * fin_val scale \<le> 2 ^ 20 * 2 ^ 30"
    using sc w by (intro mult_mono) (auto simp: in_range_def)
  then have le: "\<bar>fin_val (Fin (of_nat w)) * fin_val scale\<bar> \<le> of_int (2 ^ 50)"
    using sf by (simp add: abs_mult)
  have p: "sized (2 ^ 50) (g_width g * scale)"
    using times_bounded [OF _ sf(1) le] rnd64_sized [OF le] by (simp add: sized_def gw)
  have o: "sized (2 ^ 30 + 2 ^ 50) ((b_width ?b - g_width g * scale) / Fin 2)"
    by (rule sized_half, rule sized_minus(1) [OF _ p]) (use l in \<open>simp_all add: laid_out_def\<close>)
  have "sized (2 ^ 30 + 2 ^ 30) (clientX - b_left ?b)"
    by (rule sized_minus(1) [OF x]) (use l in \<open>simp_all add: laid_out_def\<close>)
  from sized_minus(1) [OF this o]
  have "is_finite (clientX - b_left ?b - (b_width ?b - g_width g * scale) / Fin 2)"
    by (simp add: sized_def)
  then show ?thesis using sf by (simp add: divide_finite)
qed

lemma coordinate_nat:
  assumes "n \<le> 2 ^ 52"
  shows "coordinate (Fin (of_nat n))"
proof -
  have n: "(of_nat n :: rat) \<le> 2 ^ 52" using assms of_nat_le_iff [of n "2 ^ 52", where ?'a = rat] by simp
  also have "(2 :: rat) ^ 52 < 2 ^ 1024" by (rule power_strict_increasing) simp_all
  finally show ?thesis using n assms rnd64_nat [of n] by (simp add: coordinate_def is_double_def)
qed

lemma pointer_index_defined:
  assumes g: "small_geometry g w" and l: "laid_out l" and x: "sized (2 ^ 30) clientX"
  obtains i where "i < g_count g" and "pointer_index g (g_count g) l clientX = Some (int i)"
proof -
  let ?scale = "svg_scale g (svg_box l)"
  let ?p = "(clientX - b_left (svg_box l) - (b_width (svg_box l) - g_width g * ?scale) / Fin 2) / ?scale"
  have w: "w - 12 \<le> 2 ^ 52" "0 < g_count g" "g_count g \<le> 2 ^ 52"
    using g by (auto simp: small_geometry_def)
  have stop: "coordinate (g_width g - g_right)"
    unfolding inner_width [OF g] by (rule coordinate_nat [OF w(1)])
  have start: "coordinate g_left" using coordinate_nat [of 50] by simp
  note t = trendIndexAt_bounds [OF start stop pointer_position [OF assms] w(2,3)]
  from t(2) obtain i where i: "i < g_count g"
    "fin_val (trendIndexAt ?p g_left (g_width g - g_right) (g_count g)) = of_nat i" by blast
  then have "pointer_index g (g_count g) l clientX = Some (int i)"
    using t(1) unfolding pointer_index_def Let_def by (simp only: if_True floor_of_nat)
  with i(1) show thesis by (rule that)
qed

section \<open>The plot as a machine\<close>

text \<open>
  What is shown is always the selected day: the three marks are visible together, and
  then the tooltip text and the coordinates are those of the selected index.
\<close>

definition shows_day :: "geometry \<Rightarrow> day list \<Rightarrow> plot_state \<Rightarrow> bool" where
  "shows_day g days st \<longleftrightarrow>
     (let i = nat (selected st)
      in 0 \<le> selected st \<and> tooltip_html st = trendTooltip (days ! i)
         \<and> guide_x st = chart_x g i \<and> active_x st = chart_x g i
         \<and> active_y st = chart_y g (g_values g ! i))"

definition plot_ok :: "geometry \<Rightarrow> day list \<Rightarrow> plot_state \<Rightarrow> bool" where
  "plot_ok g days st \<longleftrightarrow>
     - 1 \<le> selected st \<and> selected st < int (length days)
     \<and> guide_hidden st = tooltip_hidden st \<and> active_hidden st = tooltip_hidden st
     \<and> (tooltip_hidden st \<or> shows_day g days st)"

lemma plot_init_ok: "plot_ok g days plot_init"
  by (simp add: plot_ok_def plot_init_def)

lemma plot_hide_ok: "plot_ok g days st \<Longrightarrow> plot_ok g days (plot_hide r st)"
  by (auto simp: plot_ok_def plot_hide_def Let_def)

lemma plot_show_ok: "plot_ok g days st \<Longrightarrow> plot_ok g days (plot_show g days l i st)"
  by (auto simp: plot_ok_def plot_show_def shows_day_def Let_def)

lemma plot_focused_ok [simp]: "plot_ok g days (st\<lparr>focused := f\<rparr>) \<longleftrightarrow> plot_ok g days st"
  by (simp add: plot_ok_def shows_day_def)

lemma plot_focus_ok: "plot_ok g days st \<Longrightarrow> plot_ok g days (plot_focus g days l st)"
  by (simp add: plot_focus_def plot_show_ok)

lemmas plot_ok_intros = plot_hide_ok plot_show_ok plot_focus_ok

lemma plot_step_ok: "plot_ok g days st \<Longrightarrow> plot_step g days l e st = Some st' \<Longrightarrow> plot_ok g days st'"
  by (induction g days l e st rule: plot_step.induct)
    (auto simp: showAtPointer_def intro: plot_ok_intros split: option.splits if_splits)

definition plot_move :: "geometry \<Rightarrow> day list \<Rightarrow> plot_state \<Rightarrow> plot_state \<Rightarrow> bool" where
  "plot_move g days st st' \<longleftrightarrow> (\<exists>l e. plot_step g days l e st = Some st')"

text \<open>
  The abstract machine of the plot: a cursor over \<open>n\<close> days, on none or on one of them, that is
  shown or not and has the focus or not. Its events name what the user does: coordinates, boxes,
  markup, key names and pointer types are gone. A key starts from the last day when the cursor is
  on none.
\<close>

record cursor =
  cursor_at :: "nat option"
  cursor_shown :: bool
  cursor_focus :: bool

datatype cursor_event =
    Hover nat
  | Tap nat
  | MouseGone
  | GainFocus
  | LoseFocus
  | GoLeft
  | GoRight
  | GoFirst
  | GoLast
  | Dismiss
  | Ignored

definition put :: "nat \<Rightarrow> cursor \<Rightarrow> cursor" where
  "put i c = c\<lparr>cursor_at := Some i, cursor_shown := True\<rparr>"

definition last_or_at :: "nat \<Rightarrow> cursor \<Rightarrow> nat" where
  "last_or_at n c = (case cursor_at c of None \<Rightarrow> n - 1 | Some i \<Rightarrow> i)"

definition focus_cursor :: "nat \<Rightarrow> cursor \<Rightarrow> cursor" where
  "focus_cursor n c = (if cursor_focus c then c else put (last_or_at n c) (c\<lparr>cursor_focus := True\<rparr>))"

fun cursor_next :: "nat \<Rightarrow> cursor_event \<Rightarrow> cursor \<Rightarrow> cursor option" where
  "cursor_next n (Hover i) c = (if i < n then Some (put i c) else None)"
| "cursor_next n (Tap i) c = (if i < n then Some (focus_cursor n (put i c)) else None)"
| "cursor_next n MouseGone c = Some (c\<lparr>cursor_shown := False\<rparr>)"
| "cursor_next n GainFocus c = Some (focus_cursor n c)"
| "cursor_next n LoseFocus c = Some \<lparr>cursor_at = None, cursor_shown = False, cursor_focus = False\<rparr>"
| "cursor_next n GoLeft c = Some (put (last_or_at n c - 1) c)"
| "cursor_next n GoRight c = Some (put (min (n - 1) (last_or_at n c + 1)) c)"
| "cursor_next n GoFirst c = Some (put 0 c)"
| "cursor_next n GoLast c = Some (put (n - 1) c)"
| "cursor_next n Dismiss c = Some (c\<lparr>cursor_shown := False\<rparr>)"
| "cursor_next n Ignored c = Some c"

text \<open>What the events of the page stand for; a pointer stands for the day under it.\<close>

definition key_event :: "string \<Rightarrow> cursor_event" where
  "key_event k = (case map_of [(''ArrowLeft'', GoLeft), (''ArrowRight'', GoRight), (''Home'', GoFirst), (''End'', GoLast),
     (''Escape'', Dismiss)] k of None \<Rightarrow> Ignored | Some e \<Rightarrow> e)"

fun event_of :: "geometry \<Rightarrow> nat \<Rightarrow> layout \<Rightarrow> plot_event \<Rightarrow> cursor_event option" where
  "event_of g n l (PointerMove x) = map_option (\<lambda>i. Hover (nat i)) (pointer_index g n l x)"
| "event_of g n l (PointerDown kind x) =
     map_option (\<lambda>i. if kind = ''mouse'' then Hover (nat i) else Tap (nat i)) (pointer_index g n l x)"
| "event_of g n l (PointerLeave kind) = Some (if kind = ''mouse'' then MouseGone else Ignored)"
| "event_of g n l PlotFocus = Some GainFocus"
| "event_of g n l PlotBlur = Some LoseFocus"
| "event_of g n l (PlotKey k) = Some (key_event k)"

definition cursor_of :: "plot_state \<Rightarrow> cursor" where
  "cursor_of st = \<lparr>cursor_at = (if selected st < 0 then None else Some (nat (selected st))),
     cursor_shown = (\<not> tooltip_hidden st), cursor_focus = focused st\<rparr>"

lemma cursor_of_show:
  assumes "0 \<le> i" and "i < int (length days)"
  shows "cursor_of (plot_show g days l i st) = put (nat i) (cursor_of st)"
  using assms by (auto simp: plot_show_def cursor_of_def put_def Let_def)

lemma cursor_of_hide:
  "cursor_of (plot_hide False st) = (cursor_of st)\<lparr>cursor_shown := False\<rparr>"
  "cursor_of (plot_hide True (st\<lparr>focused := False\<rparr>))
   = \<lparr>cursor_at = None, cursor_shown = False, cursor_focus = False\<rparr>"
  by (simp_all add: plot_hide_def cursor_of_def)

lemma current_index_range:
  "plot_ok g days st \<Longrightarrow> days \<noteq> [] \<Longrightarrow> 0 \<le> current_index days st \<and> current_index days st < int (length days)"
  by (cases days) (auto simp: plot_ok_def current_index_def)

lemma current_index_cursor:
  "days \<noteq> [] \<Longrightarrow> nat (current_index days st) = last_or_at (length days) (cursor_of st)"
  by (cases days) (simp_all add: current_index_def last_or_at_def cursor_of_def)

lemma key_target_range:
  "key_target n k i = Some j \<Longrightarrow> 0 \<le> i \<Longrightarrow> i < int n \<Longrightarrow> 0 \<le> j \<and> j < int n"
  by (auto simp: key_target_def split: if_splits)

lemma cursor_of_focus:
  assumes "plot_ok g days st" and "days \<noteq> []"
  shows "cursor_of (plot_focus g days l st) = focus_cursor (length days) (cursor_of st)"
proof -
  have c: "cursor_of (st\<lparr>focused := True\<rparr>) = (cursor_of st)\<lparr>cursor_focus := True\<rparr>"
    by (simp add: cursor_of_def)
  have f: "cursor_focus (cursor_of st) = focused st" by (simp add: cursor_of_def)
  show ?thesis
    using current_index_range [OF assms]
    by (simp add: plot_focus_def focus_cursor_def cursor_of_show c f flip: current_index_cursor [OF assms(2)])
qed

text \<open>Pointer events are within the plot: they hit an index, as for a laid-out svg.\<close>

lemma pointer_index_range:
  assumes "small_geometry g w" and "pointer_index g (g_count g) l x = Some i"
  shows "laid_out l \<Longrightarrow> sized (2 ^ 30) x \<Longrightarrow> 0 \<le> i \<and> i < int (g_count g)"
  using pointer_index_defined [OF assms(1)] assms(2) by (metis of_nat_0_le_iff of_nat_less_iff option.inject)

definition pointed :: "plot_event \<Rightarrow> bool" where
  "pointed e \<longleftrightarrow> (case e of PointerMove x \<Rightarrow> sized (2 ^ 30) x | PointerDown _ x \<Rightarrow> sized (2 ^ 30) x
     | _ \<Rightarrow> True)"

text \<open>The keys, as the cursor sees them.\<close>

lemma key_follows:
  assumes ok: "plot_ok g days st" and ne: "days \<noteq> []" and s: "plot_step g days l (PlotKey k) st = Some st'"
  shows "cursor_next (length days) (key_event k) (cursor_of st) = Some (cursor_of st')"
proof (cases "key_target (length days) k (current_index days st)")
  case None
  then show ?thesis using s by (auto simp: key_event_def key_target_def cursor_of_hide split: if_splits)
next
  case (Some i)
  note c = current_index_range [OF ok ne]
  have i: "0 \<le> i" "i < int (length days)" using key_target_range [OF Some] c by simp_all
  have "st' = plot_show g days l i st" using s Some by simp
  then have "cursor_of st' = put (nat i) (cursor_of st)" by (simp only: cursor_of_show [OF i])
  moreover have "cursor_next (length days) (key_event k) (cursor_of st) = Some (put (nat i) (cursor_of st))"
  proof -
    let ?i = "current_index days st"
    have "nat (?i - 1) = nat ?i - 1" "nat (min (int (length days) - 1) (?i + 1)) = min (length days - 1) (nat ?i + 1)"
      "nat (int (length days) - 1) = length days - 1" "nat (max 0 (?i - 1)) = nat ?i - 1" using c by linarith+
    then show ?thesis
      using Some by (auto simp: key_event_def key_target_def current_index_cursor [OF ne] split: if_splits)
  qed
  ultimately show ?thesis by simp
qed

lemma plot_step_follows:
  assumes ok: "plot_ok g days st" and g: "small_geometry g w" and n: "g_count g = length days"
    and l: "laid_out l" and e: "pointed e" and s: "plot_step g days l e st = Some st'"
  shows "\<exists>c. event_of g (length days) l e = Some c \<and> cursor_next (length days) c (cursor_of st) = Some (cursor_of st')"
proof -
  have ne: "days \<noteq> []" using g n by (auto simp: small_geometry_def)
  note pi = pointer_index_range [OF g _ l, unfolded n]
  show ?thesis
  proof (cases e)
    case (PointerMove x)
    with s obtain i where i: "pointer_index g (length days) l x = Some i" and st': "st' = plot_show g days l i st"
      by (auto simp: showAtPointer_def)
    have "0 \<le> i" "i < int (length days)" using pi [OF i] e PointerMove by (auto simp: pointed_def)
    then show ?thesis using i PointerMove unfolding st' by (auto simp: cursor_of_show)
  next
    case (PointerDown kind x)
    with s obtain i where i: "pointer_index g (length days) l x = Some i"
      and st': "st' = (if kind \<noteq> ''mouse'' then plot_focus g days l (plot_show g days l i st)
        else plot_show g days l i st)"
      by (auto simp: showAtPointer_def)
    have r: "0 \<le> i" "i < int (length days)" using pi [OF i] e PointerDown by (auto simp: pointed_def)
    then show ?thesis using i PointerDown cursor_of_focus [OF plot_show_ok [OF ok] ne]
      unfolding st' by (auto simp: cursor_of_show)
  next
    case (PlotKey k)
    then show ?thesis using key_follows [OF ok ne s [unfolded PlotKey]] by (simp only: event_of.simps) blast
  qed (use s ok ne in \<open>auto simp: cursor_of_hide cursor_of_focus\<close>)
qed

interpretation plot: invariant "\<lambda>st. st = plot_init" "plot_move g days" "plot_ok g days" for g days
  by unfold_locales (auto simp: plot_init_ok plot_move_def intro: plot_step_ok)

text \<open>The moves of a plot whose svg is laid out, with pointer positions of at most 30 bits.\<close>

definition live_move :: "geometry \<Rightarrow> day list \<Rightarrow> plot_state \<Rightarrow> plot_state \<Rightarrow> bool" where
  "live_move g days st st' \<longleftrightarrow>
     (\<exists>w l e. small_geometry g w \<and> g_count g = length days \<and> laid_out l \<and> pointed e
        \<and> plot_step g days l e st = Some st')"

definition live_act :: "geometry \<Rightarrow> day list \<Rightarrow> cursor_event \<Rightarrow> plot_state \<Rightarrow> plot_state \<Rightarrow> bool" where
  "live_act g days c st st' \<longleftrightarrow>
     (\<exists>w l e. small_geometry g w \<and> g_count g = length days \<and> laid_out l \<and> pointed e
        \<and> event_of g (length days) l e = Some c \<and> plot_step g days l e st = Some st')"

interpretation cursor: simulation "\<lambda>st. st = plot_init" "live_move g days" "plot_ok g days"
    "live_act g days" "cursor_next (length days)" cursor_of for g days
proof (unfold_locales, goal_cases)
  case (1 s)
  then show ?case by (simp add: plot_init_ok)
next
  case (2 s t)
  then show ?case by (auto simp: live_move_def intro: plot_step_ok)
next
  case (3 s t)
  have "event_of g (length days) l e \<noteq> None"
    if "small_geometry g w" "g_count g = length days" "laid_out l" "pointed e" for w l e
  proof -
    have "pointer_index g (length days) l x \<noteq> None" if "sized (2 ^ 30) x" for x
      by (rule pointer_index_defined [OF \<open>small_geometry g w\<close> \<open>laid_out l\<close> that])
        (use \<open>g_count g = length days\<close> in simp)
    then show ?thesis using that(4) by (cases e) (simp_all add: pointed_def)
  qed
  then show ?case unfolding live_move_def live_act_def by blast
next
  case (4 s l t)
  then show ?case using plot_step_follows unfolding live_act_def by (metis option.inject)
qed

lemma plot_step_total:
  assumes "small_geometry g w" and "g_count g = length days" and "laid_out l" and "pointed e"
  shows "\<exists>st'. plot_step g days l e st = Some st'"
proof -
  have "\<exists>i. pointer_index g (length days) l x = Some i" if "sized (2 ^ 30) x" for x
    using pointer_index_defined [OF assms(1,3) that] assms(2) by metis
  then show ?thesis using assms(4) by (cases e) (auto simp: pointed_def showAtPointer_def)
qed

section \<open>Every day is reachable with the keyboard\<close>

fun plot_run :: "geometry \<Rightarrow> day list \<Rightarrow> layout \<Rightarrow> plot_event list \<Rightarrow> plot_state \<Rightarrow> plot_state option" where
  "plot_run g days l [] st = Some st"
| "plot_run g days l (e # es) st = Option.bind (plot_step g days l e st) (plot_run g days l es)"

lemma plot_show_selects:
  assumes "plot_ok g days st" and "0 \<le> i" and "i < int (length days)"
  shows "selected (plot_show g days l i st) = i" and "\<not> tooltip_hidden (plot_show g days l i st)"
    and "shows_day g days (plot_show g days l i st)"
  using assms plot_show_ok [OF assms(1), of l i]
  by (auto simp: plot_show_def plot_ok_def Let_def)

lemma arrow_right_run:
  assumes "plot_ok g days st" and "0 \<le> selected st" and "\<not> tooltip_hidden st"
  shows "\<exists>st'. plot_run g days l (replicate k (PlotKey ''ArrowRight'')) st = Some st'
    \<and> plot_ok g days st' \<and> \<not> tooltip_hidden st'
    \<and> selected st' = min (int (length days) - 1) (selected st + int k)"
  using assms
proof (induction k arbitrary: st)
  case 0
  then show ?case by (auto simp: plot_ok_def)
next
  case (Suc k)
  let ?i = "min (int (length days) - 1) (selected st + 1)"
  let ?st = "plot_show g days l ?i st"
  have r: "0 \<le> ?i" "?i < int (length days)" using Suc.prems by (auto simp: plot_ok_def)
  have step: "plot_step g days l (PlotKey ''ArrowRight'') st = Some ?st"
    using Suc.prems(2) by (simp add: key_target_def current_index_def)
  note s = plot_show_selects [OF Suc.prems(1) r, of l]
  from Suc.IH [of ?st] plot_show_ok [OF Suc.prems(1)] s r(1)
  obtain st' where "plot_run g days l (replicate k (PlotKey ''ArrowRight'')) ?st = Some st'"
    "plot_ok g days st'" "\<not> tooltip_hidden st'"
    "selected st' = min (int (length days) - 1) (?i + int k)" by auto
  then show ?case using step by (intro exI [of _ st']) (auto simp: min_def)
qed

lemma home_then_right:
  assumes ok: "plot_ok g days st" and ne: "days \<noteq> []"
  shows "\<exists>st'. plot_run g days l (PlotKey ''Home'' # replicate k (PlotKey ''ArrowRight'')) st = Some st'
    \<and> \<not> tooltip_hidden st' \<and> shows_day g days st'
    \<and> selected st' = int (min (length days - 1) k)"
proof -
  let ?st = "plot_show g days l 0 st"
  have r: "(0 :: int) < int (length days)" using ne by simp
  note s = plot_show_selects [OF ok order_refl r, of l]
  have step: "plot_step g days l (PlotKey ''Home'') st = Some ?st"
    by (simp add: key_target_def)
  from arrow_right_run [OF plot_show_ok [OF ok], of l 0 l k] s
  obtain st' where st': "plot_run g days l (replicate k (PlotKey ''ArrowRight'')) ?st = Some st'"
    "plot_ok g days st'" "\<not> tooltip_hidden st'"
    "selected st' = min (int (length days) - 1) (int k)" by auto
  have "min (int (length days) - 1) (int k) = int (min (length days - 1) k)" using r by linarith
  then show ?thesis using st' step by (intro exI [of _ st']) (auto simp: plot_ok_def)
qed

end
