(* ===== verification/Query.thy ===== *)
theory Query
  imports Prelude
begin

text \<open>
  The filters in the page address (\<open>web/app.js\<close>, lines 12 to 13 and 489 to 513):
  \<open>URLSearchParams\<close> as the list of its name and value pairs, with the serializer and the
  parser of application/x-www-form-urlencoded over UTF-8 bytes; \<open>filterQuery\<close>,
  \<open>filterURL\<close> and \<open>locationFilters\<close>. The locale \<open>query_codec\<close> is the contract between
  the two directions, from which the round trip of the filters follows.
\<close>

section \<open>Percent-encoding\<close>

definition hex_char :: "nat \<Rightarrow> char" where
  "hex_char n = (if n < 10 then char_of (48 + n) else char_of (55 + n))"

definition hex_value :: "char \<Rightarrow> nat option" where
  "hex_value c = (let n = of_char c :: nat in
     if 48 \<le> n \<and> n \<le> 57 then Some (n - 48)
     else if 65 \<le> n \<and> n \<le> 70 then Some (n - 55)
     else if 97 \<le> n \<and> n \<le> 102 then Some (n - 87) else None)"

definition plain_char :: "char \<Rightarrow> bool" where
  "plain_char c \<longleftrightarrow> (let n = of_char c :: nat in
     48 \<le> n \<and> n \<le> 57 \<or> 65 \<le> n \<and> n \<le> 90 \<or> 97 \<le> n \<and> n \<le> 122
     \<or> c \<in> set ''*-._'')"

definition encode_char :: "char \<Rightarrow> string" where
  "encode_char c = (if plain_char c then [c] else if c = CHR '' '' then ''+''
     else [CHR ''%'', hex_char (of_char c div 16), hex_char (of_char c mod 16)])"

definition encode :: "string \<Rightarrow> string" where
  "encode s = concat (map encode_char s)"

function decode :: "string \<Rightarrow> string" where
  "decode [] = []"
| "decode (c # s) = (case s of
     h # l # rest \<Rightarrow>
       (case (hex_value h, hex_value l) of
          (Some a, Some b) \<Rightarrow> if c = CHR ''%'' then char_of (16 * a + b) # decode rest
            else (if c = CHR ''+'' then CHR '' '' else c) # decode s
        | _ \<Rightarrow> (if c = CHR ''+'' then CHR '' '' else c) # decode s)
   | _ \<Rightarrow> (if c = CHR ''+'' then CHR '' '' else c) # decode s)"
  by pat_completeness auto
termination
  by (relation "measure length") auto

lemma hex_round: "n < 16 \<Longrightarrow> hex_value (hex_char n) = Some n"
  by (simp add: hex_value_def hex_char_def Let_def)

lemma char_split: "char_of (16 * (of_char c div 16) + of_char c mod 16 :: nat) = c"
  by simp

lemma plain_not_special: "plain_char c \<Longrightarrow> c \<noteq> CHR ''%'' \<and> c \<noteq> CHR ''+'' \<and> c \<noteq> CHR ''&'' \<and> c \<noteq> CHR ''=''"
  by (auto simp: plain_char_def Let_def)

lemma decode_other: "c \<noteq> CHR ''%'' \<Longrightarrow> decode (c # s) = (if c = CHR ''+'' then CHR '' '' else c) # decode s"
  by (auto split: list.split option.split)

declare decode.simps(2) [simp del]

lemma decode_encode_char: "decode (encode_char c @ s) = c # decode s"
proof (cases "plain_char c \<or> c = CHR '' ''")
  case True
  then show ?thesis using plain_not_special [of c] by (auto simp: encode_char_def decode_other)
next
  case False
  have "(of_char c :: nat) < 256"
    using of_char_mod_256 [of c, where ?'a = nat] by (metis mod_less_divisor zero_less_numeral)
  then have "(of_char c :: nat) div 16 < 16" by (simp add: less_mult_imp_div_less)
  with False show ?thesis
    by (simp add: encode_char_def decode.simps hex_round char_split)
qed

lemma decode_encode [simp]: "decode (encode s) = s"
  by (induction s) (simp_all add: encode_def decode_encode_char)

section \<open>Query strings\<close>

type_synonym params = "(string \<times> string) list"

fun split_on :: "char \<Rightarrow> string \<Rightarrow> string list" where
  "split_on d [] = [[]]"
| "split_on d (c # s) = (if c = d then [] # split_on d s
     else (case split_on d s of [] \<Rightarrow> [[c]] | t # ts \<Rightarrow> (c # t) # ts))"

fun join_with :: "char \<Rightarrow> string list \<Rightarrow> string" where
  "join_with d [] = []"
| "join_with d [s] = s"
| "join_with d (s # t # ts) = s @ [d] @ join_with d (t # ts)"

definition pair_text :: "string \<times> string \<Rightarrow> string" where
  "pair_text p = encode (fst p) @ ''='' @ encode (snd p)"

text \<open>\<open>URLSearchParams.toString\<close> and the constructor on a query string (without \<open>?\<close>)\<close>

definition serialize :: "params \<Rightarrow> string" where
  "serialize ps = join_with (CHR ''&'') (map pair_text ps)"

definition parse_pair :: "string \<Rightarrow> string \<times> string" where
  "parse_pair t = (let k = takeWhile (\<lambda>c. c \<noteq> CHR ''='') t; r = dropWhile (\<lambda>c. c \<noteq> CHR ''='') t
     in (decode k, decode (tl r)))"

definition parse :: "string \<Rightarrow> params" where
  "parse s = map parse_pair (filter (\<lambda>t. t \<noteq> []) (split_on (CHR ''&'') s))"

definition query_get :: "params \<Rightarrow> string \<Rightarrow> string option" where
  "query_get ps k = map_of ps k"

text \<open>\<open>set\<close>: the first pair of the name gets the value, the others are removed\<close>

fun query_set :: "params \<Rightarrow> string \<Rightarrow> string \<Rightarrow> params" where
  "query_set [] k v = [(k, v)]"
| "query_set ((k', v') # ps) k v =
     (if k' = k then (k, v) # filter (\<lambda>p. fst p \<noteq> k) ps else (k', v') # query_set ps k v)"

lemma split_on_no: "d \<notin> set s \<Longrightarrow> split_on d s = [s]"
  by (induction s) auto

lemma split_on_sep: "d \<notin> set s \<Longrightarrow> split_on d (s @ d # t) = s # split_on d t"
  by (induction s) auto

lemma split_join: "ts \<noteq> [] \<Longrightarrow> (\<And>t. t \<in> set ts \<Longrightarrow> d \<notin> set t) \<Longrightarrow> split_on d (join_with d ts) = ts"
  by (induction d ts rule: join_with.induct) (auto simp: split_on_no split_on_sep)

lemma hex_char_plain: "n < 16 \<Longrightarrow> plain_char (hex_char n)"
  by (simp add: plain_char_def hex_char_def Let_def)

lemma encode_char_special: "CHR ''&'' \<notin> set (encode_char c)" "CHR ''='' \<notin> set (encode_char c)"
proof -
  have "(of_char c :: nat) < 256"
    using of_char_mod_256 [of c, where ?'a = nat] by (metis mod_less_divisor zero_less_numeral)
  then have "(of_char c :: nat) div 16 < 16" by (simp add: less_mult_imp_div_less)
  then have "plain_char (hex_char (of_char c div 16))" "plain_char (hex_char (of_char c mod 16))"
    by (simp_all add: hex_char_plain)
  moreover have "\<not> plain_char (CHR ''&'')" "\<not> plain_char (CHR ''='')" by code_simp+
  ultimately show "CHR ''&'' \<notin> set (encode_char c)" "CHR ''='' \<notin> set (encode_char c)"
    by (auto simp: encode_char_def)
qed

lemma encode_special: "CHR ''&'' \<notin> set (encode s)" "CHR ''='' \<notin> set (encode s)"
  using encode_char_special by (auto simp: encode_def)

lemma parse_pair_text: "parse_pair (pair_text p) = p"
proof -
  have all: "\<And>c. c \<in> set (encode (fst p)) \<Longrightarrow> c \<noteq> CHR ''=''" using encode_special(2) by metis
  then show ?thesis
    by (simp add: parse_pair_def pair_text_def takeWhile_append2 dropWhile_append2)
qed

lemma parse_serialize: "parse (serialize ps) = ps"
proof (cases "ps = []")
  case True
  then show ?thesis by (simp add: parse_def serialize_def)
next
  case False
  have "CHR ''&'' \<notin> set (pair_text p)" for p
    using encode_special(1) by (auto simp: pair_text_def)
  then have "split_on (CHR ''&'') (serialize ps) = map pair_text ps"
    unfolding serialize_def using False by (intro split_join) auto
  moreover have "pair_text p \<noteq> []" for p by (simp add: pair_text_def)
  ultimately show ?thesis by (simp add: parse_def parse_pair_text comp_def)
qed

lemma map_of_filter_other:
  "map_of (filter (\<lambda>p. fst p \<noteq> k) ps) j = (if j = k then None else map_of ps j)"
proof (induction ps)
  case (Cons p ps)
  then show ?case by (cases p; cases "j = k") auto
qed simp

lemma query_get_set: "query_get (query_set ps k v) j = (if j = k then Some v else query_get ps j)"
  by (induction ps k v rule: query_set.induct) (auto simp: query_get_def map_of_filter_other)

section \<open>Filters\<close>

definition periods :: "string list" where
  "periods = [''today'', ''this_week'', ''last_7_days'', ''this_month'', ''last_30_days'', ''lifetime'']"

definition defaultPeriod :: string where
  "defaultPeriod = ''last_30_days''"

text \<open>An address: everything before the query, the query without \<open>?\<close>, the fragment.\<close>

record location =
  origin_path :: string
  search :: string
  fragment :: string

record filters =
  f_account :: string
  f_period :: string
  f_valid :: bool

definition filterQuery :: "string \<Rightarrow> string \<Rightarrow> params" where
  "filterQuery account period =
     (let query = (if account \<noteq> [] then query_set [] ''account'' account else [])
      in if period \<noteq> defaultPeriod then query_set query ''period'' period else query)"

definition filterURL :: "location \<Rightarrow> string \<Rightarrow> string \<Rightarrow> location" where
  "filterURL loc account period =
     loc\<lparr>search := serialize (filterQuery account period), fragment := []\<rparr>"

definition locationFilters :: "location \<Rightarrow> filters" where
  "locationFilters loc =
     (let query = parse (search loc);
          period = (case query_get query ''period'' of None \<Rightarrow> defaultPeriod | Some p \<Rightarrow> p)
      in \<lparr>f_account = (case query_get query ''account'' of None \<Rightarrow> [] | Some a \<Rightarrow> a),
          f_period = (if period \<in> set periods then period else defaultPeriod),
          f_valid = (period \<in> set periods)\<rparr>)"

section \<open>The contract of the codec\<close>

locale query_codec =
  fixes to_text :: "params \<Rightarrow> string" and of_text :: "string \<Rightarrow> params"
  assumes round: "of_text (to_text ps) = ps"
begin

lemma to_text_inj: "to_text ps = to_text qs \<Longrightarrow> ps = qs"
  by (metis round)

lemma account_survives:
  "query_get (of_text (to_text (filterQuery a p))) ''account'' = (if a = [] then None else Some a)"
  by (simp add: round filterQuery_def query_get_def Let_def)

lemma period_survives:
  "query_get (of_text (to_text (filterQuery a p))) ''period'' = (if p = defaultPeriod then None else Some p)"
  by (simp add: round filterQuery_def query_get_def Let_def)

lemma filters_injective: "to_text (filterQuery a p) = to_text (filterQuery b q) \<Longrightarrow> a = b \<and> p = q"
  by (metis account_survives period_survives option.inject option.distinct(1))

end

interpretation form: query_codec serialize parse
  by unfold_locales (rule parse_serialize)

lemma defaultPeriod_valid [simp]: "defaultPeriod \<in> set periods"
  by (simp add: defaultPeriod_def periods_def)

lemma locationFilters_filterURL:
  "locationFilters (filterURL loc a p) =
     \<lparr>f_account = a, f_period = (if p \<in> set periods then p else defaultPeriod),
      f_valid = (p \<in> set periods)\<rparr>"
  by (simp add: locationFilters_def filterURL_def Let_def form.account_survives form.period_survives)

lemma locationFilters_period: "f_period (locationFilters loc) \<in> set periods"
  by (simp add: locationFilters_def Let_def)

end
