(* ===== verification/Trend.thy ===== *)
theory Trend
  imports Plot Query
begin

text \<open>
  The markup of the daily chart (\<open>web/app.js\<close>, lines 285 to 308): ticks, labels, dots, the
  polyline and its area, the table of daily values, and that all of it is page markup.
\<close>

section \<open>The parts of the chart\<close>

definition chart_tick :: "geometry \<Rightarrow> jsnum \<Rightarrow> string" where
  \<open>chart_tick g v =
     ''<line class="grid" x1="'' @ number_to_string g_left
     @ ''" x2="'' @ number_to_string (g_width g - g_right)
     @ ''" y1="'' @ number_to_string (chart_y g v) @ ''" y2="'' @ number_to_string (chart_y g v)
     @ ''"/><text x="'' @ number_to_string (g_left - Fin 10)
     @ ''" y="'' @ number_to_string (chart_y g v + Fin 4)
     @ ''" text-anchor="end">'' @ escapeHTML (Str (compact_string 1 v)) @ ''</text>''\<close>

definition chart_ticks :: "geometry \<Rightarrow> string" where
  "chart_ticks g = concat (map (chart_tick g) [Fin 0, g_max g / Fin 2, g_max g])"

definition chart_point :: "geometry \<Rightarrow> nat \<Rightarrow> jsnum \<Rightarrow> string" where
  "chart_point g i v = number_to_string (chart_x g i) @ '','' @ number_to_string (chart_y g v)"

definition chart_points :: "geometry \<Rightarrow> string" where
  "chart_points g = join_with (CHR '' '') (map (\<lambda>(i, v). chart_point g i v) (enumerate 0 (g_values g)))"

definition label_indexes :: "geometry \<Rightarrow> nat list" where
  "label_indexes g = (let n = g_count g
     in rev (remdups (rev (if g_width g < Fin 450 then [0, n - 1] else [0, (n - 1) div 2, n - 1]))))"

definition label_anchor :: "nat \<Rightarrow> nat \<Rightarrow> string" where
  "label_anchor n i = (if n = 1 then ''middle'' else if i = 0 then ''start''
     else if i = n - 1 then ''end'' else ''middle'')"

definition chart_label :: "geometry \<Rightarrow> day list \<Rightarrow> nat \<Rightarrow> string" where
  \<open>chart_label g days i =
     ''<text x="'' @ number_to_string (chart_x g i)
     @ ''" y="'' @ number_to_string (g_height - Fin 7)
     @ ''" text-anchor="'' @ label_anchor (g_count g) i @ ''">''
     @ escapeHTML (Str (date (days ! i))) @ ''</text>''\<close>

definition chart_labels :: "geometry \<Rightarrow> day list \<Rightarrow> string" where
  "chart_labels g days = concat (map (chart_label g days) (label_indexes g))"

definition chart_dot :: "geometry \<Rightarrow> nat \<Rightarrow> jsnum \<Rightarrow> string" where
  \<open>chart_dot g i v =
     ''<circle class="chart-point" cx="'' @ number_to_string (chart_x g i)
     @ ''" cy="'' @ number_to_string (chart_y g v) @ ''" r="3"/>''\<close>

definition chart_dots :: "geometry \<Rightarrow> string" where
  "chart_dots g = (if g_count g \<le> 31
     then concat (map (\<lambda>(i, v). chart_dot g i v) (enumerate 0 (g_values g))) else [])"

definition chart_lines :: "geometry \<Rightarrow> string" where
  \<open>chart_lines g =
     (let points = chart_points g; base = number_to_string (chart_y g 0)
      in ''<polygon class="area" points="'' @ number_to_string (chart_x g 0) @ '','' @ base @ '' ''
         @ points @ '' '' @ number_to_string (chart_x g (g_count g - 1)) @ '','' @ base
         @ ''"/><polyline class="line" points="'' @ points @ ''"/>'')\<close>

definition chart_marks :: string where
  \<open>chart_marks =
     ''<line class="chart-guide" y1="'' @ number_to_string g_top
     @ ''" y2="'' @ number_to_string (g_height - g_bottom)
     @ ''" hidden/><circle class="chart-active" r="5" hidden/>''\<close>

definition chart_hit_area :: "geometry \<Rightarrow> string" where
  \<open>chart_hit_area g =
     ''<rect class="chart-hit-area" x="'' @ number_to_string g_left
     @ ''" y="'' @ number_to_string g_top
     @ ''" width="'' @ number_to_string (g_width g - g_left - g_right)
     @ ''" height="'' @ number_to_string (g_height - g_top - g_bottom) @ ''"/>''\<close>

definition chart_svg :: "geometry \<Rightarrow> day list \<Rightarrow> string" where
  \<open>chart_svg g days =
     ''<svg viewBox="0 0 '' @ number_to_string (g_width g) @ '' '' @ number_to_string g_height
     @ ''" role="img" aria-label="Daily total tokens. Daily breakdown is available in the daily values table.">''
     @ chart_ticks g @ chart_lines g @ chart_dots g @ chart_marks @ chart_labels g days
     @ chart_hit_area g @ ''</svg>''\<close>

definition padded_note :: "day list \<Rightarrow> string" where
  \<open>padded_note days = (if \<exists>d \<in> set days. recorded d = Bool False
     then ''<p class="chart-note">Dates without recorded usage are shown as zero.</p>'' else [])\<close>

section \<open>The table of daily values\<close>

definition day_getters :: "(day \<Rightarrow> jsval) list" where
  "day_getters =
     [\<lambda>d. Str (date d),
      \<lambda>d. field total_tokens (totals_of_day d),
      \<lambda>d. field request_count (totals_of_day d),
      \<lambda>d. costValue (day_costs (totals_of_day d))]"

definition day_row :: "day \<Rightarrow> string" where
  \<open>day_row d =
     ''<tr><td>'' @ escapeHTML (Str (date d))
     @ (if recorded d = Bool False then '' <span class="not-recorded">Not recorded</span>'' else [])
     @ ''</td><td class="number">'' @ tokens (field total_tokens (totals_of_day d))
     @ ''</td><td class="number">'' @ number (field request_count (totals_of_day d))
     @ ''</td><td class="number">'' @ money (day_costs (totals_of_day d)) @ ''</td></tr>''\<close>

definition day_headers :: "string list" where
  "day_headers = [''Date'', ''Tokens'', ''Requests'', ''Cost'']"

definition days_table ::
  "(string \<Rightarrow> string \<Rightarrow> int) \<Rightarrow> day list \<Rightarrow> sorts \<Rightarrow> sorts \<times> (sorts \<Rightarrow> string) \<times> string" where
  "days_table collate days = sortableTable collate ''days'' ''Daily values'' day_headers days
     day_getters day_row (\<lambda>d. day_costs (totals_of_day d))"

section \<open>The whole chart\<close>

definition trend_chart :: "geometry \<Rightarrow> day list \<Rightarrow> bool \<Rightarrow> string \<Rightarrow> string" where
  \<open>trend_chart g days expanded daily =
     ''<div class="chart"><div class="chart-plot" tabindex="0" role="group" aria-label="Daily total tokens. Use Left and Right Arrow keys to inspect dates.">''
     @ chart_svg g days
     @ ''<div id="trend-tooltip" class="chart-tooltip" role="status" aria-atomic="true" hidden></div></div>''
     @ padded_note days @ ''</div>
    <details class="chart-details"'' @ (if expanded then '' open'' else [])
     @ ''><summary>Daily values</summary>'' @ daily @ ''</details>''\<close>

section \<open>Markup\<close>

lemma money_html [simp]: "html (money cs)"
proof -
  have "html (money_item c)" for c
    unfolding html_def money_item_def by (simp add: walk_simps cong: walk_cong)
  then show ?thesis
    by (auto simp: money_def html_concat_map split: option.splits list.splits)
qed

lemma trendTooltip_html: "html (trendTooltip d)"
  unfolding html_def trendTooltip_def by (simp add: walk_simps cong: walk_cong)

lemma chart_tick_html: "html (chart_tick g v)"
  unfolding html_def chart_tick_def by (simp add: walk_simps cong: walk_cong)

lemma chart_ticks_html [simp]: "html (chart_ticks g)"
  unfolding chart_ticks_def by (rule html_concat_map) (rule chart_tick_html)

lemma join_with_quoted:
  "(\<And>s. s \<in> set ss \<Longrightarrow> CHR 0x22 \<notin> set s) \<Longrightarrow> c \<noteq> CHR 0x22 \<Longrightarrow> CHR 0x22 \<notin> set (join_with c ss)"
  by (induction c ss rule: join_with.induct) auto

lemma chart_points_quoted [simp]:
  "walk (Some (Quoted (CHR 0x22) n as)) (chart_points g) = Some (Quoted (CHR 0x22) n as)"
  unfolding chart_points_def
  by (rule walk_quoted_text, rule join_with_quoted)
    (auto simp: chart_point_def str.no_quote)

lemma chart_lines_html [simp]: "html (chart_lines g)"
  unfolding html_def chart_lines_def by (simp add: walk_simps cong: walk_cong)

lemma chart_dots_html [simp]: "html (chart_dots g)"
proof -
  have "html (chart_dot g i v)" for i v
    unfolding html_def chart_dot_def by (simp add: walk_simps cong: walk_cong)
  then show ?thesis unfolding chart_dots_def by (auto intro!: html_concat_map)
qed

lemma chart_marks_html [simp]: "html chart_marks"
  unfolding html_def chart_marks_def by (simp add: walk_simps cong: walk_cong)

lemma label_anchor_quoted [simp]:
  "walk (Some (Quoted (CHR 0x22) n as)) (label_anchor k i) = Some (Quoted (CHR 0x22) n as)"
  by (rule walk_quoted_text) (simp add: label_anchor_def)

lemma chart_labels_html [simp]: "html (chart_labels g days)"
proof -
  have "html (chart_label g days i)" for i
    unfolding html_def chart_label_def by (simp add: walk_simps cong: walk_cong)
  then show ?thesis unfolding chart_labels_def by (rule html_concat_map)
qed

lemma chart_hit_area_html [simp]: "html (chart_hit_area g)"
  unfolding html_def chart_hit_area_def by (simp add: walk_simps cong: walk_cong)

lemma chart_svg_html [simp]: "html (chart_svg g days)"
  unfolding html_def chart_svg_def by (simp add: walk_simps cong: walk_cong)

lemma padded_note_html [simp]: "html (padded_note days)"
  unfolding html_def padded_note_def by (simp add: walk_simps cong: walk_cong)

lemma day_row_html: "html (day_row d)"
  unfolding html_def day_row_def by (simp add: walk_simps cong: walk_cong)

lemma trend_chart_html:
  assumes "html daily"
  shows "html (trend_chart g days expanded daily)"
  unfolding html_def trend_chart_def
  using assms by (cases expanded) (simp_all only: if_True if_False, simp_all add: walk_simps cong: walk_cong)

end
