(* ===== verification/Panels.thy ===== *)
theory Panels
  imports Trend
begin

text \<open>
  The panels of the page apart from the chart, as functions of the data they show
  (\<open>web/app.js\<close>, lines 137 to 139, 185 to 191, 310 to 339, 357 and 376 to 390): metrics,
  models, accounts with their labels, data source errors, the identity line and the page of
  request events. What the browser's environment decides (the collation of
  \<open>localeCompare\<close>, the local time of an event, the name of the time zone) is the record
  \<open>host\<close>, an argument of every function that uses it.
\<close>

section \<open>Data\<close>

record host =
  collate :: "string \<Rightarrow> string \<Rightarrow> int"       \<comment> \<open>\<open>localeCompare(b, "en", { sensitivity: "base" })\<close>\<close>
  local_time :: "jsnum \<Rightarrow> string option"   \<comment> \<open>a date as \<open>toLocaleString\<close>; invalid dates are \<open>None\<close>\<close>
  time_zone :: string

record model_usage = totals +
  model_name :: string

record account =
  login :: string
  display_name :: string                  \<comment> \<open>empty when the response has none\<close>
  copilot_plan :: jsval
  quota_reset_date :: jsval
  quota_snapshots :: "quotas option"
  account_totals :: "totals option"

record failure =
  target :: string
  operation :: string
  message :: string

record event =
  created_at_ms :: jsnum
  created_at_utc :: jsval
  event_model :: jsval
  endpoint :: jsval
  event_input :: jsval
  event_output :: jsval
  event_cache_read :: jsval
  event_cache_creation :: jsval
  duration_ms :: jsval
  event_tokens :: jsval
  event_cost :: "cost option"
  request_outcome :: jsval

text \<open>Page numbers and totals are integers of the service.\<close>

record events_page =
  page_index :: int
  total_pages :: int
  total_events :: int
  items :: "event list"

record dashboard =
  accounts :: "account list option"
  dash_totals :: "totals option"
  days :: "day list option"
  by_model :: "model_usage list option"

section \<open>Metrics\<close>

definition metric :: "string \<Rightarrow> string \<Rightarrow> string" where
  \<open>metric label value =
     ''<article class="metric"><div class="metric-label">'' @ escapeHTML (Str label)
     @ ''</div><div class="metric-value">'' @ value @ ''</div></article>''\<close>

definition metrics_html :: "bool \<Rightarrow> totals option \<Rightarrow> string" where
  "metrics_html single t =
     concat ([metric ''Total tokens'' (tokens (field total_tokens t)),
              metric ''Requests'' (number (field request_count t)),
              metric ''Cost'' (money (day_costs t))]
       @ (if single then
            [metric ''Input tokens'' (tokens (field input_tokens t)),
             metric ''Output tokens'' (tokens (field output_tokens t)),
             metric ''Cache read'' (tokens (field cache_read_input_tokens t)),
             metric ''Cache creation'' (tokens (field cache_creation_input_tokens t))] else [])
       @ [metric ''Cache hit rate'' (cacheHitRateText t)])"

section \<open>Models\<close>

definition model_headers :: "string list" where
  "model_headers = [''Model'', ''Input'', ''Output'', ''Cache read'', ''Cache creation'',
     ''Cache hit rate'', ''Tokens'', ''Requests'', ''Cost'']"

definition rate_value :: "jsnum option \<Rightarrow> jsval" where
  "rate_value r = (case r of None \<Rightarrow> Null | Some x \<Rightarrow> Num x)"

definition model_getters :: "(model_usage \<Rightarrow> jsval) list" where
  "model_getters =
     [\<lambda>m. Str (model_name m), input_tokens, output_tokens, cache_read_input_tokens,
      cache_creation_input_tokens, \<lambda>m. rate_value (cacheHitRate (Some (totals.truncate m))),
      total_tokens, request_count, \<lambda>m. costValue (costs m)]"

definition number_cell :: "string \<Rightarrow> string" where
  \<open>number_cell s = ''<td class="number">'' @ s @ ''</td>''\<close>

definition model_row :: "model_usage \<Rightarrow> string" where
  \<open>model_row m =
     ''<tr><td class="text-cell">'' @ escapeHTML (Str (model_name m)) @ ''</td>''
     @ concat (map (\<lambda>v. number_cell (tokens v)) [input_tokens m, output_tokens m,
         cache_read_input_tokens m, cache_creation_input_tokens m])
     @ number_cell (cacheHitRateText (Some (totals.truncate m)))
     @ number_cell (tokens (total_tokens m)) @ number_cell (number (request_count m))
     @ number_cell (money (costs m)) @ ''</tr>''\<close>

definition models_table ::
  "host \<Rightarrow> model_usage list \<Rightarrow> sorts \<Rightarrow> sorts \<times> (sorts \<Rightarrow> string) \<times> string" where
  "models_table h ms = sortableTable (collate h) ''models'' ''Model breakdown'' model_headers ms
     model_getters model_row costs"

section \<open>Accounts\<close>

definition has_alias :: "account \<Rightarrow> bool" where
  "has_alias a \<longleftrightarrow> display_name a \<noteq> []"

definition account_title :: "account \<Rightarrow> string" where
  "account_title a = (if has_alias a then display_name a else login a)"

text \<open>
  The map from logins to labels: an alias that several accounts share is followed by the
  login; a later account with the same login overwrites the entry.
\<close>

definition account_labels :: "account list \<Rightarrow> string \<rightharpoonup> string" where
  "account_labels as =
     (let names = map account_title as; counts = (\<lambda>n. length (filter (\<lambda>m. m = n) names))
      in map_of (rev (map (\<lambda>a. (login a,
           if has_alias a \<and> 1 < counts (account_title a)
           then account_title a @ '' ('' @ login a @ '')'' else account_title a)) as)))"

definition account_name :: "account list \<Rightarrow> bool \<Rightarrow> account \<Rightarrow> jsval" where
  "account_name as show_names a = (if show_names
     then (case account_labels as (login a) of None \<Rightarrow> Undef | Some l \<Rightarrow> Str l)
     else Str (login a))"

definition premium :: "account \<Rightarrow> quota option" where
  "premium a = (case quota_snapshots a of None \<Rightarrow> None | Some q \<Rightarrow> premium_interactions q)"

definition account_headers :: "string list" where
  "account_headers = [''Account'', ''Plan'', ''Usage'', ''Used'', ''Remaining'', ''Total'',
     ''Tokens'', ''Requests'', ''Cost'']"

definition account_getters :: "account list \<Rightarrow> bool \<Rightarrow> (account \<Rightarrow> jsval) list" where
  "account_getters as show_names =
     [account_name as show_names, copilot_plan,
      \<lambda>a. usedPercentValue (premium a), \<lambda>a. usedValue (premium a), \<lambda>a. remainingValue (premium a),
      \<lambda>a. if validMeteredQuota (premium a) then field entitlement (premium a) else Null,
      \<lambda>a. field total_tokens (account_totals a), \<lambda>a. field request_count (account_totals a),
      \<lambda>a. costValue (day_costs (account_totals a))]"

definition account_row :: "account list \<Rightarrow> bool \<Rightarrow> account \<Rightarrow> string" where
  \<open>account_row as show_names a =
     ''<tr><td class="text-cell">'' @ escapeHTML (account_name as show_names a)
     @ ''</td><td>'' @ escapeHTML (copilot_plan a) @ ''</td>''
     @ number_cell (quotaUsage (premium a)) @ number_cell (quotaUsed (premium a))
     @ number_cell (quotaRemaining (premium a)) @ number_cell (quotaTotal (premium a))
     @ number_cell (tokens (field total_tokens (account_totals a)))
     @ number_cell (number (field request_count (account_totals a)))
     @ number_cell (money (day_costs (account_totals a))) @ ''</tr>''\<close>

text \<open>
  The table of accounts. The names are read when the view runs, so the view is a function
  of the switch for display names as well as of the sort specifications.
\<close>

definition accounts_table ::
  "host \<Rightarrow> account list \<Rightarrow> bool \<Rightarrow> sorts \<Rightarrow> sorts \<times> (bool \<Rightarrow> sorts \<Rightarrow> string) \<times> string" where
  "accounts_table h as show_names srts =
     (let t = (\<lambda>b. sortableTable (collate h) ''accounts'' ''Account usage'' account_headers as
            (account_getters as b) (account_row as b) (\<lambda>a. day_costs (account_totals a)) srts)
      in (fst (t show_names), \<lambda>b. fst (snd (t b)), snd (snd (t show_names))))"

section \<open>Data source errors\<close>

text \<open>
  A JavaScript \<open>Map\<close> as the list of its entries: setting a key that is present replaces
  the value in place.
\<close>

fun js_map_set :: "'k \<Rightarrow> 'v \<Rightarrow> ('k \<times> 'v) list \<Rightarrow> ('k \<times> 'v) list" where
  "js_map_set k v [] = [(k, v)]"
| "js_map_set k v ((k', v') # es) = (if k = k' then (k, v) # es else (k', v') # js_map_set k v es)"

text \<open>\<open>JSON.stringify\<close> of the three strings is injective: the key is the triple.\<close>

definition failure_key :: "failure \<Rightarrow> string \<times> string \<times> string" where
  "failure_key e = (target e, operation e, message e)"

definition unique_failures :: "failure list \<Rightarrow> failure list" where
  "unique_failures es = map snd (fold (\<lambda>e. js_map_set (failure_key e) e) es [])"

definition failure_row :: "failure \<Rightarrow> string" where
  \<open>failure_row e =
     ''<tr><td>'' @ escapeHTML (Str (target e)) @ ''</td><td>'' @ escapeHTML (Str (operation e))
     @ ''</td><td>'' @ escapeHTML (Str (message e)) @ ''</td></tr>''\<close>

definition count_text :: "nat \<Rightarrow> string" where
  "count_text n = number (Num (num_of_nat n))"

definition errors_alert_html :: "failure list \<Rightarrow> string" where
  \<open>errors_alert_html es =
     (if es = [] then []
      else ''<span>'' @ count_text (length es) @ '' data source ''
        @ (if length es = 1 then ''error'' else ''errors'')
        @ ''.</span> <a href="#errors-section">View details</a>'')\<close>

definition errors_html :: "failure list \<Rightarrow> string" where
  "errors_html es = (if es = [] then []
     else table ''Data source errors'' [''Target'', ''Operation'', ''Error'']
       (map failure_row es) None False)"

section \<open>Identity and request events\<close>

definition identity_html :: "string \<Rightarrow> account option \<Rightarrow> string" where
  \<open>identity_html acc a =
     (if acc = [] then []
      else ''<h2>'' @ escapeHTML (Str acc) @ ''</h2><span class="muted">''
        @ escapeHTML (field copilot_plan a) @ '' '' @ middle_dot @ '' Quota resets ''
        @ escapeHTML (field quota_reset_date a) @ ''</span>'')\<close>

definition event_headers :: "string list" where
  "event_headers = [''Time'', ''Model'', ''Endpoint'', ''Input'', ''Output'', ''Cache read'',
     ''Cache creation'', ''Duration'', ''Tokens'', ''Cost'', ''Outcome'']"

definition event_time :: "host \<Rightarrow> event \<Rightarrow> string" where
  "event_time h e = (case local_time h (created_at_ms e) of None \<Rightarrow> em_dash | Some t \<Rightarrow> t)"

definition event_row :: "host \<Rightarrow> event \<Rightarrow> string" where
  \<open>event_row h e =
     ''<tr><td title="'' @ escapeHTML (created_at_utc e) @ ''">'' @ escapeHTML (Str (event_time h e))
     @ ''</td><td class="text-cell">'' @ escapeHTML (event_model e) @ ''</td><td>''
     @ escapeHTML (endpoint e) @ ''</td>''
     @ concat (map (\<lambda>v. number_cell (tokens v)) [event_input e, event_output e,
         event_cache_read e, event_cache_creation e])
     @ number_cell (duration (duration_ms e)) @ number_cell (tokens (event_tokens e))
     @ number_cell (money (map_option (\<lambda>c. [c]) (event_cost e)))
     @ ''<td>'' @ requestOutcome (request_outcome e) @ ''</td></tr>''\<close>

definition events_html :: "host \<Rightarrow> event list \<Rightarrow> string" where
  "events_html h es = (if es = [] then empty ''No request events for this period.''
     else table ''Request events'' event_headers (map (event_row h) es) None False)"

definition int_text :: "int \<Rightarrow> string" where
  "int_text n = number (Num (Fin (of_int n)))"

definition events_count_text :: "host \<Rightarrow> events_page \<Rightarrow> string" where
  "events_count_text h p = int_text (total_events p) @ '' requests''
     @ (if time_zone h \<noteq> [] then '' '' @ middle_dot @ '' Times in '' @ time_zone h else [])"

definition page_label_text :: "events_page \<Rightarrow> string" where
  "page_label_text p = ''Page '' @ int_text (page_index p) @ '' of '' @ int_text (total_pages p)"

section \<open>Markup\<close>

lemma number_cell_html:
  assumes "html s"
  shows "html (number_cell s)"
  unfolding html_def number_cell_def using assms by (simp add: walk_simps cong: walk_cong)

lemma cacheHitRateText_html [simp]: "html (cacheHitRateText t)"
proof -
  have "html ''%''" by code_simp
  then show ?thesis by (auto simp: cacheHitRateText_def intro!: html_append split: option.split)
qed

lemma requestOutcome_html [simp]: "html (requestOutcome v)"
proof -
  have "html ''Completed''" "html ''<span class=\"outcome outcome-cancelled\">Cancelled</span>''"
    "html ''<span class=\"outcome outcome-error\">Error</span>''" by code_simp+
  then show ?thesis by (simp add: requestOutcome_def)
qed

lemma metric_html:
  assumes "html value"
  shows "html (metric label value)"
  unfolding html_def metric_def using assms by (simp add: walk_simps cong: walk_cong)

lemma metrics_html_html: "html (metrics_html single t)"
  unfolding metrics_html_def
  by (rule html_concat) (auto intro!: metric_html split: if_splits)

lemma cells_html:
  "(\<And>v. html (f v)) \<Longrightarrow> html (concat (map (\<lambda>v. number_cell (f v)) vs))"
  by (rule html_concat_map) (rule number_cell_html)

lemma tr_end: "html ''</tr>''" "html ''</td>''" "html ''<td>''" "html ''</td></tr>''"
  by code_simp+

lemma text_cell_html: "html (''<tr><td class=\"text-cell\">'' @ escapeHTML v @ ''</td>'')"
  unfolding html_def by (simp add: walk_simps cong: walk_cong)

lemma model_row_html: "html (model_row m)"
proof -
  have "model_row m = (''<tr><td class=\"text-cell\">'' @ escapeHTML (Str (model_name m)) @ ''</td>'')
     @ concat (map (\<lambda>v. number_cell (tokens v)) [input_tokens m, output_tokens m,
         cache_read_input_tokens m, cache_creation_input_tokens m])
     @ number_cell (cacheHitRateText (Some (totals.truncate m)))
     @ number_cell (tokens (total_tokens m)) @ number_cell (number (request_count m))
     @ number_cell (money (costs m)) @ ''</tr>''"
    by (simp add: model_row_def)
  also have "html \<dots>"
    by (intro html_append text_cell_html cells_html number_cell_html tr_end) simp_all
  finally show ?thesis .
qed

lemma account_row_html: "html (account_row as b a)"
proof -
  have "html (''<tr><td class=\"text-cell\">'' @ escapeHTML (account_name as b a)
     @ ''</td><td>'' @ escapeHTML (copilot_plan a) @ ''</td>'')" (is "html ?first")
    unfolding html_def by (simp add: walk_simps cong: walk_cong)
  note first = html_append [OF this]
  have "account_row as b a = ?first
     @ number_cell (quotaUsage (premium a)) @ number_cell (quotaUsed (premium a))
     @ number_cell (quotaRemaining (premium a)) @ number_cell (quotaTotal (premium a))
     @ number_cell (tokens (field total_tokens (account_totals a)))
     @ number_cell (number (field request_count (account_totals a)))
     @ number_cell (money (day_costs (account_totals a))) @ ''</tr>''"
    by (simp add: account_row_def)
  also have "html \<dots>"
    by (rule first) (intro html_append number_cell_html tr_end quotaUsage_html; simp)
  finally show ?thesis .
qed

lemma failure_row_html: "html (failure_row e)"
  unfolding html_def failure_row_def by (simp add: walk_simps cong: walk_cong)

lemma errors_html_html: "html (errors_html es)"
  by (auto simp: errors_html_def failure_row_html intro!: table_html)

lemma count_text_html [simp]: "html (count_text n)"
  by (simp add: count_text_def)

lemma errors_alert_html_html: "html (errors_alert_html es)"
  unfolding html_def errors_alert_html_def by (simp add: walk_simps cong: walk_cong)

lemma identity_html_html: "html (identity_html acc a)"
proof -
  have "html middle_dot" by code_simp
  then show ?thesis unfolding html_def identity_html_def by (simp add: walk_simps cong: walk_cong)
qed

lemma event_row_html: "html (event_row h e)"
proof -
  have "html (''<tr><td title=\"'' @ escapeHTML (created_at_utc e) @ ''\">''
     @ escapeHTML (Str (event_time h e)) @ ''</td><td class=\"text-cell\">''
     @ escapeHTML (event_model e) @ ''</td><td>'' @ escapeHTML (endpoint e) @ ''</td>'')"
    (is "html ?first")
    unfolding html_def by (simp add: walk_simps cong: walk_cong)
  note first = html_append [OF this]
  have "event_row h e = ?first
     @ concat (map (\<lambda>v. number_cell (tokens v)) [event_input e, event_output e,
         event_cache_read e, event_cache_creation e])
     @ number_cell (duration (duration_ms e)) @ number_cell (tokens (event_tokens e))
     @ number_cell (money (map_option (\<lambda>c. [c]) (event_cost e)))
     @ ''<td>'' @ requestOutcome (request_outcome e) @ ''</td></tr>''"
    by (simp add: event_row_def)
  also have "html \<dots>"
    by (rule first) (intro html_append cells_html number_cell_html tr_end; simp)
  finally show ?thesis .
qed

lemma events_html_html: "html (events_html h es)"
  by (auto simp: events_html_def event_row_html intro!: table_html)

section \<open>Deduplication of the errors\<close>

lemma failure_key_inj: "failure_key e = failure_key e' \<Longrightarrow> e = e'"
  by (cases e; cases e') (simp add: failure_key_def)

lemma js_map_set_keys:
  "map fst (js_map_set k v es) = (if k \<in> set (map fst es) then map fst es else map fst es @ [k])"
  by (induction k v es rule: js_map_set.induct) auto

lemma js_map_set_same:
  assumes "\<And>k' v'. (k', v') \<in> set es \<Longrightarrow> k' = f v'" and "inj f"
  shows "js_map_set (f v) v es = (if v \<in> set (map snd es) then es else es @ [(f v, v)])"
  using assms(1)
proof (induction es)
  case (Cons e es)
  obtain k' v' where e: "e = (k', v')" by fastforce
  then have k': "k' = f v'" using Cons.prems by simp
  show ?case
  proof (cases "f v = k'")
    case True
    then have "v = v'" using k' assms(2) by (simp add: inj_eq)
    then show ?thesis using True by (simp add: e)
  next
    case False
    then have "v \<noteq> v'" using k' by auto
    then show ?thesis using False Cons by (auto simp: e)
  qed
qed simp

fun keep_first :: "'a list \<Rightarrow> 'a list \<Rightarrow> 'a list" where
  "keep_first [] acc = acc"
| "keep_first (x # xs) acc = keep_first xs (if x \<in> set acc then acc else acc @ [x])"

lemma unique_failures_keep: "unique_failures es = keep_first es []"
proof -
  have inj: "inj failure_key" by (rule injI) (rule failure_key_inj)
  have "map snd (fold (\<lambda>e. js_map_set (failure_key e) e) es (map (\<lambda>v. (failure_key v, v)) acc))
      = keep_first es acc" for acc
  proof (induction es arbitrary: acc)
    case (Cons e es)
    have "js_map_set (failure_key e) e (map (\<lambda>v. (failure_key v, v)) acc)
        = map (\<lambda>v. (failure_key v, v)) (if e \<in> set acc then acc else acc @ [e])"
      by (subst js_map_set_same [OF _ inj]) (auto simp: comp_def)
    then show ?case using Cons.IH by simp
  qed (simp add: comp_def)
  from this [of "[]"] show ?thesis by (simp add: unique_failures_def)
qed

lemma keep_first_set: "set (keep_first xs acc) = set xs \<union> set acc"
  by (induction xs acc rule: keep_first.induct) auto

lemma keep_first_distinct: "distinct acc \<Longrightarrow> distinct (keep_first xs acc)"
  by (induction xs acc rule: keep_first.induct) auto

lemma keep_first_new: "set xs \<inter> set acc = {} \<Longrightarrow> distinct xs \<Longrightarrow> keep_first xs acc = acc @ xs"
  by (induction xs acc rule: keep_first.induct) auto

lemma unique_failures_set: "set (unique_failures es) = set es"
  by (simp add: unique_failures_keep keep_first_set)

lemma unique_failures_nil [simp]: "unique_failures es = [] \<longleftrightarrow> es = []"
  using arg_cong [OF unique_failures_set [of es], of "\<lambda>A. A = {}"] by simp

lemma remdups_snoc: "remdups (xs @ [x]) = filter (\<lambda>y. y \<noteq> x) (remdups xs) @ [x]"
  by (induction xs) auto

lemma keep_first_remdups:
  "keep_first xs acc = acc @ filter (\<lambda>y. y \<notin> set acc) (rev (remdups (rev xs)))"
proof (induction xs acc rule: keep_first.induct)
  case (2 x xs acc)
  have "filter (\<lambda>y. y \<notin> set acc) (filter (\<lambda>y. y \<noteq> x) ys) = filter (\<lambda>y. y \<notin> set acc) ys"
    if "x \<in> set acc" for ys
    using that by (induction ys) auto
  then show ?case
    using 2 by (auto simp: remdups_snoc rev_filter conj_commute)
qed simp

lemma unique_failures_remdups: "unique_failures es = rev (remdups (rev es))"
  by (simp add: unique_failures_keep keep_first_remdups)

section \<open>Labels of accounts\<close>

lemma account_labels_lookup:
  assumes "distinct (map login as)" and "a \<in> set as"
  shows "account_labels as (login a) = Some
    (if has_alias a \<and> 1 < length (filter (\<lambda>b. account_title b = account_title a) as)
     then account_title a @ '' ('' @ login a @ '')'' else account_title a)"
proof -
  have "distinct (map fst (rev (map (\<lambda>a. (login a, g a)) as)))" for g :: "account \<Rightarrow> string"
    using assms(1) by (simp add: rev_map [symmetric] comp_def)
  from map_of_is_SomeI [OF this] assms(2)
  show ?thesis by (fastforce simp: account_labels_def Let_def filter_map comp_def)
qed

lemma shared_title:
  assumes "a \<in> set as" and "b \<in> set as" and "a \<noteq> b" and "account_title a = account_title b"
  shows "1 < length (filter (\<lambda>c. account_title c = account_title a) as)"
proof -
  have "{a, b} \<subseteq> set (filter (\<lambda>c. account_title c = account_title a) as)" using assms by simp
  then have "card {a, b} \<le> length (filter (\<lambda>c. account_title c = account_title a) as)"
    by (meson List.finite_set card_length card_mono order_trans)
  then show ?thesis using assms(3) by simp
qed

lemma same_title_labels_differ:
  assumes d: "distinct (map login as)" and a: "a \<in> set as" and b: "b \<in> set as" and "a \<noteq> b"
    and t: "account_title a = account_title b"
  shows "account_labels as (login a) \<noteq> account_labels as (login b)"
proof -
  have l: "login a \<noteq> login b" using d a b \<open>a \<noteq> b\<close> by (metis distinct_map inj_onD)
  have "1 < length (filter (\<lambda>c. account_title c = account_title a) as)"
    using shared_title [OF a b \<open>a \<noteq> b\<close> t] .
  moreover from this have "1 < length (filter (\<lambda>c. account_title c = account_title b) as)"
    by (simp add: t)
  moreover have "has_alias a \<or> has_alias b" using l t by (auto simp: account_title_def split: if_splits)
  ultimately show ?thesis
    using l t by (auto simp: account_labels_lookup [OF d a] account_labels_lookup [OF d b])
qed

end
