(* ===== verification/Page.thy ===== *)
theory Page
  imports Panels
begin

text \<open>
  The page as a state machine without its requests (\<open>web/app.js\<close>, lines 18 to 26, 98 to 106,
  171 to 191, 285 to 389, 433 to 436, 489 to 522 and 574 to 595): the module's variables,
  the elements it writes, the renderers as state transformers, and the handlers of the
  keyboard, of the sort buttons and of a resize. A handler that would throw is \<open>None\<close>.
\<close>

section \<open>State\<close>

text \<open>
  The content of the chart's container: a text, or the chart with its geometry, its days,
  whether the daily values are open, the markup of their table, and the closures' state.
\<close>

datatype trend_view =
    TrendText string
  | TrendChart geometry "day list" bool string plot_state

fun trend_markup :: "trend_view \<Rightarrow> string" where
  "trend_markup (TrendText s) = s"
| "trend_markup (TrendChart g ds expanded daily _) = trend_chart g ds expanded daily"

text \<open>The content of a panel that is a message or one table.\<close>

datatype panel = Message string | TablePanel string

fun panel_markup :: "panel \<Rightarrow> string" where
  "panel_markup (Message s) = s"
| "panel_markup (TablePanel s) = s"

type_synonym table_views = "string \<rightharpoonup> (bool \<Rightarrow> sorts \<Rightarrow> string)"

record page =
  cur_account :: string
  cur_period :: string
  cur_page :: int
  cur_total_pages :: int
  dashboard_errors :: "failure list"
  event_errors :: "failure list"
  show_names :: bool
  chart_days :: "day list option"
  chart_width :: int
  has_aliases :: bool
  shown_events :: "(string \<times> string) option"  \<comment> \<open>\<open>JSON.stringify\<close> of the pair, or empty\<close>
  table_views :: table_views
  sort_specs :: sorts
  markup :: "string \<Rightarrow> string"                 \<comment> \<open>\<open>innerHTML\<close>, by id\<close>
  hidden :: "string \<Rightarrow> bool"
  busy :: "string \<Rightarrow> bool"                     \<comment> \<open>\<open>aria-busy\<close>\<close>
  disabled :: "string \<Rightarrow> bool"
  label_text :: "string \<Rightarrow> string"             \<comment> \<open>\<open>textContent\<close>, by id\<close>
  syncing :: bool                             \<comment> \<open>\<open>aria-disabled\<close> of the refresh button\<close>
  metrics_single :: bool
  trend_panel :: trend_view
  models_panel :: panel
  accounts_panel :: panel
  scroll_left :: "string \<Rightarrow> int"
  focus_in :: "(string \<times> nat option) option"   \<comment> \<open>table, and column of a sort button\<close>
  account_options :: "(string \<times> string) list" \<comment> \<open>text and value\<close>
  account_value :: string
  period_value :: string
  address :: location

text \<open>Assigning the value of a select element chooses an option, or none.\<close>

definition select_value :: "(string \<times> string) list \<Rightarrow> string \<Rightarrow> string" where
  "select_value opts v = (if v \<in> set (map snd opts) then v else [])"

section \<open>Renderers\<close>

definition set_markup :: "string \<Rightarrow> string \<Rightarrow> page \<Rightarrow> page" where
  "set_markup k s st = st\<lparr>markup := (markup st)(k := s)\<rparr>"

definition set_hidden :: "string \<Rightarrow> bool \<Rightarrow> page \<Rightarrow> page" where
  "set_hidden k b st = st\<lparr>hidden := (hidden st)(k := b)\<rparr>"

definition set_busy :: "string \<Rightarrow> bool \<Rightarrow> page \<Rightarrow> page" where
  "set_busy k b st = st\<lparr>busy := (busy st)(k := b)\<rparr>"

definition set_disabled :: "string \<Rightarrow> bool \<Rightarrow> page \<Rightarrow> page" where
  "set_disabled k b st = st\<lparr>disabled := (disabled st)(k := b)\<rparr>"

definition set_text :: "string \<Rightarrow> string \<Rightarrow> page \<Rightarrow> page" where
  "set_text k s st = st\<lparr>label_text := (label_text st)(k := s)\<rparr>"

lemmas set_defs = set_markup_def set_hidden_def set_busy_def set_disabled_def set_text_def

text \<open>Replacing a table's element drops its scroll offset and the focus inside it.\<close>

definition drop_table :: "string \<Rightarrow> page \<Rightarrow> page" where
  "drop_table tid st = st\<lparr>scroll_left := (scroll_left st)(tid := 0),
     focus_in := (case focus_in st of Some (t, c) \<Rightarrow> if t = tid then None else Some (t, c)
       | None \<Rightarrow> None)\<rparr>"

definition put_view :: "string \<Rightarrow> (bool \<Rightarrow> sorts \<Rightarrow> string) \<Rightarrow> sorts \<Rightarrow> page \<Rightarrow> page" where
  "put_view tid view srts st =
     st\<lparr>sort_specs := srts, table_views := (table_views st)(tid := Some view)\<rparr>"

definition renderQuotas :: "account option \<Rightarrow> page \<Rightarrow> page" where
  "renderQuotas a st = set_markup ''quotas''
     (quotas_html (case a of None \<Rightarrow> None | Some x \<Rightarrow> quota_snapshots x)) st"

definition renderMetrics :: "totals option \<Rightarrow> page \<Rightarrow> page" where
  "renderMetrics t st =
     (let single = (cur_account st \<noteq> [])
      in set_markup ''metrics'' (metrics_html single t) (st\<lparr>metrics_single := single\<rparr>))"

definition no_days :: string where "no_days = ''No daily usage for this period.''"

definition renderTrend :: "host \<Rightarrow> jsnum \<Rightarrow> day list option \<Rightarrow> page \<Rightarrow> page" where
  "renderTrend h clientWidth ds st =
     (let today = (cur_period st = ''today'');
          st1 = set_hidden ''trend-section'' today (st\<lparr>chart_days := ds\<rparr>);
          put = (\<lambda>v. drop_table ''days'' (st1\<lparr>trend_panel := v\<rparr>))
      in if today then put (TrendText [])
         else
           let expanded = (case trend_panel st1 of TrendChart _ _ e _ _ \<Rightarrow> e | TrendText _ \<Rightarrow> False)
           in case ds of
             None \<Rightarrow> put (TrendText (empty em_dash))
           | Some [] \<Rightarrow> put (TrendText (empty no_days))
           | Some xs \<Rightarrow>
               (let g = chart_geometry clientWidth xs;
                    (srts, view, daily) = days_table (collate h) xs (sort_specs st1)
                in put_view ''days'' (\<lambda>_. view) srts
                     (put (TrendChart g xs expanded daily plot_init))))"

definition no_models :: string where "no_models = ''No model usage for this period.''"

definition renderModels :: "host \<Rightarrow> model_usage list option \<Rightarrow> page \<Rightarrow> page" where
  "renderModels h ms st =
     (let put = (\<lambda>p. drop_table ''models'' (st\<lparr>models_panel := p\<rparr>))
      in case ms of
        None \<Rightarrow> put (Message (empty em_dash))
      | Some [] \<Rightarrow> put (Message (empty no_models))
      | Some xs \<Rightarrow>
          (let (srts, view, s) = models_table h xs (sort_specs st)
           in put_view ''models'' (\<lambda>_. view) srts (put (TablePanel s))))"

definition no_accounts :: "bool \<Rightarrow> string" where
  "no_accounts failed = (if failed then ''No accounts available.''
     else ''No accounts found. Add endpoints to the endpoints file, or run Copilot API containers on a Docker network shared with the dashboard.'')"

definition renderAccounts :: "host \<Rightarrow> account list \<Rightarrow> page \<Rightarrow> page" where
  "renderAccounts h as st =
     (let st1 = st\<lparr>has_aliases := list_ex has_alias as\<rparr>;
          put = (\<lambda>p. drop_table ''accounts'' (st1\<lparr>accounts_panel := p\<rparr>))
      in if as = [] then put (Message (empty (no_accounts (dashboard_errors st1 \<noteq> []))))
         else
           let (srts, view, s) = accounts_table h as (show_names st1) (sort_specs st1)
           in put_view ''accounts'' view srts (put (TablePanel s)))"

definition renderErrors :: "page \<Rightarrow> page" where
  "renderErrors st =
     (let unique = unique_failures (dashboard_errors st @ event_errors st)
      in set_markup ''errors'' (errors_html unique)
          (set_markup ''errors-alert'' (errors_alert_html unique)
            (set_hidden ''errors-alert'' (unique = [])
              (set_hidden ''errors-section'' (unique = []) st))))"

definition updateAccounts :: "account list \<Rightarrow> page \<Rightarrow> page" where
  "updateAccounts as st =
     (let sel = find (\<lambda>a. to_lower (login a) = to_lower (cur_account st)) as;
          st1 = (case sel of None \<Rightarrow> st | Some a \<Rightarrow> st\<lparr>cur_account := login a\<rparr>);
          opts = (''All accounts'', []) # map (\<lambda>a. (login a, login a)) as
            @ (if cur_account st1 \<noteq> [] \<and> sel = None then [(cur_account st1, cur_account st1)] else [])
      in st1\<lparr>account_options := opts, account_value := select_value opts (cur_account st1)\<rparr>)"

definition renderDashboard :: "host \<Rightarrow> jsnum \<Rightarrow> dashboard option \<Rightarrow> page \<Rightarrow> page \<times> bool" where
  "renderDashboard h clientWidth data st =
     (let as = (case data of None \<Rightarrow> [] | Some d \<Rightarrow> (case accounts d of None \<Rightarrow> [] | Some as \<Rightarrow> as));
          st1 = updateAccounts as st; acc = cur_account st1;
          a = find (\<lambda>a. login a = acc) as;
          st2 = set_markup ''identity'' (identity_html acc a)
            (set_hidden ''accounts-section'' (acc \<noteq> [])
              (set_hidden ''quotas'' (acc = []) (set_hidden ''identity'' (acc = []) st1)));
          st3 = (if acc \<noteq> [] then renderQuotas a st2 else st2);
          st4 = renderMetrics (case data of None \<Rightarrow> None | Some d \<Rightarrow> dash_totals d) st3;
          st5 = renderTrend h clientWidth (case data of None \<Rightarrow> None | Some d \<Rightarrow> days d) st4;
          st6 = renderModels h (case data of None \<Rightarrow> None | Some d \<Rightarrow> by_model d) st5
      in (renderAccounts h as st6, a \<noteq> None))"

definition resetEvents :: "string \<Rightarrow> page \<Rightarrow> page" where
  "resetEvents text st =
     set_disabled ''next'' True (set_disabled ''previous'' True
       (set_text ''page-label'' [] (set_text ''events-count'' []
         (set_busy ''events'' False (set_markup ''events'' (empty text)
           (st\<lparr>shown_events := None\<rparr>))))))"

definition renderEvents :: "host \<Rightarrow> events_page option \<Rightarrow> page \<Rightarrow> page" where
  "renderEvents h data st = (case data of None \<Rightarrow> resetEvents em_dash st
     | Some d \<Rightarrow>
         set_markup ''events'' (events_html h (items d))
           (set_disabled ''next'' (total_pages d \<le> page_index d)
             (set_disabled ''previous'' (page_index d \<le> 1)
               (set_text ''page-label'' (page_label_text d)
                 (set_text ''events-count'' (events_count_text h d)
                   (st\<lparr>shown_events := Some (cur_account st, cur_period st),
                       cur_page := page_index d, cur_total_pages := total_pages d\<rparr>))))))"

definition setSyncing :: "bool \<Rightarrow> page \<Rightarrow> page" where
  "setSyncing b st = set_text ''refresh'' (if b then ''Syncing'' @ ellipsis else ''Refresh'')
     (st\<lparr>syncing := b\<rparr>)"

section \<open>Handlers\<close>

definition has_table :: "string \<Rightarrow> page \<Rightarrow> bool" where
  "has_table tid st =
     (if tid = ''accounts'' then (case accounts_panel st of TablePanel _ \<Rightarrow> True | _ \<Rightarrow> False)
      else if tid = ''models'' then (case models_panel st of TablePanel _ \<Rightarrow> True | _ \<Rightarrow> False)
      else if tid = ''days'' then (case trend_panel st of TrendChart _ _ _ _ _ \<Rightarrow> True | _ \<Rightarrow> False)
      else False)"

definition replace_table :: "string \<Rightarrow> string \<Rightarrow> page \<Rightarrow> page" where
  "replace_table tid s st =
     (if tid = ''accounts'' then st\<lparr>accounts_panel := TablePanel s\<rparr>
      else if tid = ''models'' then st\<lparr>models_panel := TablePanel s\<rparr>
      else case trend_panel st of
          TrendChart g ds e _ p \<Rightarrow> st\<lparr>trend_panel := TrendChart g ds e s p\<rparr>
        | TrendText _ \<Rightarrow> st)"

definition redrawTable :: "string \<Rightarrow> page \<Rightarrow> page option" where
  "redrawTable tid st =
     (if \<not> has_table tid st then None
      else case table_views st tid of None \<Rightarrow> None
        | Some view \<Rightarrow>
            (let scrollLeft = scroll_left st tid;
                 restore = (case focus_in st of Some (t, _) \<Rightarrow> t = tid | None \<Rightarrow> False);
                 col = (case focus_in st of Some (_, c) \<Rightarrow> c | None \<Rightarrow> None);
                 st1 = drop_table tid (replace_table tid (view (show_names st) (sort_specs st)) st);
                 st2 = st1\<lparr>scroll_left := (scroll_left st1)(tid := scrollLeft)\<rparr>
             in Some (if restore then st2\<lparr>focus_in := Some (tid, col)\<rparr> else st2)))"

definition sort_button_click :: "string \<Rightarrow> nat \<Rightarrow> page \<Rightarrow> page option" where
  "sort_button_click tid col st = redrawTable tid (st\<lparr>sort_specs := click_sort tid col (sort_specs st)\<rparr>)"

record key_event =
  key :: string
  default_prevented :: bool
  ctrl_key :: bool
  meta_key :: bool
  alt_key :: bool
  repeated :: bool
  composing :: bool
  editable_target :: bool

definition toggle_names :: "key_event \<Rightarrow> page \<Rightarrow> page option" where
  "toggle_names e st =
     (if key e \<notin> {''d'', ''D''} \<or> default_prevented e \<or> ctrl_key e \<or> meta_key e \<or> alt_key e
        \<or> repeated e \<or> composing e then Some st
      else if editable_target e then Some st
      else if hidden st ''accounts-section'' \<or> \<not> has_aliases st \<or> table_views st ''accounts'' = None
        then Some st
      else map_option
        (\<lambda>st'. set_text ''announcement'' (if show_names st' then ''Account display names shown.''
            else ''Account logins shown.'') st')
        (redrawTable ''accounts'' (st\<lparr>show_names := \<not> show_names st\<rparr>)))"

definition resize :: "host \<Rightarrow> jsnum \<Rightarrow> int \<Rightarrow> page \<Rightarrow> page" where
  "resize h clientWidth w st =
     (if w \<noteq> chart_width st then
        (let st1 = st\<lparr>chart_width := w\<rparr>
         in case chart_days st1 of None \<Rightarrow> st1 | Some ds \<Rightarrow> renderTrend h clientWidth (Some ds) st1)
      else st)"

text \<open>
  What else the user does to the page: an event of the chart's plot, opening or closing the
  daily values, scrolling a table and moving the focus.
\<close>

definition plot_input :: "layout \<Rightarrow> plot_event \<Rightarrow> page \<Rightarrow> page option" where
  "plot_input l e st = (case trend_panel st of
       TrendText _ \<Rightarrow> Some st
     | TrendChart g ds expanded daily p \<Rightarrow>
         map_option (\<lambda>p'. st\<lparr>trend_panel := TrendChart g ds expanded daily p'\<rparr>) (plot_step g ds l e p))"

definition toggle_daily :: "page \<Rightarrow> page" where
  "toggle_daily st = (case trend_panel st of
       TrendText _ \<Rightarrow> st
     | TrendChart g ds expanded daily p \<Rightarrow> st\<lparr>trend_panel := TrendChart g ds (\<not> expanded) daily p\<rparr>)"

definition scroll_table :: "string \<Rightarrow> int \<Rightarrow> page \<Rightarrow> page" where
  "scroll_table tid x st = st\<lparr>scroll_left := (scroll_left st)(tid := x)\<rparr>"

definition move_focus :: "(string \<times> nat option) option \<Rightarrow> page \<Rightarrow> page" where
  "move_focus f st = st\<lparr>focus_in := f\<rparr>"

section \<open>Filters\<close>

definition selectAccountOption :: "string \<Rightarrow> page \<Rightarrow> page" where
  "selectAccountOption acc st =
     (let opts = account_options st @ (if acc \<noteq> [] \<and> acc \<notin> set (map snd (account_options st))
            then [(acc, acc)] else [])
      in st\<lparr>account_options := opts, account_value := select_value opts acc\<rparr>)"

definition select_period :: "string \<Rightarrow> page \<Rightarrow> page" where
  "select_period p st = st\<lparr>period_value := select_value (map (\<lambda>q. (q, q)) periods) p\<rparr>"

definition readLocation :: "page \<Rightarrow> page \<times> bool" where
  "readLocation st =
     (let f = locationFilters (address st);
          st1 = st\<lparr>cur_account := f_account f, cur_period := f_period f\<rparr>
      in (select_period (cur_period st1) (selectAccountOption (cur_account st1) st1), f_valid f))"

end
