(* ===== verification/Page_Invariant.thy ===== *)
theory Page_Invariant
  imports Page
begin

text \<open>
  Invariants of the page: all its markup is page markup, whatever the data; every table on
  the page is the output of its stored view for the current sort specifications, so that
  redrawing a table never throws; the sort specifications stay within the tables' columns;
  the account shown is the account selected.
\<close>

section \<open>What a sortable table returns\<close>

text \<open>
  The view of a table reads the sort specification of its own table only, and the switch
  for display names only in the table of accounts.
\<close>

definition view_of :: "string \<Rightarrow> (bool \<Rightarrow> sorts \<Rightarrow> string) \<Rightarrow> bool" where
  "view_of tid view \<longleftrightarrow> (\<forall>b s t. s tid = t tid \<longrightarrow> view b s = view b t)
     \<and> (tid \<noteq> ''accounts'' \<longrightarrow> (\<forall>b b' s. view b s = view b' s))"

lemma view_of_local: "view_of tid v \<Longrightarrow> s tid = t tid \<Longrightarrow> v b s = v b t"
  unfolding view_of_def by blast

lemma view_of_names: "view_of tid v \<Longrightarrow> tid \<noteq> ''accounts'' \<Longrightarrow> v b s = v b' s"
  unfolding view_of_def by blast

definition spec_ok :: "nat \<Rightarrow> sort_spec \<Rightarrow> bool" where
  "spec_ok n s \<longleftrightarrow> column s < n \<and> (direction s = 1 \<or> direction s = - 1)"

definition table_width :: "string \<Rightarrow> nat" where
  "table_width tid = (if tid = ''days'' then 4 else 9)"

definition sorts_ok :: "sorts \<Rightarrow> bool" where
  "sorts_ok s \<longleftrightarrow> (\<forall>tid. spec_ok (table_width tid) (s tid))"

lemma initial_sorts_ok: "sorts_ok initial_sorts"
  by (simp add: sorts_ok_def spec_ok_def initial_sorts_def table_width_def)

lemma click_sort_ok: "sorts_ok s \<Longrightarrow> col < table_width tid \<Longrightarrow> sorts_ok (click_sort tid col s)"
  by (auto simp: sorts_ok_def spec_ok_def click_sort_def Let_def)

lemma spec_ok_first: "spec_ok (table_width tid) \<lparr>column = 0, direction = 1\<rparr>"
  by (simp add: spec_ok_def table_width_def)

lemma click_sort_other: "t \<noteq> tid \<Longrightarrow> click_sort tid col s t = s t"
  by (simp add: click_sort_def Let_def)

lemma reset_cost_sort_ok: "sorts_ok s \<Longrightarrow> sorts_ok (reset_cost_sort tid n d s)"
  by (simp add: sorts_ok_def reset_cost_sort_def spec_ok_first)

lemma reset_cost_sort_other: "t \<noteq> tid \<Longrightarrow> reset_cost_sort tid n d s t = s t"
  by (simp add: reset_cost_sort_def)

text \<open>A result \<open>(srts, view, s)\<close> of a table with identifier \<open>tid\<close>, from the specifications \<open>s0\<close>.\<close>

definition table_result :: "string \<Rightarrow> bool \<Rightarrow> sorts \<Rightarrow> sorts \<Rightarrow> (bool \<Rightarrow> sorts \<Rightarrow> string) \<Rightarrow> string \<Rightarrow> bool" where
  "table_result tid b s0 srts view s \<longleftrightarrow>
     s = view b srts \<and> view_of tid view \<and> (\<forall>t. t \<noteq> tid \<longrightarrow> srts t = s0 t)
     \<and> (sorts_ok s0 \<longrightarrow> sorts_ok srts) \<and> (\<forall>b t. html (view b t))"

lemma sortableTable_result:
  assumes "sortableTable c tid label headers xs getters row costs_of s0 = (srts, view, s)"
    and "CHR 0x22 \<notin> set tid" and "\<And>x. html (row x)"
  shows "table_result tid b s0 srts (\<lambda>_. view) s"
  using assms table_view_html [OF assms(2,3)]
  by (auto simp: table_result_def sortableTable_def Let_def view_of_def table_view_def
      reset_cost_sort_ok reset_cost_sort_other)

lemma days_table_result:
  assumes "days_table c ds s0 = (srts, view, s)"
  shows "table_result ''days'' b s0 srts (\<lambda>_. view) s"
  using assms unfolding days_table_def by (rule sortableTable_result) (simp_all add: day_row_html)

lemma models_table_result:
  assumes "models_table h ms s0 = (srts, view, s)"
  shows "table_result ''models'' b s0 srts (\<lambda>_. view) s"
  using assms unfolding models_table_def by (rule sortableTable_result) (simp_all add: model_row_html)

lemma accounts_table_result:
  assumes "accounts_table h as b s0 = (srts, view, s)"
  shows "table_result ''accounts'' b s0 srts view s"
proof -
  let ?view = "\<lambda>b. table_view (collate h) ''accounts'' ''Account usage'' account_headers as
      (account_getters as b) (account_row as b)
      (length (row_currencies (\<lambda>a. day_costs (account_totals a)) as) \<noteq> 1)"
  have "view = ?view" "s = ?view b srts"
    "srts = reset_cost_sort ''accounts'' (length account_headers)
       (length (row_currencies (\<lambda>a. day_costs (account_totals a)) as) \<noteq> 1) s0"
    using assms by (auto simp: accounts_table_def sortableTable_def Let_def)
  then show ?thesis
    using table_view_html [of "''accounts''" as "account_row as c" for c] account_row_html
    by (auto simp: table_result_def view_of_def table_view_def reset_cost_sort_ok reset_cost_sort_other)
qed

lemmas table_results = days_table_result [where b = True] models_table_result [where b = True]
  accounts_table_result

lemma result_html: "table_result tid b s0 srts view s \<Longrightarrow> html s \<and> (\<forall>b t. html (view b t))"
  by (simp add: table_result_def)

lemmas results_html = table_results [THEN result_html]

section \<open>The invariant\<close>

definition safe_page :: "page \<Rightarrow> bool" where
  "safe_page st \<longleftrightarrow> (\<forall>k. html (markup st k)) \<and> html (trend_markup (trend_panel st))
     \<and> html (panel_markup (models_panel st)) \<and> html (panel_markup (accounts_panel st))
     \<and> (\<forall>tid v b s. table_views st tid = Some v \<longrightarrow> html (v b s))
     \<and> (case trend_panel st of TrendText _ \<Rightarrow> True
          | TrendChart _ _ _ daily p \<Rightarrow> html daily \<and> html (tooltip_html p))"

text \<open>The markup of a table that is on the page.\<close>

definition table_text :: "string \<Rightarrow> page \<Rightarrow> string option" where
  "table_text tid st =
     (if tid = ''accounts'' then (case accounts_panel st of TablePanel s \<Rightarrow> Some s | _ \<Rightarrow> None)
      else if tid = ''models'' then (case models_panel st of TablePanel s \<Rightarrow> Some s | _ \<Rightarrow> None)
      else if tid = ''days'' then (case trend_panel st of TrendChart _ _ _ s _ \<Rightarrow> Some s | _ \<Rightarrow> None)
      else None)"

lemma has_table_text: "has_table tid st \<longleftrightarrow> table_text tid st \<noteq> None"
  by (auto simp: has_table_def table_text_def split: panel.splits trend_view.splits)

section \<open>Renderers keep the markup safe\<close>

lemma set_markup_safe: "safe_page st \<Longrightarrow> html s \<Longrightarrow> safe_page (set_markup k s st)"
  by (simp add: safe_page_def set_markup_def)

lemma frame_safe [simp]:
  "safe_page (set_hidden k b st) = safe_page st" "safe_page (set_busy k b st) = safe_page st"
  "safe_page (set_disabled k b st) = safe_page st" "safe_page (set_text k t st) = safe_page st"
  "safe_page (drop_table tid st) = safe_page st"
  "safe_page (st\<lparr>metrics_single := b\<rparr>) = safe_page st"
  "safe_page (st\<lparr>chart_days := ds\<rparr>) = safe_page st"
  "safe_page (st\<lparr>chart_width := w\<rparr>) = safe_page st"
  "safe_page (st\<lparr>has_aliases := b\<rparr>) = safe_page st"
  "safe_page (st\<lparr>shown_events := se\<rparr>) = safe_page st"
  "safe_page (st\<lparr>shown_events := se, cur_page := i, cur_total_pages := n\<rparr>) = safe_page st"
  "safe_page (st\<lparr>cur_account := a\<rparr>) = safe_page st"
  "safe_page (st\<lparr>cur_account := a, cur_period := p\<rparr>) = safe_page st"
  "safe_page (st\<lparr>account_options := os, account_value := v\<rparr>) = safe_page st"
  "safe_page (st\<lparr>period_value := v\<rparr>) = safe_page st"
  "safe_page (st\<lparr>show_names := b\<rparr>) = safe_page st"
  "safe_page (st\<lparr>sort_specs := s\<rparr>) = safe_page st"
  "safe_page (st\<lparr>syncing := b\<rparr>) = safe_page st"
  "safe_page (st\<lparr>scroll_left := sl\<rparr>) = safe_page st"
  "safe_page (st\<lparr>focus_in := f\<rparr>) = safe_page st"
  by (simp_all add: safe_page_def set_defs drop_table_def)

lemma put_view_safe:
  "safe_page st \<Longrightarrow> (\<And>b s. html (v b s)) \<Longrightarrow> safe_page (put_view tid v srts st)"
  by (simp add: safe_page_def put_view_def)

lemma panel_safe:
  "safe_page st \<Longrightarrow> html (panel_markup p) \<Longrightarrow> safe_page (st\<lparr>models_panel := p\<rparr>)"
  "safe_page st \<Longrightarrow> html (panel_markup p) \<Longrightarrow> safe_page (st\<lparr>accounts_panel := p\<rparr>)"
  by (simp_all add: safe_page_def)

lemma trend_safe:
  "safe_page st \<Longrightarrow> html s \<Longrightarrow> safe_page (st\<lparr>trend_panel := TrendText s\<rparr>)"
  "safe_page st \<Longrightarrow> html daily \<Longrightarrow> html (tooltip_html p)
     \<Longrightarrow> safe_page (st\<lparr>trend_panel := TrendChart g ds e daily p\<rparr>)"
  by (simp_all add: safe_page_def trend_chart_html)

lemma plot_init_html: "html (tooltip_html plot_init)"
  by (simp add: plot_init_def html_def)

lemmas safe_intros = set_markup_safe put_view_safe panel_safe trend_safe plot_init_html

text \<open>The tooltip's markup, which the plot's events replace.\<close>

lemma plot_show_html: "html (tooltip_html p) \<Longrightarrow> html (tooltip_html (plot_show g ds l i p))"
  by (simp add: plot_show_def Let_def trendTooltip_html)

lemma plot_hide_html: "tooltip_html (plot_hide r p) = tooltip_html p"
  by (simp add: plot_hide_def Let_def)

lemma plot_step_html:
  "html (tooltip_html p) \<Longrightarrow> plot_step g ds l e p = Some p' \<Longrightarrow> html (tooltip_html p')"
  by (induction g ds l e p rule: plot_step.induct)
    (auto simp: showAtPointer_def plot_focus_def plot_hide_html intro!: plot_show_html
      split: option.splits if_splits)

lemma plot_input_safe: "safe_page st \<Longrightarrow> plot_input l e st = Some st' \<Longrightarrow> safe_page st'"
  by (auto simp: plot_input_def safe_page_def trend_chart_html dest: plot_step_html
      split: trend_view.splits)

lemma toggle_daily_safe: "safe_page st \<Longrightarrow> safe_page (toggle_daily st)"
  by (auto simp: toggle_daily_def safe_page_def trend_chart_html split: trend_view.split)

lemma renderTrend_safe:
  "safe_page st \<Longrightarrow> safe_page (renderTrend h cw ds st)"
  by (auto simp: renderTrend_def Let_def intro!: safe_intros dest!: results_html(1)
      split: option.split list.split prod.split)

lemma renderModels_safe: "safe_page st \<Longrightarrow> safe_page (renderModels h ms st)"
  by (auto simp: renderModels_def Let_def intro!: safe_intros dest!: results_html(2)
      split: option.split list.split prod.split)

lemma renderAccounts_safe: "safe_page st \<Longrightarrow> safe_page (renderAccounts h as st)"
  by (auto simp: renderAccounts_def Let_def intro!: safe_intros dest!: results_html(3)
      split: prod.split)

lemma renderErrors_safe: "safe_page st \<Longrightarrow> safe_page (renderErrors st)"
  by (simp add: renderErrors_def Let_def set_markup_safe errors_html_html errors_alert_html_html)

lemma updateAccounts_safe: "safe_page st \<Longrightarrow> safe_page (updateAccounts as st)"
  by (simp add: updateAccounts_def Let_def split: option.split)

lemma renderDashboard_safe: "safe_page st \<Longrightarrow> safe_page (fst (renderDashboard h cw data st))"
  by (simp add: renderDashboard_def Let_def renderAccounts_safe renderModels_safe renderTrend_safe
      renderMetrics_def renderQuotas_def set_markup_safe updateAccounts_safe metrics_html_html
      quotas_html_html identity_html_html)

lemma resetEvents_safe: "safe_page st \<Longrightarrow> safe_page (resetEvents text st)"
  by (simp add: resetEvents_def set_markup_safe)

lemma renderEvents_safe: "safe_page st \<Longrightarrow> safe_page (renderEvents h data st)"
  by (simp add: renderEvents_def set_markup_safe resetEvents_safe events_html_html split: option.split)

lemma setSyncing_safe: "safe_page (setSyncing b st) = safe_page st"
  by (simp add: setSyncing_def)

text \<open>Redrawing a table changes its markup and nothing else: offset and focus are restored.\<close>

lemma replace_table_frame [simp]:
  "scroll_left (replace_table tid s st) = scroll_left st"
  "focus_in (replace_table tid s st) = focus_in st"
  "table_views (replace_table tid s st) = table_views st"
  "sort_specs (replace_table tid s st) = sort_specs st"
  "show_names (replace_table tid s st) = show_names st"
  "cur_account (replace_table tid s st) = cur_account st"
  by (simp_all add: replace_table_def split: trend_view.split)

lemma drop_restore:
  "(drop_table tid st)\<lparr>scroll_left := (scroll_left (drop_table tid st))(tid := scroll_left st tid)\<rparr>
     = st\<lparr>focus_in := focus_in (drop_table tid st)\<rparr>"
  by (simp add: drop_table_def)

lemma redrawTable_eq:
  "redrawTable tid st = (if has_table tid st
     then map_option (\<lambda>v. replace_table tid (v (show_names st) (sort_specs st)) st) (table_views st tid)
     else None)"
proof (cases "table_views st tid")
  case (Some v)
  let ?st = "replace_table tid (v (show_names st) (sort_specs st)) st"
  have "?st\<lparr>focus_in := focus_in st\<rparr> = ?st"
    by (simp add: replace_table_def split: trend_view.split)
  then show ?thesis
    using Some drop_restore [of tid ?st]
    by (cases "focus_in st") (auto simp: redrawTable_def Let_def drop_table_def)
qed (simp add: redrawTable_def)

lemma replace_table_safe: "safe_page st \<Longrightarrow> html s \<Longrightarrow> safe_page (replace_table tid s st)"
  by (auto simp: replace_table_def safe_page_def trend_chart_html split: trend_view.split)

lemma redrawTable_safe:
  assumes "safe_page st" and "redrawTable tid st = Some st'"
  shows "safe_page st'"
proof -
  obtain v where v: "table_views st tid = Some v"
    and st': "st' = replace_table tid (v (show_names st) (sort_specs st)) st"
    using assms(2) by (auto simp: redrawTable_eq split: if_splits)
  have "html (v (show_names st) (sort_specs st))" using assms(1) v by (auto simp: safe_page_def)
  with assms(1) show ?thesis unfolding st' by (rule replace_table_safe)
qed

section \<open>Tables are current\<close>

text \<open>
  The stored views, the sort specifications, the switch for names and the tables on the
  page agree: a stored view depends on the specification of its own table only, every table
  is the output of its view, the view of the accounts is stored only while their table is on
  the page, and the specifications are within the columns.
\<close>

definition tables_ok :: "table_views \<Rightarrow> sorts \<Rightarrow> bool \<Rightarrow> (string \<rightharpoonup> string) \<Rightarrow> bool" where
  "tables_ok V S b T \<longleftrightarrow>
     (\<forall>tid v. V tid = Some v \<longrightarrow> view_of tid v)
     \<and> (\<forall>tid s. T tid = Some s \<longrightarrow> (\<exists>v. V tid = Some v \<and> s = v b S))
     \<and> (V ''accounts'' \<noteq> None \<longrightarrow> T ''accounts'' \<noteq> None) \<and> sorts_ok S"

lemma tables_ok_put:
  assumes ok: "tables_ok V S b T" and r: "table_result tid b S S' view s"
  shows "tables_ok (V(tid := Some view)) S' b (T(tid := Some s))"
proof -
  have "v b S = v b S'" if "V t = Some v" "t \<noteq> tid" for t v
    using ok r that unfolding tables_ok_def table_result_def view_of_def by metis
  then have "\<exists>v. V t = Some v \<and> u = v b S'" if "T t = Some u" "t \<noteq> tid" for t u
    using ok that unfolding tables_ok_def by metis
  then show ?thesis
    using ok r unfolding tables_ok_def table_result_def by auto
qed

lemma tables_ok_drop:
  "tables_ok V S b T \<Longrightarrow> tid = ''accounts'' \<Longrightarrow> V tid = None \<Longrightarrow> tables_ok V S b (T(tid := None))"
  "tables_ok V S b T \<Longrightarrow> tid \<noteq> ''accounts'' \<Longrightarrow> tables_ok V S b (T(tid := None))"
  by (auto simp: tables_ok_def)

lemma tables_ok_accounts: "tables_ok V S b T \<Longrightarrow> T ''accounts'' = None \<Longrightarrow> V ''accounts'' = None"
  by (auto simp: tables_ok_def)

text \<open>The same for the tables of the set \<open>A\<close>, those already rendered.\<close>

definition current_on :: "string set \<Rightarrow> page \<Rightarrow> bool" where
  "current_on A st \<longleftrightarrow>
     tables_ok (table_views st) (sort_specs st) (show_names st) ((\<lambda>tid. table_text tid st) |` A)"

definition tables_current :: "page \<Rightarrow> bool" where
  "tables_current st \<longleftrightarrow>
     tables_ok (table_views st) (sort_specs st) (show_names st) (\<lambda>tid. table_text tid st)"

lemma current_all: "current_on {''days'', ''models'', ''accounts''} st \<longleftrightarrow> tables_current st"
proof -
  have "(\<lambda>tid. table_text tid st) |` {''days'', ''models'', ''accounts''} = (\<lambda>tid. table_text tid st)"
    by (rule ext) (simp add: restrict_map_def table_text_def)
  then show ?thesis by (simp add: current_on_def tables_current_def)
qed

definition tables_of :: "page \<Rightarrow> table_views \<times> sorts \<times> bool \<times> (string \<rightharpoonup> string)" where
  "tables_of st = (table_views st, sort_specs st, show_names st, \<lambda>tid. table_text tid st)"

lemma current_on_eq: "tables_of st = tables_of st' \<Longrightarrow> current_on A st = current_on A st'"
  by (simp add: current_on_def tables_of_def)

lemma table_text_update:
  "(\<lambda>tid. table_text tid (st\<lparr>trend_panel := v\<rparr>)) = (\<lambda>tid. table_text tid st)(''days'' :=
     (case v of TrendChart _ _ _ s _ \<Rightarrow> Some s | TrendText _ \<Rightarrow> None))"
  "(\<lambda>tid. table_text tid (st\<lparr>models_panel := p\<rparr>)) = (\<lambda>tid. table_text tid st)(''models'' :=
     (case p of TablePanel s \<Rightarrow> Some s | Message _ \<Rightarrow> None))"
  "(\<lambda>tid. table_text tid (st\<lparr>accounts_panel := p\<rparr>)) = (\<lambda>tid. table_text tid st)(''accounts'' :=
     (case p of TablePanel s \<Rightarrow> Some s | Message _ \<Rightarrow> None))"
  by (auto simp: table_text_def fun_eq_iff split: trend_view.split panel.split)

lemma tables_of_frame [simp]:
  "tables_of (set_markup k s st) = tables_of st" "tables_of (set_hidden k b st) = tables_of st"
  "tables_of (set_busy k b st) = tables_of st" "tables_of (set_disabled k b st) = tables_of st"
  "tables_of (set_text k s st) = tables_of st" "tables_of (drop_table tid st) = tables_of st"
  "tables_of (st\<lparr>metrics_single := b\<rparr>) = tables_of st"
  "tables_of (st\<lparr>chart_days := ds\<rparr>) = tables_of st"
  "tables_of (st\<lparr>chart_width := w\<rparr>) = tables_of st"
  "tables_of (st\<lparr>has_aliases := b\<rparr>) = tables_of st"
  "tables_of (st\<lparr>shown_events := se\<rparr>) = tables_of st"
  "tables_of (st\<lparr>shown_events := se, cur_page := i, cur_total_pages := n\<rparr>) = tables_of st"
  "tables_of (st\<lparr>cur_account := a\<rparr>) = tables_of st"
  "tables_of (st\<lparr>cur_account := a, cur_period := p\<rparr>) = tables_of st"
  "tables_of (st\<lparr>account_options := os, account_value := v\<rparr>) = tables_of st"
  "tables_of (st\<lparr>period_value := v\<rparr>) = tables_of st"
  "tables_of (st\<lparr>syncing := b\<rparr>) = tables_of st"
  by (simp_all add: tables_of_def table_text_def set_defs drop_table_def cong: if_cong)

lemma tables_of_put_view:
  "tables_of (put_view tid view srts st) =
     (case tables_of st of (V, S, b, T) \<Rightarrow> (V(tid := Some view), srts, b, T))"
  by (simp add: tables_of_def put_view_def table_text_def cong: if_cong)

lemma tables_of_panels:
  "tables_of (st\<lparr>trend_panel := v\<rparr>) = (case tables_of st of (V, S, b, T) \<Rightarrow>
     (V, S, b, T(''days'' := (case v of TrendChart _ _ _ s _ \<Rightarrow> Some s | TrendText _ \<Rightarrow> None))))"
  "tables_of (st\<lparr>models_panel := p\<rparr>) = (case tables_of st of (V, S, b, T) \<Rightarrow>
     (V, S, b, T(''models'' := (case p of TablePanel s \<Rightarrow> Some s | Message _ \<Rightarrow> None))))"
  "tables_of (st\<lparr>accounts_panel := p\<rparr>) = (case tables_of st of (V, S, b, T) \<Rightarrow>
     (V, S, b, T(''accounts'' := (case p of TablePanel s \<Rightarrow> Some s | Message _ \<Rightarrow> None))))"
  by (simp_all add: tables_of_def table_text_update)

lemma current_on_of:
  "current_on A st = (case tables_of st of (V, S, b, T) \<Rightarrow> tables_ok V S b (T |` A))"
  by (simp add: current_on_def tables_of_def)

lemma current_on_text:
  assumes "current_on A st" and "tid \<noteq> ''accounts'' \<or> tid \<notin> A"
    and "tables_of st' = (case tables_of st of (V, S, b, T) \<Rightarrow> (V, S, b, T(tid := None)))"
  shows "current_on (insert tid A) st'"
proof -
  obtain V S b T where t: "tables_of st = (V, S, b, T)" by (cases "tables_of st")
  have eq: "(T(tid := None)) |` insert tid A = (T |` A)(tid := None)"
    by (auto simp: restrict_map_def fun_eq_iff)
  have ok: "tables_ok V S b (T |` A)" using assms(1) by (simp add: current_on_of t)
  have "V tid = None" if "tid = ''accounts''"
    using ok assms(2) that tables_ok_accounts by auto
  then have "tables_ok V S b ((T |` A)(tid := None))"
    using tables_ok_drop [OF ok] by (cases "tid = ''accounts''") simp_all
  then show ?thesis using assms(3) unfolding current_on_of t by (simp only: prod.case eq)
qed

lemma current_on_table:
  assumes "current_on A st"
    and "table_result tid (show_names st) (sort_specs st) srts view s"
    and "tables_of st' = (case tables_of st of (V, S, b, T) \<Rightarrow>
      (V(tid := Some view), srts, b, T(tid := Some s)))"
  shows "current_on (insert tid A) st'"
proof -
  obtain V T where t: "tables_of st = (V, sort_specs st, show_names st, T)"
    by (simp add: tables_of_def)
  have eq: "(T(tid := Some s)) |` insert tid A = (T |` A)(tid := Some s)"
    by (auto simp: restrict_map_def fun_eq_iff)
  have "tables_ok V (sort_specs st) (show_names st) (T |` A)"
    using assms(1) by (simp add: current_on_of t)
  from tables_ok_put [OF this assms(2)] assms(3)
  show ?thesis unfolding current_on_of t by (simp only: prod.case eq)
qed

section \<open>Rendering a response makes every table current\<close>

lemma renderTrend_current:
  assumes "current_on A st"
  shows "current_on (insert ''days'' A) (renderTrend h cw ds st)"
proof -
  let ?st = "\<lambda>b d. set_hidden ''trend-section'' b (st\<lparr>chart_days := d\<rparr>)"
  have plain: "current_on (insert ''days'' A) (drop_table ''days'' ((?st b d)\<lparr>trend_panel := TrendText s\<rparr>))" for s b d
    by (rule current_on_text [OF assms]) (simp_all add: tables_of_panels)
  have sp: "sort_specs (?st b d) = sort_specs st" "show_names (?st b d) = show_names st" for b d
    by (simp_all add: set_defs)
  have chart: "current_on (insert ''days'' A) (put_view ''days'' (\<lambda>_. view) srts
      (drop_table ''days'' ((?st b d)\<lparr>trend_panel := TrendChart g xs e daily p\<rparr>)))"
    if "days_table (collate h) xs (sort_specs (?st b d)) = (srts, view, daily)" for b d g xs e daily p view srts
    by (rule current_on_table [OF assms days_table_result [OF that [unfolded sp]]])
      (simp add: tables_of_panels tables_of_put_view split: prod.split)
  show ?thesis
    unfolding renderTrend_def Let_def
    by (auto intro!: plain chart split: option.split list.split prod.split)
qed

lemma renderModels_current:
  assumes "current_on A st"
  shows "current_on (insert ''models'' A) (renderModels h ms st)"
proof -
  have plain: "current_on (insert ''models'' A) (drop_table ''models'' (st\<lparr>models_panel := Message s\<rparr>))" for s
    by (rule current_on_text [OF assms]) (simp_all add: tables_of_panels)
  have tab: "current_on (insert ''models'' A) (put_view ''models'' (\<lambda>_. view) srts
      (drop_table ''models'' (st\<lparr>models_panel := TablePanel s\<rparr>)))"
    if "models_table h xs (sort_specs st) = (srts, view, s)" for xs s view srts
    by (rule current_on_table [OF assms models_table_result [OF that]])
      (simp add: tables_of_panels tables_of_put_view split: prod.split)
  show ?thesis
    unfolding renderModels_def Let_def
    by (auto intro!: plain tab split: option.split list.split prod.split)
qed

lemma renderAccounts_current:
  assumes "current_on A st" and "''accounts'' \<notin> A"
  shows "current_on (insert ''accounts'' A) (renderAccounts h as st)"
proof -
  let ?st = "\<lambda>b. st\<lparr>has_aliases := b\<rparr>"
  have plain: "current_on (insert ''accounts'' A) (drop_table ''accounts'' ((?st b)\<lparr>accounts_panel := Message s\<rparr>))" for s b
    by (rule current_on_text [OF assms(1)]) (simp_all add: tables_of_panels assms(2))
  have tab: "current_on (insert ''accounts'' A) (put_view ''accounts'' view srts
      (drop_table ''accounts'' ((?st b)\<lparr>accounts_panel := TablePanel s\<rparr>)))"
    if "accounts_table h as (show_names st) (sort_specs st) = (srts, view, s)" for b s view srts
    by (rule current_on_table [OF assms(1) accounts_table_result [OF that]])
      (simp add: tables_of_panels tables_of_put_view split: prod.split)
  show ?thesis
    unfolding renderAccounts_def Let_def by (auto intro!: plain tab split: prod.split)
qed

lemma current_on_empty:
  "sorts_ok (sort_specs st) \<Longrightarrow> table_views st = Map.empty \<Longrightarrow> current_on {} st"
  by (simp add: current_on_def tables_ok_def)

lemma tables_of_update [simp]: "tables_of (updateAccounts as st) = tables_of st"
  by (simp add: updateAccounts_def Let_def split: option.split)

lemma tables_of_render [simp]:
  "tables_of (renderErrors st) = tables_of st" "tables_of (resetEvents s st) = tables_of st"
  "tables_of (renderEvents h p st) = tables_of st" "tables_of (setSyncing b st) = tables_of st"
  "tables_of (renderMetrics t st) = tables_of st" "tables_of (renderQuotas a st) = tables_of st"
  by (simp_all add: renderErrors_def resetEvents_def renderEvents_def setSyncing_def
      renderMetrics_def renderQuotas_def Let_def split: option.split)

lemma renderDashboard_current:
  assumes "sorts_ok (sort_specs st)" and "table_views st = Map.empty"
  shows "tables_current (fst (renderDashboard h cw data st))"
proof -
  let ?as = "case data of None \<Rightarrow> [] | Some d \<Rightarrow> (case accounts d of None \<Rightarrow> [] | Some as \<Rightarrow> as)"
  have "\<exists>st4. tables_of st4 = tables_of st \<and> fst (renderDashboard h cw data st) =
      renderAccounts h ?as (renderModels h (case data of None \<Rightarrow> None | Some d \<Rightarrow> by_model d)
        (renderTrend h cw (case data of None \<Rightarrow> None | Some d \<Rightarrow> days d) st4))"
    unfolding renderDashboard_def Let_def fst_conv by (intro exI conjI [rotated], rule refl) simp
  then obtain st4 where st4: "tables_of st4 = tables_of st"
    and eq: "fst (renderDashboard h cw data st) =
      renderAccounts h ?as (renderModels h (case data of None \<Rightarrow> None | Some d \<Rightarrow> by_model d)
        (renderTrend h cw (case data of None \<Rightarrow> None | Some d \<Rightarrow> days d) st4))" by blast
  have "current_on {} st4" using current_on_empty [OF assms] current_on_eq [OF st4] by simp
  then have "current_on {''accounts'', ''models'', ''days''} (fst (renderDashboard h cw data st))"
    unfolding eq by (intro renderAccounts_current renderModels_current renderTrend_current) simp_all
  then show ?thesis by (simp add: insert_commute flip: current_all)
qed

section \<open>Handlers\<close>

lemma table_text_replace:
  assumes "has_table tid st"
  shows "(\<lambda>t. table_text t (replace_table tid s st)) = (\<lambda>t. table_text t st)(tid := Some s)"
proof
  fix t
  have tid: "tid = ''accounts'' \<or> tid = ''models'' \<or> tid = ''days''"
    using assms by (auto simp: has_table_def split: if_splits)
  show "table_text t (replace_table tid s st) = ((\<lambda>t. table_text t st)(tid := Some s)) t"
    using tid
  proof (elim disjE)
    assume "tid = ''days''"
    moreover from this assms obtain g ds e d p where "trend_panel st = TrendChart g ds e d p"
      by (auto simp: has_table_def split: trend_view.splits)
    ultimately show ?thesis by (simp add: replace_table_def table_text_def)
  qed (simp_all add: replace_table_def table_text_def)
qed

lemma tables_ok_redraw:
  assumes ok: "tables_ok V S b T" and V: "V tid = Some v" and S': "sorts_ok S'"
    and other: "\<And>t. t \<noteq> tid \<Longrightarrow> S' t = S t" and b: "b' = b \<or> tid = ''accounts''"
  shows "tables_ok V S' b' (T(tid := Some (v b' S')))"
proof -
  have "w b' S' = w b S" if "V t = Some w" "t \<noteq> tid" for t w
  proof -
    have w: "view_of t w" using ok that(1) by (auto simp: tables_ok_def)
    have "w b' S' = w b' S" by (rule view_of_local [OF w]) (rule other [OF that(2)])
    also have "\<dots> = w b S" using view_of_names [OF w, of b' S b] b that(2) by auto
    finally show ?thesis .
  qed
  then have "\<exists>w. V t = Some w \<and> u = w b' S'" if "T t = Some u" "t \<noteq> tid" for t u
    using ok that unfolding tables_ok_def by metis
  then show ?thesis using ok V S' unfolding tables_ok_def by auto
qed

lemma current_view:
  assumes "tables_current st" and "has_table tid st"
  obtains v where "table_views st tid = Some v"
    and "table_text tid st = Some (v (show_names st) (sort_specs st))"
proof -
  obtain s where s: "table_text tid st = Some s" using assms(2) by (auto simp: has_table_text)
  then obtain v where "table_views st tid = Some v" "s = v (show_names st) (sort_specs st)"
    using assms(1) unfolding tables_current_def tables_ok_def by blast
  with s that show thesis by simp
qed

lemma sort_button_click_works:
  assumes cur: "tables_current st" and tab: "has_table tid st" and col: "col < table_width tid"
  shows "\<exists>v st'. table_views st tid = Some v
    \<and> sort_button_click tid col st = Some st'
    \<and> table_text tid st' = Some (v (show_names st) (click_sort tid col (sort_specs st)))
    \<and> (\<forall>t. t \<noteq> tid \<longrightarrow> table_text t st' = table_text t st)
    \<and> scroll_left st' = scroll_left st \<and> focus_in st' = focus_in st
    \<and> tables_current st'"
proof -
  let ?S = "click_sort tid col (sort_specs st)" and ?st = "st\<lparr>sort_specs := click_sort tid col (sort_specs st)\<rparr>"
  obtain v where v: "table_views st tid = Some v"
    by (rule current_view [OF cur tab])
  let ?st' = "replace_table tid (v (show_names st) ?S) ?st"
  have frame: "has_table t ?st = has_table t st" "table_text t ?st = table_text t st" for t
    by (simp_all add: has_table_def table_text_def)
  have r: "sort_button_click tid col st = Some ?st'"
    using v tab frame by (simp add: sort_button_click_def redrawTable_eq)
  have t: "(\<lambda>t. table_text t ?st') = (\<lambda>t. table_text t st)(tid := Some (v (show_names st) ?S))"
    using table_text_replace [of tid ?st] tab frame by simp
  have "sorts_ok ?S" using cur col by (simp add: tables_current_def tables_ok_def click_sort_ok)
  from tables_ok_redraw [OF cur [unfolded tables_current_def] v this, of "show_names st"]
  have "tables_current ?st'" by (simp add: tables_current_def t click_sort_other)
  moreover have "scroll_left ?st' = scroll_left st" "focus_in ?st' = focus_in st" by simp_all
  ultimately show ?thesis using v r fun_cong [OF t] by (intro exI [of _ v] exI [of _ ?st']) simp
qed

lemma current_frame:
  "tables_current (st\<lparr>label_text := l\<rparr>) = tables_current st"
  "tables_current (st\<lparr>chart_width := w\<rparr>) = tables_current st"
  by (simp_all add: tables_current_def table_text_def cong: if_cong)

lemma toggle_names_works:
  assumes "tables_current st"
  shows "\<exists>st'. toggle_names e st = Some st' \<and> tables_current st'
    \<and> (st' = st \<or> show_names st' = (\<not> show_names st))"
proof -
  let ?st = "st\<lparr>show_names := \<not> show_names st\<rparr>"
  have "\<exists>st1. redrawTable ''accounts'' ?st = Some st1 \<and> tables_current st1
      \<and> show_names st1 = (\<not> show_names st)"
    if v: "table_views st ''accounts'' = Some v" for v
  proof -
    have tab: "has_table ''accounts'' st"
      using assms v by (auto simp: tables_current_def tables_ok_def has_table_text)
    have frame: "has_table t ?st = has_table t st" "table_text t ?st = table_text t st" for t
      by (simp_all add: has_table_def table_text_def)
    let ?st1 = "replace_table ''accounts'' (v (\<not> show_names st) (sort_specs st)) ?st"
    have r: "redrawTable ''accounts'' ?st = Some ?st1"
      using v tab frame by (simp add: redrawTable_eq)
    have "(\<lambda>t. table_text t ?st1) = (\<lambda>t. table_text t st)(''accounts'' :=
        Some (v (\<not> show_names st) (sort_specs st)))"
      using table_text_replace [of "''accounts''" ?st] tab frame by simp
    moreover have "sorts_ok (sort_specs st)" using assms by (simp add: tables_current_def tables_ok_def)
    ultimately have "tables_current ?st1"
      using tables_ok_redraw [OF assms [unfolded tables_current_def] v, of "sort_specs st" "\<not> show_names st"]
      by (simp add: tables_current_def)
    then show ?thesis using r by simp
  qed
  note redraw = this
  show ?thesis
  proof (cases "table_views st ''accounts''")
    case None
    then show ?thesis using assms by (auto simp: toggle_names_def)
  next
    case (Some v)
    then obtain st1 where "redrawTable ''accounts'' ?st = Some st1" "tables_current st1"
      "show_names st1 = (\<not> show_names st)" using redraw by blast
    then show ?thesis
      using assms current_frame(1) by (simp add: toggle_names_def Some set_text_def)
  qed
qed

lemma resize_current: "tables_current st \<Longrightarrow> tables_current (resize h cw w st)"
  using renderTrend_current [of "{''days'', ''models'', ''accounts''}" "st\<lparr>chart_width := w\<rparr>" h cw]
  by (simp add: resize_def current_all current_frame Let_def split: option.split)

lemma has_table_of: "has_table tid st \<longleftrightarrow> (case tables_of st of (V, S, b, T) \<Rightarrow> T tid \<noteq> None)"
  by (simp add: has_table_text tables_of_def)

lemma has_table_same: "tables_of st = tables_of st' \<Longrightarrow> has_table tid st = has_table tid st'"
  by (simp add: has_table_of)

lemma renderAccounts_table: "has_table ''accounts'' (renderAccounts h as st) \<longleftrightarrow> as \<noteq> []"
  by (simp add: renderAccounts_def Let_def has_table_of tables_of_put_view tables_of_panels
      split: prod.split)

lemma renderDashboard_table:
  "accounts d = Some as \<Longrightarrow> has_table ''accounts'' (fst (renderDashboard h cw (Some d) st)) \<longleftrightarrow> as \<noteq> []"
  by (simp add: renderDashboard_def Let_def renderAccounts_table)

lemma table_text_input:
  "plot_input l e st = Some st' \<Longrightarrow> tables_of st' = tables_of st"
  "tables_of (toggle_daily st) = tables_of st"
  "tables_of (scroll_table tid x st) = tables_of st"
  "tables_of (move_focus f st) = tables_of st"
  by (auto simp: plot_input_def toggle_daily_def scroll_table_def move_focus_def tables_of_def
      table_text_def fun_eq_iff split: trend_view.splits cong: if_cong)

section \<open>The chart\<close>

text \<open>
  What the chart was drawn from: the days of the last response, its geometry, and the state
  of the plot, whose invariant is that of \<open>Plot\<close>.
\<close>

definition chart_of :: "page \<Rightarrow> day list option \<times> (geometry \<times> day list \<times> plot_state) option" where
  "chart_of st = (chart_days st, case trend_panel st of TrendText _ \<Rightarrow> None
     | TrendChart g ds _ _ p \<Rightarrow> Some (g, ds, p))"

definition chart_ok :: "page \<Rightarrow> bool" where
  "chart_ok st \<longleftrightarrow> (case chart_of st of (_, None) \<Rightarrow> True
     | (c, Some (g, ds, p)) \<Rightarrow> c = Some ds \<and> ds \<noteq> [] \<and> (\<exists>cw. g = chart_geometry cw ds) \<and> plot_ok g ds p)"

lemma chart_frame [simp]:
  "chart_of (set_markup k s st) = chart_of st" "chart_of (set_hidden k b st) = chart_of st"
  "chart_of (set_busy k b st) = chart_of st" "chart_of (set_disabled k b st) = chart_of st"
  "chart_of (set_text k s st) = chart_of st" "chart_of (drop_table tid st) = chart_of st"
  "chart_of (put_view tid v srts st) = chart_of st" "chart_of (replace_table tid s st) = chart_of st"
  by (simp_all add: chart_of_def set_defs drop_table_def put_view_def replace_table_def
      split: trend_view.split)

lemma chart_update [simp]:
  "chart_of (st\<lparr>models_panel := pn\<rparr>) = chart_of st" "chart_of (st\<lparr>accounts_panel := pn\<rparr>) = chart_of st"
  "chart_of (st\<lparr>has_aliases := b\<rparr>) = chart_of st" "chart_of (st\<lparr>metrics_single := b\<rparr>) = chart_of st"
  "chart_of (st\<lparr>show_names := b\<rparr>) = chart_of st" "chart_of (st\<lparr>sort_specs := ss\<rparr>) = chart_of st"
  "chart_of (st\<lparr>address := loc\<rparr>) = chart_of st" "chart_of (st\<lparr>event_errors := es\<rparr>) = chart_of st"
  "chart_of (st\<lparr>cur_page := n\<rparr>) = chart_of st" "chart_of (st\<lparr>syncing := b\<rparr>) = chart_of st"
  "chart_of (st\<lparr>shown_events := se\<rparr>) = chart_of st"
  "chart_of (st\<lparr>shown_events := se, cur_page := i, cur_total_pages := n\<rparr>) = chart_of st"
  "chart_of (st\<lparr>chart_width := w\<rparr>) = chart_of st" "chart_of (st\<lparr>period_value := v\<rparr>) = chart_of st"
  "chart_of (st\<lparr>cur_account := a, cur_period := v\<rparr>) = chart_of st"
  "chart_of (st\<lparr>account_options := os, account_value := v\<rparr>) = chart_of st"
  by (simp_all add: chart_of_def)

lemma chart_render [simp]:
  "chart_of (renderModels h ms st) = chart_of st" "chart_of (renderAccounts h as st) = chart_of st"
  "chart_of (renderErrors st) = chart_of st" "chart_of (renderEvents h d st) = chart_of st"
  "chart_of (resetEvents s st) = chart_of st" "chart_of (setSyncing b st) = chart_of st"
  by (simp_all add: renderModels_def renderAccounts_def renderErrors_def renderEvents_def
      resetEvents_def setSyncing_def Let_def split: option.split list.split prod.split)

lemma chart_ok_of: "chart_of st = chart_of st' \<Longrightarrow> chart_ok st = chart_ok st'"
  by (simp add: chart_ok_def)

lemma renderTrend_chart: "chart_ok (renderTrend h cw ds st)"
  by (auto simp: renderTrend_def Let_def chart_ok_def plot_init_ok split: option.split list.split prod.split)
    (auto simp: chart_of_def plot_init_ok set_defs)

lemma renderDashboard_chart: "chart_ok (fst (renderDashboard h cw data st))"
  using renderTrend_chart by (simp add: renderDashboard_def Let_def chart_ok_def)

lemma plot_input_chart: "chart_ok st \<Longrightarrow> plot_input l e st = Some st' \<Longrightarrow> chart_ok st'"
  by (auto simp: plot_input_def chart_ok_def chart_of_def intro: plot_step_ok split: trend_view.splits)

lemma chart_input [simp]:
  "chart_of (toggle_daily st) = chart_of st" "chart_of (scroll_table tid x st) = chart_of st"
  "chart_of (move_focus f st) = chart_of st"
  by (simp_all add: toggle_daily_def scroll_table_def move_focus_def chart_of_def split: trend_view.split)

lemma resize_chart: "chart_ok st \<Longrightarrow> chart_ok (resize h cw w st)"
  using chart_ok_of [OF chart_update(13)] renderTrend_chart
  by (auto simp: resize_def Let_def split: option.split)

section \<open>The selected account\<close>

definition account_selected :: "page \<Rightarrow> bool" where
  "account_selected st \<longleftrightarrow> account_value st = cur_account st
     \<and> cur_account st \<in> set (map snd (account_options st))"

lemma updateAccounts_selected: "account_selected (updateAccounts as st)"
proof (cases "find (\<lambda>a. to_lower (login a) = to_lower (cur_account st)) as")
  case (Some a)
  then have "a \<in> set as" by (auto simp: find_Some_iff)
  then show ?thesis
    using Some by (auto simp: account_selected_def updateAccounts_def Let_def select_value_def image_iff)
next
  case None
  then show ?thesis
    by (cases "cur_account st = []")
      (auto simp: account_selected_def updateAccounts_def Let_def select_value_def)
qed

lemma selectAccountOption_selected:
  "[] \<in> set (map snd (account_options st)) \<Longrightarrow> account_selected (selectAccountOption (cur_account st) st)"
  by (cases "cur_account st \<in> set (map snd (account_options st))"; cases "cur_account st = []")
    (simp_all add: account_selected_def selectAccountOption_def Let_def select_value_def)

lemma updateAccounts_account:
  "to_lower (cur_account (updateAccounts as st)) = to_lower (cur_account st)"
  by (auto simp: updateAccounts_def Let_def find_Some_iff split: option.split)

lemma selected_frame [simp]:
  "account_selected (set_markup k s st) = account_selected st"
  "account_selected (set_hidden k b st) = account_selected st"
  "account_selected (set_busy k b st) = account_selected st"
  "account_selected (set_disabled k b st) = account_selected st"
  "account_selected (set_text k s st) = account_selected st"
  "account_selected (drop_table tid st) = account_selected st"
  "account_selected (put_view tid v srts st) = account_selected st"
  "account_selected (st\<lparr>metrics_single := b\<rparr>) = account_selected st"
  "account_selected (st\<lparr>chart_days := ds\<rparr>) = account_selected st"
  "account_selected (st\<lparr>has_aliases := b\<rparr>) = account_selected st"
  "account_selected (st\<lparr>trend_panel := tv\<rparr>) = account_selected st"
  "account_selected (st\<lparr>models_panel := p\<rparr>) = account_selected st"
  "account_selected (st\<lparr>accounts_panel := p\<rparr>) = account_selected st"
  by (simp_all add: account_selected_def set_defs drop_table_def put_view_def)

lemma account_frame [simp]:
  "cur_account (set_markup k s st) = cur_account st" "cur_account (set_hidden k b st) = cur_account st"
  "cur_account (set_busy k b st) = cur_account st" "cur_account (set_disabled k b st) = cur_account st"
  "cur_account (set_text k s st) = cur_account st" "cur_account (drop_table tid st) = cur_account st"
  "cur_account (put_view tid v srts st) = cur_account st"
  by (simp_all add: set_defs drop_table_def put_view_def)

lemma render_account [simp]:
  "cur_account (renderMetrics t st) = cur_account st" "cur_account (renderQuotas a st) = cur_account st"
  "cur_account (renderTrend h cw ds st) = cur_account st"
  "cur_account (renderModels h ms st) = cur_account st"
  "cur_account (renderAccounts h as st) = cur_account st"
  "account_selected (renderMetrics t st) = account_selected st"
  "account_selected (renderQuotas a st) = account_selected st"
  "account_selected (renderTrend h cw ds st) = account_selected st"
  "account_selected (renderModels h ms st) = account_selected st"
  "account_selected (renderAccounts h as st) = account_selected st"
  by (simp_all add: renderMetrics_def renderQuotas_def renderTrend_def renderModels_def
      renderAccounts_def Let_def split: option.split list.split prod.split)

lemma renderDashboard_account:
  "account_selected (fst (renderDashboard h cw data st))"
  "to_lower (cur_account (fst (renderDashboard h cw data st))) = to_lower (cur_account st)"
proof -
  show "account_selected (fst (renderDashboard h cw data st))"
    by (simp add: renderDashboard_def Let_def updateAccounts_selected)
  have "cur_account (fst (renderDashboard h cw data st)) = cur_account (updateAccounts
      (case data of None \<Rightarrow> [] | Some d \<Rightarrow> (case accounts d of None \<Rightarrow> [] | Some as \<Rightarrow> as)) st)"
    by (simp add: renderDashboard_def Let_def)
  then show "to_lower (cur_account (fst (renderDashboard h cw data st))) = to_lower (cur_account st)"
    by (simp only: updateAccounts_account)
qed

end
