(* ===== verification/Requests.thy ===== *)
theory Requests
  imports Page_Invariant Systems
begin

text \<open>
  The requests of the page (\<open>web/app.js\<close>, lines 392 to 487, 524 to 531, 558 to 573 and 596
  to 597). An asynchronous function is a task that waits for the answer of its request; the
  state holds the module's controllers, the abort flags, the refresh counter and the tasks
  that are waiting. Answers arrive in any order, also after an abort.
\<close>

section \<open>One request\<close>

text \<open>
  What \<open>fetch\<close> and \<open>response.json\<close> give: a rejection, a response whose body is no JSON, or
  a parsed body (\<open>None\<close> when it is falsy) with its \<open>errors\<close> (\<open>None\<close> when not an array) and
  its \<open>data\<close> (\<open>None\<close> when the key is absent, \<open>Some None\<close> when it is null).
\<close>

record 'd body =
  body_errors :: "failure list option"
  body_data :: "'d option option"

datatype 'd fetched = Rejected | NotJSON nat | Parsed nat "'d body option"

record 'd result =
  result_data :: "'d option"
  result_errors :: "failure list"

definition ok_status :: "nat \<Rightarrow> bool" where
  "ok_status n \<longleftrightarrow> 200 \<le> n \<and> n \<le> 299"

definition failed :: "string \<Rightarrow> string \<Rightarrow> string \<Rightarrow> 'd result" where
  "failed who what why =
     \<lparr>result_data = None, result_errors = [\<lparr>target = who, operation = what, message = why\<rparr>]\<rparr>"

definition operation_name :: "string \<Rightarrow> string" where
  "operation_name path = last (split_on (CHR ''/'') path)"

text \<open>The result of \<open>request\<close>; \<open>None\<close> when it throws, which it does only after an abort.\<close>

definition request :: "string \<Rightarrow> string \<Rightarrow> bool \<Rightarrow> 'd fetched \<Rightarrow> 'd result option" where
  "request who path aborted f =
     (let what = operation_name path in
      case f of
        Rejected \<Rightarrow> if aborted then None else Some (failed who what ''Network request failed'')
      | NotJSON n \<Rightarrow> if aborted then None
          else Some (failed who what (''Invalid JSON response (HTTP '' @ digits n @ '')''))
      | Parsed n b \<Rightarrow>
          let invalid = failed who what (''Invalid response (HTTP '' @ digits n @ '')'')
          in Some (case b of None \<Rightarrow> invalid
            | Some r \<Rightarrow>
              (case (body_errors r, body_data r) of
                 (Some es, Some d) \<Rightarrow>
                   if \<not> ok_status n \<and> es = [] then failed who what (''Request returned HTTP '' @ digits n)
                   else \<lparr>result_data = d, result_errors = es\<rparr>
               | _ \<Rightarrow> invalid)))"

section \<open>Tasks and sessions\<close>

datatype task_kind =
    AwaitSync params             \<comment> \<open>the query of the dashboard request that follows\<close>
  | AwaitDashboard "failure list"  \<comment> \<open>the errors of the sync\<close>
  | AwaitEvents

record task =
  kind :: task_kind
  t_id :: nat
  t_ctl :: nat
  t_target :: string
  t_query :: params

record session =
  pg :: page
  refresh_id :: nat
  dash_ctl :: "nat option"
  events_ctl :: "nat option"
  next_ctl :: nat
  aborted :: "nat \<Rightarrow> bool"
  pending :: "task list"

definition on_page :: "(page \<Rightarrow> page) \<Rightarrow> session \<Rightarrow> session" where
  "on_page f s = s\<lparr>pg := f (pg s)\<rparr>"

definition abort :: "nat option \<Rightarrow> session \<Rightarrow> session" where
  "abort c s = (case c of None \<Rightarrow> s | Some i \<Rightarrow> s\<lparr>aborted := (aborted s)(i := True)\<rparr>)"

definition request_target :: "session \<Rightarrow> string" where
  "request_target s = (if cur_account (pg s) = [] then ''Dashboard'' else cur_account (pg s))"

definition send :: "task_kind \<Rightarrow> nat \<Rightarrow> nat \<Rightarrow> params \<Rightarrow> session \<Rightarrow> session" where
  "send k i c q s = s\<lparr>pending := pending s
     @ [\<lparr>kind = k, t_id = i, t_ctl = c, t_target = request_target s, t_query = q\<rparr>]\<rparr>"

definition int_string :: "int \<Rightarrow> string" where
  "int_string n = number_to_string (Fin (of_int n))"

definition events_query :: "page \<Rightarrow> params" where
  "events_query p = [(''account'', cur_account p), (''period'', cur_period p),
     (''page'', int_string (cur_page p)), (''page_size'', ''20'')]"

definition loadEvents :: "session \<Rightarrow> session" where
  "loadEvents s =
     (let s1 = abort (events_ctl s) s; c = next_ctl s1;
          s2 = s1\<lparr>next_ctl := Suc c, events_ctl := Some c\<rparr>;
          s3 = on_page (set_busy ''events'' True) s2
      in send AwaitEvents (refresh_id s3) c (events_query (pg s3)) s3)"

definition dashboard_query :: "page \<Rightarrow> params" where
  "dashboard_query p =
     (let query = [(''period'', cur_period p)]
      in if cur_account p \<noteq> [] then query_set query ''account'' (cur_account p) else query)"

definition sync_query :: "page \<Rightarrow> params" where
  "sync_query p = (if cur_account p \<noteq> [] then query_set [] ''account'' (cur_account p) else [])"

definition start_refresh :: "bool \<Rightarrow> page \<Rightarrow> page" where
  "start_refresh sync p =
     set_text ''announcement'' ((if sync then ''Syncing usage'' else ''Loading usage'') @ ellipsis)
       (setSyncing sync
         (set_disabled ''next'' True (set_disabled ''previous'' True
           (set_busy ''events'' True (set_busy ''content'' True (p\<lparr>cur_page := 1\<rparr>))))))"

definition refresh :: "bool \<Rightarrow> session \<Rightarrow> session" where
  "refresh sync s =
     (let s1 = abort (events_ctl s) (abort (dash_ctl s) s); c = next_ctl s1;
          s2 = s1\<lparr>next_ctl := Suc c, dash_ctl := Some c, refresh_id := Suc (refresh_id s1)\<rparr>;
          s3 = on_page (start_refresh sync) s2; i = refresh_id s3; query = dashboard_query (pg s3)
      in if sync then send (AwaitSync query) i c (sync_query (pg s3)) s3
         else send (AwaitDashboard []) i c query s3)"

section \<open>Answers\<close>

definition path_of :: "task_kind \<Rightarrow> string" where
  "path_of k = (case k of AwaitSync _ \<Rightarrow> ''api/v1/sync'' | AwaitDashboard _ \<Rightarrow> ''api/v1/dashboard''
     | AwaitEvents \<Rightarrow> ''api/v1/events'')"

definition answer_of :: "task \<Rightarrow> session \<Rightarrow> 'd fetched \<Rightarrow> 'd result option" where
  "answer_of t s f = request (t_target t) (path_of (kind t)) (aborted s (t_ctl t)) f"

definition live :: "session \<Rightarrow> task \<Rightarrow> bool" where
  "live s t \<longleftrightarrow> t_id t = refresh_id s \<and> \<not> aborted s (t_ctl t)"

text \<open>The \<open>finally\<close> blocks.\<close>

definition refresh_finally :: "task \<Rightarrow> session \<Rightarrow> session" where
  "refresh_finally t s = (if live s t
     then on_page (\<lambda>p. setSyncing False (set_busy ''content'' False p)) s else s)"

definition events_finally :: "task \<Rightarrow> session \<Rightarrow> session" where
  "events_finally t s = (if live s t then on_page (set_busy ''events'' False) s else s)"

definition resume_sync :: "task \<Rightarrow> params \<Rightarrow> unit fetched \<Rightarrow> session \<Rightarrow> session" where
  "resume_sync t query f s =
     (case answer_of t s f of None \<Rightarrow> refresh_finally t s
      | Some r \<Rightarrow> if \<not> live s t then refresh_finally t s
          else send (AwaitDashboard (result_errors r)) (t_id t) (t_ctl t) query s)"

text \<open>The address of an account whose login has another case is corrected.\<close>

definition correct_address :: "page \<Rightarrow> page" where
  "correct_address p =
     (let ps = parse (search (address p))
      in case query_get ps ''account'' of None \<Rightarrow> p
        | Some a \<Rightarrow> if a \<noteq> [] \<and> a \<noteq> cur_account p \<and> to_lower a = to_lower (cur_account p)
            then p\<lparr>address := (address p)\<lparr>search := serialize (query_set ps ''account'' (cur_account p))\<rparr>\<rparr>
            else p)"

definition loaded_text :: "failure list \<Rightarrow> string" where
  "loaded_text es = (if es \<noteq> [] then ''Usage loaded with data source errors listed below.''
     else ''Usage loaded.'')"

definition show_dashboard ::
  "host \<Rightarrow> jsnum \<Rightarrow> failure list \<Rightarrow> dashboard result \<Rightarrow> page \<Rightarrow> page \<times> bool" where
  "show_dashboard h clientWidth sync_errors r p =
     (let p1 = p\<lparr>dashboard_errors := sync_errors @ result_errors r, event_errors := [],
            table_views := Map.empty\<rparr>;
          (p2, found) = renderDashboard h clientWidth (result_data r) p1;
          p3 = renderErrors (correct_address p2);
          p4 = set_text ''announcement'' (loaded_text (dashboard_errors p3)) p3;
          p5 = (if cur_account p4 \<noteq> [] \<and> shown_events p4 \<noteq> Some (cur_account p4, cur_period p4)
            then resetEvents (''Loading events'' @ ellipsis) p4 else p4);
          p6 = set_hidden ''events-section'' (cur_account p5 = []) p5
      in (p6, found))"

definition resume_dashboard ::
  "host \<Rightarrow> jsnum \<Rightarrow> task \<Rightarrow> failure list \<Rightarrow> dashboard fetched \<Rightarrow> session \<Rightarrow> session" where
  "resume_dashboard h clientWidth t sync_errors f s =
     (case answer_of t s f of None \<Rightarrow> refresh_finally t s
      | Some r \<Rightarrow> if \<not> live s t then refresh_finally t s
          else
            let (p, found) = show_dashboard h clientWidth sync_errors r (pg s);
                s1 = s\<lparr>pg := p\<rparr>
            in refresh_finally t
                (if cur_account p \<noteq> [] \<and> found then loadEvents s1
                 else on_page (resetEvents em_dash) s1))"

definition events_text :: "events_page option \<Rightarrow> string" where
  "events_text d = (case d of None \<Rightarrow> ''Events request failed.''
     | Some x \<Rightarrow> ''Events page '' @ int_string (page_index x) @ '' loaded.'')"

definition show_events :: "host \<Rightarrow> events_page result \<Rightarrow> page \<Rightarrow> page" where
  "show_events h r p = set_text ''announcement'' (events_text (result_data r))
     (renderErrors (renderEvents h (result_data r) (p\<lparr>event_errors := result_errors r\<rparr>)))"

definition resume_events :: "host \<Rightarrow> task \<Rightarrow> events_page fetched \<Rightarrow> session \<Rightarrow> session" where
  "resume_events h t f s =
     (case answer_of t s f of None \<Rightarrow> events_finally t s
      | Some r \<Rightarrow> if \<not> live s t then events_finally t s
          else events_finally t (on_page (show_events h r) s))"

definition take_task :: "nat \<Rightarrow> session \<Rightarrow> session" where
  "take_task i s = s\<lparr>pending := take i (pending s) @ drop (Suc i) (pending s)\<rparr>"

section \<open>Handlers\<close>

definition push_filters :: "string \<Rightarrow> string \<Rightarrow> page \<Rightarrow> page" where
  "push_filters acc p st =
     (let st1 = select_period p (selectAccountOption acc (st\<lparr>cur_account := acc, cur_period := p\<rparr>))
      in st1\<lparr>address := filterURL (address st1) (cur_account st1) (cur_period st1)\<rparr>)"

definition selectFilters :: "string \<Rightarrow> string \<Rightarrow> session \<Rightarrow> session" where
  "selectFilters acc p s = refresh False (on_page (push_filters acc p) s)"

definition submit :: "session \<Rightarrow> session" where
  "submit s = (if \<not> syncing (pg s) then refresh True s else s)"

definition choose_account :: "string \<Rightarrow> session \<Rightarrow> session" where
  "choose_account v s = (let s1 = on_page (\<lambda>p. p\<lparr>account_value := v\<rparr>) s
     in selectFilters (account_value (pg s1)) (cur_period (pg s1)) s1)"

definition choose_period :: "string \<Rightarrow> session \<Rightarrow> session" where
  "choose_period v s = (let s1 = on_page (\<lambda>p. p\<lparr>period_value := v\<rparr>) s
     in selectFilters (cur_account (pg s1)) (period_value (pg s1)) s1)"

definition popstate :: "location \<Rightarrow> session \<Rightarrow> session" where
  "popstate loc s =
     (let s1 = on_page (\<lambda>p. p\<lparr>address := loc\<rparr>) s; f = locationFilters loc
      in if to_lower (f_account f) = to_lower (cur_account (pg s1)) \<and> f_period f = cur_period (pg s1)
         then s1 else refresh False (on_page (\<lambda>p. fst (readLocation p)) s1))"

definition turn_page :: "int \<Rightarrow> session \<Rightarrow> session" where
  "turn_page d s = loadEvents (on_page (\<lambda>p. p\<lparr>cur_page := cur_page p + d\<rparr>) s)"

definition previous_page :: "session \<Rightarrow> session" where
  "previous_page s = (if 1 < cur_page (pg s) then turn_page (- 1) s else s)"

definition next_page :: "session \<Rightarrow> session" where
  "next_page s = (if cur_page (pg s) < cur_total_pages (pg s) then turn_page 1 s else s)"

section \<open>Start\<close>

definition initial_hidden :: "string \<Rightarrow> bool" where
  "initial_hidden k \<longleftrightarrow> k \<in> {''errors-alert'', ''identity'', ''quotas'', ''events-section'', ''errors-section''}"

text \<open>The page as \<open>index.html\<close> and the module's declarations give it.\<close>

definition initial_page :: "location \<Rightarrow> page" where
  "initial_page loc =
     \<lparr>cur_account = [], cur_period = defaultPeriod, cur_page = 1, cur_total_pages = 1,
      dashboard_errors = [], event_errors = [], show_names = False, chart_days = None,
      chart_width = 0, has_aliases = False, shown_events = None, table_views = Map.empty,
      sort_specs = initial_sorts,
      markup = (\<lambda>k. if k = ''metrics'' then empty (''Loading usage'' @ ellipsis) else []),
      hidden = initial_hidden, busy = (\<lambda>k. k = ''content''),
      disabled = (\<lambda>k. k = ''previous'' \<or> k = ''next''), label_text = (\<lambda>_. []), syncing = False,
      metrics_single = False, trend_panel = TrendText (empty (''Loading daily usage'' @ ellipsis)),
      models_panel = Message (empty (''Loading models'' @ ellipsis)),
      accounts_panel = Message (empty (''Loading accounts'' @ ellipsis)), scroll_left = (\<lambda>_. 0), focus_in = None,
      account_options = [(''All accounts'', [])], account_value = [],
      period_value = defaultPeriod, address = loc\<rparr>"

definition load_page :: "location \<Rightarrow> session" where
  "load_page loc =
     (let (p, valid) = readLocation (initial_page loc);
          p1 = (if valid then p
            else p\<lparr>address := filterURL (address p) (cur_account p) (cur_period p)\<rparr>)
      in refresh False \<lparr>pg = p1, refresh_id = 0, dash_ctl = None, events_ctl = None, next_ctl = 0,
           aborted = (\<lambda>_. False), pending = []\<rparr>)"

end
