(* ===== verification/Control.thy ===== *)
theory Control
  imports Requests
begin

text \<open>
  The concurrency of the requests: the step relation of the session over user actions and
  answers in any order, and its invariant. At most one task is live; what it asks for is
  the account, the period and the page that are selected; the busy flags and the lock of
  the refresh button say exactly whether it exists.
\<close>

section \<open>Steps\<close>

inductive session_step :: "host \<Rightarrow> session \<Rightarrow> session \<Rightarrow> bool" for h where
  submit: "session_step h s (submit s)"
| account: "v \<in> set (map snd (account_options (pg s))) \<Longrightarrow> session_step h s (choose_account v s)"
| period: "v \<in> set periods \<Longrightarrow> session_step h s (choose_period v s)"
| history: "session_step h s (popstate loc s)"
| previous: "\<not> disabled (pg s) ''previous'' \<Longrightarrow> session_step h s (previous_page s)"
| next_page: "\<not> disabled (pg s) ''next'' \<Longrightarrow> session_step h s (next_page s)"
| sort: "has_table tid (pg s) \<Longrightarrow> col < table_width tid \<Longrightarrow>
    sort_button_click tid col (pg s) = Some p \<Longrightarrow> session_step h s (s\<lparr>pg := p\<rparr>)"
| names: "toggle_names e (pg s) = Some p \<Longrightarrow> session_step h s (s\<lparr>pg := p\<rparr>)"
| resized: "session_step h s (on_page (resize h cw w) s)"
| inspected: "plot_input l pe (pg s) = Some p \<Longrightarrow> session_step h s (s\<lparr>pg := p\<rparr>)"
| toggled: "session_step h s (on_page toggle_daily s)"
| scrolled: "has_table tid (pg s) \<Longrightarrow> session_step h s (on_page (scroll_table tid x) s)"
| focused: "(\<And>tid c. fc = Some (tid, c) \<Longrightarrow> has_table tid (pg s)) \<Longrightarrow>
    session_step h s (on_page (move_focus fc) s)"
| synced: "i < length (pending s) \<Longrightarrow> pending s ! i = t \<Longrightarrow> kind t = AwaitSync q \<Longrightarrow>
    session_step h s (resume_sync t q f (take_task i s))"
| loaded: "i < length (pending s) \<Longrightarrow> pending s ! i = t \<Longrightarrow> kind t = AwaitDashboard es \<Longrightarrow>
    session_step h s (resume_dashboard h cw t es f (take_task i s))"
| paged: "i < length (pending s) \<Longrightarrow> pending s ! i = t \<Longrightarrow> kind t = AwaitEvents \<Longrightarrow>
    session_step h s (resume_events h t f (take_task i s))"

inductive_cases session_stepE: "session_step h s s'"

definition started :: "session \<Rightarrow> bool" where
  "started s \<longleftrightarrow> (\<exists>loc. s = load_page loc)"

section \<open>Controllers and tasks\<close>

definition refresh_task :: "task \<Rightarrow> bool" where
  "refresh_task t \<longleftrightarrow> kind t \<noteq> AwaitEvents"

definition controllers_ok :: "session \<Rightarrow> bool" where
  "controllers_ok s \<longleftrightarrow>
     (\<forall>t \<in> set (pending s). t_id t \<le> refresh_id s \<and> t_ctl t < next_ctl s)
     \<and> distinct (map t_ctl (pending s))
     \<and> (\<forall>c. aborted s c \<longrightarrow> c < next_ctl s)
     \<and> (\<forall>c. dash_ctl s = Some c \<longrightarrow> c < next_ctl s \<and> events_ctl s \<noteq> Some c)
     \<and> (\<forall>c. events_ctl s = Some c \<longrightarrow> c < next_ctl s)
     \<and> (\<forall>t \<in> set (pending s). live s t \<longrightarrow>
          (if refresh_task t then dash_ctl s = Some (t_ctl t) else events_ctl s = Some (t_ctl t)))"

definition lives :: "session \<Rightarrow> task list" where
  "lives s = filter (live s) (pending s)"

lemma live_fun: "live s = (\<lambda>t. t_id t = refresh_id s \<and> \<not> aborted s (t_ctl t))"
  by (rule ext) (simp add: live_def)

lemma live_simps [simp]:
  "live (on_page f s) t = live s t" "live (take_task i s) t = live s t"
  "live (s\<lparr>pg := p\<rparr>) t = live s t" "live (send k i c q s) t = live s t"
  by (simp_all add: live_def on_page_def take_task_def send_def)

lemma controllers_page [simp]:
  "controllers_ok (on_page f s) = controllers_ok s" "controllers_ok (s\<lparr>pg := p\<rparr>) = controllers_ok s"
  "lives (on_page f s) = lives s" "lives (s\<lparr>pg := p\<rparr>) = lives s"
  by (simp_all add: controllers_ok_def lives_def on_page_def live_fun)

lemma take_task_split:
  assumes "i < length (pending s)"
  shows "pending s = take i (pending s) @ (pending s ! i) # drop (Suc i) (pending s)"
  using assms by (rule id_take_nth_drop)

lemma controllers_take:
  assumes "controllers_ok s" and "i < length (pending s)"
  shows "controllers_ok (take_task i s)" and "t_ctl (pending s ! i) \<notin> t_ctl ` set (pending (take_task i s))"
proof -
  note split = take_task_split [OF assms(2)]
  have sub: "set (pending (take_task i s)) \<subseteq> set (pending s)"
    by (auto simp: take_task_def dest: in_set_takeD in_set_dropD)
  have d: "distinct (map t_ctl (take i (pending s) @ pending s ! i # drop (Suc i) (pending s)))"
    using assms(1) unfolding split [symmetric] by (simp add: controllers_ok_def)
  then show "t_ctl (pending s ! i) \<notin> t_ctl ` set (pending (take_task i s))"
    by (auto simp: take_task_def)
  have "distinct (map t_ctl (pending (take_task i s)))" using d by (simp add: take_task_def)
  then show "controllers_ok (take_task i s)"
    using assms(1) sub unfolding controllers_ok_def
    by (auto simp: take_task_def live_def dest: in_set_takeD in_set_dropD)
qed

lemma lives_take:
  assumes "i < length (pending s)"
  shows "\<not> live s (pending s ! i) \<Longrightarrow> lives (take_task i s) = lives s"
    and "live s (pending s ! i) \<Longrightarrow> lives s = [t] \<Longrightarrow> lives (take_task i s) = [] \<and> t = pending s ! i"
proof -
  have "lives s = filter (live s) (take i (pending s) @ (pending s ! i) # drop (Suc i) (pending s))"
    unfolding lives_def by (subst take_task_split [OF assms]) (rule refl)
  then have split: "lives s = filter (live s) (take i (pending s))
      @ (if live s (pending s ! i) then [pending s ! i] else []) @ filter (live s) (drop (Suc i) (pending s))"
    by simp
  have take: "lives (take_task i s) = filter (live s) (take i (pending s)) @ filter (live s) (drop (Suc i) (pending s))"
    by (simp add: lives_def take_task_def live_fun)
  show "\<not> live s (pending s ! i) \<Longrightarrow> lives (take_task i s) = lives s" using split take by simp
  show "lives (take_task i s) = [] \<and> t = pending s ! i" if "live s (pending s ! i)" "lives s = [t]"
    using split take that by (auto simp: append_eq_Cons_conv Cons_eq_append_conv)
qed

section \<open>Sending\<close>

text \<open>A refresh leaves its own task as the only live one.\<close>

definition first_task :: "bool \<Rightarrow> session \<Rightarrow> task" where
  "first_task sync s =
     (let p = pg s; who = request_target s
      in \<lparr>kind = (if sync then AwaitSync (dashboard_query p) else AwaitDashboard []),
          t_id = Suc (refresh_id s), t_ctl = next_ctl s, t_target = who,
          t_query = (if sync then sync_query p else dashboard_query p)\<rparr>)"

lemma start_refresh_filters [simp]:
  "cur_account (start_refresh b p) = cur_account p" "cur_period (start_refresh b p) = cur_period p"
  "cur_page (start_refresh b p) = 1" "shown_events (start_refresh b p) = shown_events p"
  "disabled (start_refresh b p) ''previous''" "disabled (start_refresh b p) ''next''"
  "busy (start_refresh b p) ''content''" "busy (start_refresh b p) ''events''"
  "syncing (start_refresh b p) = b"
  by (simp_all add: start_refresh_def set_defs setSyncing_def)

lemma queries_filters:
  "cur_account p = cur_account p' \<Longrightarrow> cur_period p = cur_period p' \<Longrightarrow> dashboard_query p = dashboard_query p'"
  "cur_account p = cur_account p' \<Longrightarrow> sync_query p = sync_query p'"
  by (simp_all add: dashboard_query_def sync_query_def Let_def)

lemma abort_simps [simp]:
  "pg (abort c s) = pg s" "pending (abort c s) = pending s" "refresh_id (abort c s) = refresh_id s"
  "next_ctl (abort c s) = next_ctl s" "dash_ctl (abort c s) = dash_ctl s"
  "events_ctl (abort c s) = events_ctl s"
  "aborted (abort c s) = (\<lambda>i. aborted s i \<or> c = Some i)"
  by (auto simp: abort_def split: option.split)

lemma refresh_result:
  "pg (refresh sync s) = start_refresh sync (pg s)"
  "pending (refresh sync s) = pending s @ [first_task sync s]"
  "refresh_id (refresh sync s) = Suc (refresh_id s)"
  "next_ctl (refresh sync s) = Suc (next_ctl s)"
  "dash_ctl (refresh sync s) = Some (next_ctl s)"
  "events_ctl (refresh sync s) = events_ctl s"
  "aborted (refresh sync s) = (\<lambda>i. aborted s i \<or> dash_ctl s = Some i \<or> events_ctl s = Some i)"
proof -
  have q: "dashboard_query (start_refresh b p) = dashboard_query p"
    "sync_query (start_refresh b p) = sync_query p" for b p
    by (simp_all add: dashboard_query_def sync_query_def Let_def)
  show "pg (refresh sync s) = start_refresh sync (pg s)"
    "pending (refresh sync s) = pending s @ [first_task sync s]"
    "refresh_id (refresh sync s) = Suc (refresh_id s)"
    "next_ctl (refresh sync s) = Suc (next_ctl s)"
    "dash_ctl (refresh sync s) = Some (next_ctl s)"
    "events_ctl (refresh sync s) = events_ctl s"
    "aborted (refresh sync s) = (\<lambda>i. aborted s i \<or> dash_ctl s = Some i \<or> events_ctl s = Some i)"
    by (auto simp: refresh_def Let_def send_def on_page_def first_task_def request_target_def q)
qed

lemma refresh_controllers:
  assumes ok: "controllers_ok s"
  shows "lives (refresh sync s) = [first_task sync s]" and "controllers_ok (refresh sync s)"
proof -
  have old: "\<not> live (refresh sync s) t" if "t \<in> set (pending s)" for t
    using ok that by (auto simp: controllers_ok_def live_def refresh_result)
  have new: "live (refresh sync s) (first_task sync s)"
    using ok by (auto simp: controllers_ok_def live_def refresh_result first_task_def Let_def)
  show "lives (refresh sync s) = [first_task sync s]"
    using old new by (simp add: lives_def refresh_result filter_False)
  have "t_ctl (first_task sync s) = next_ctl s" "t_id (first_task sync s) = Suc (refresh_id s)"
    "refresh_task (first_task sync s)"
    by (simp_all add: first_task_def Let_def refresh_task_def)
  then show "controllers_ok (refresh sync s)"
    using ok old unfolding controllers_ok_def
    by (auto simp: refresh_result less_Suc_eq dest: order.strict_trans)
qed

text \<open>Loading a page of events leaves its task as the only live one, unless a refresh is.\<close>

definition events_task :: "session \<Rightarrow> task" where
  "events_task s = \<lparr>kind = AwaitEvents, t_id = refresh_id s, t_ctl = next_ctl s,
     t_target = request_target s, t_query = events_query (pg s)\<rparr>"

lemma loadEvents_result:
  "pg (loadEvents s) = set_busy ''events'' True (pg s)"
  "pending (loadEvents s) = pending s @ [events_task s]"
  "refresh_id (loadEvents s) = refresh_id s"
  "next_ctl (loadEvents s) = Suc (next_ctl s)"
  "dash_ctl (loadEvents s) = dash_ctl s"
  "events_ctl (loadEvents s) = Some (next_ctl s)"
  "aborted (loadEvents s) = (\<lambda>i. aborted s i \<or> events_ctl s = Some i)"
proof -
  have q: "events_query (set_busy k b p) = events_query p" for k b p
    by (simp add: events_query_def set_defs)
  show "pg (loadEvents s) = set_busy ''events'' True (pg s)"
    "pending (loadEvents s) = pending s @ [events_task s]"
    "refresh_id (loadEvents s) = refresh_id s"
    "next_ctl (loadEvents s) = Suc (next_ctl s)"
    "dash_ctl (loadEvents s) = dash_ctl s"
    "events_ctl (loadEvents s) = Some (next_ctl s)"
    "aborted (loadEvents s) = (\<lambda>i. aborted s i \<or> events_ctl s = Some i)"
    by (auto simp: loadEvents_def Let_def send_def on_page_def events_task_def request_target_def q)
qed

lemma loadEvents_controllers:
  assumes ok: "controllers_ok s" and idle: "\<And>t. t \<in> set (lives s) \<Longrightarrow> \<not> refresh_task t"
  shows "lives (loadEvents s) = [events_task s]" and "controllers_ok (loadEvents s)"
proof -
  have old: "\<not> live (loadEvents s) t" if t: "t \<in> set (pending s)" for t
  proof (cases "live s t")
    case True
    then have "\<not> refresh_task t" using idle t by (simp add: lives_def)
    then have "events_ctl s = Some (t_ctl t)" using ok t True by (auto simp: controllers_ok_def)
    then show ?thesis by (simp add: live_def loadEvents_result)
  next
    case False
    then show ?thesis by (auto simp: live_def loadEvents_result)
  qed
  have new: "live (loadEvents s) (events_task s)"
    using ok by (auto simp: controllers_ok_def live_def loadEvents_result events_task_def)
  show "lives (loadEvents s) = [events_task s]"
    using old new by (simp add: lives_def loadEvents_result filter_False)
  have "t_ctl (events_task s) = next_ctl s" "t_id (events_task s) = refresh_id s"
    "\<not> refresh_task (events_task s)"
    by (simp_all add: events_task_def refresh_task_def)
  then show "controllers_ok (loadEvents s)"
    using ok old unfolding controllers_ok_def
    by (auto simp: loadEvents_result less_Suc_eq dest: order.strict_trans)
qed

section \<open>The phase of a session\<close>

text \<open>
  No task is live and nothing is busy; or a refresh is in flight, everything is busy and
  the paging buttons are disabled; or a page of events is being loaded. What is in flight
  asks for what is selected, and the events on the page are those of the selection unless
  a refresh is in flight.
\<close>

definition events_current :: "page \<Rightarrow> bool" where
  "events_current p \<longleftrightarrow> shown_events p = None \<or> shown_events p = Some (cur_account p, cur_period p)"

definition idle_page :: "page \<Rightarrow> bool" where
  "idle_page p \<longleftrightarrow> \<not> busy p ''content'' \<and> \<not> busy p ''events'' \<and> \<not> syncing p \<and> events_current p"

definition waiting :: "task \<Rightarrow> page \<Rightarrow> bool" where
  "waiting t p \<longleftrightarrow> busy p ''events'' \<and>
     (case kind t of
        AwaitSync q \<Rightarrow> busy p ''content'' \<and> disabled p ''previous'' \<and> disabled p ''next''
          \<and> q = dashboard_query p \<and> t_query t = sync_query p
      | AwaitDashboard _ \<Rightarrow> busy p ''content'' \<and> disabled p ''previous'' \<and> disabled p ''next''
          \<and> t_query t = dashboard_query p
      | AwaitEvents \<Rightarrow> \<not> busy p ''content'' \<and> \<not> syncing p \<and> events_current p
          \<and> t_query t = events_query p)"

definition phase_ok :: "session \<Rightarrow> bool" where
  "phase_ok s \<longleftrightarrow> (case lives s of [] \<Rightarrow> idle_page (pg s) | [t] \<Rightarrow> waiting t (pg s) | _ \<Rightarrow> False)"

definition control_ok :: "session \<Rightarrow> bool" where
  "control_ok s \<longleftrightarrow> controllers_ok s \<and> phase_ok s \<and> cur_period (pg s) \<in> set periods"

lemma phase_cases:
  assumes "phase_ok s"
  obtains "lives s = []" and "idle_page (pg s)" | t where "lives s = [t]" and "waiting t (pg s)"
  using assms by (auto simp: phase_ok_def split: list.splits)

lemma refresh_control:
  assumes "controllers_ok s" and "cur_period (pg s) \<in> set periods"
  shows "control_ok (refresh sync s)"
proof -
  have "waiting (first_task sync s) (start_refresh sync (pg s))"
    by (simp add: waiting_def first_task_def Let_def dashboard_query_def sync_query_def)
  then show ?thesis
    using assms refresh_controllers [OF assms(1), of sync]
    by (simp add: control_ok_def phase_ok_def refresh_result)
qed

lemma loadEvents_control:
  assumes "controllers_ok s" and "cur_period (pg s) \<in> set periods"
    and "\<And>t. t \<in> set (lives s) \<Longrightarrow> \<not> refresh_task t"
    and "\<not> busy (pg s) ''content''" and "\<not> syncing (pg s)" and "events_current (pg s)"
  shows "control_ok (loadEvents s)"
proof -
  have "waiting (events_task s) (set_busy ''events'' True (pg s))"
    using assms(4-6) by (simp add: waiting_def events_task_def set_defs events_current_def events_query_def)
  then show ?thesis
    using assms(2) loadEvents_controllers [OF assms(1,3)]
    by (simp add: control_ok_def phase_ok_def loadEvents_result set_defs)
qed

text \<open>Changes of the page that the requests do not see.\<close>

definition control_view where
  "control_view p = (cur_account p, cur_period p, cur_page p, busy p ''content'', busy p ''events'',
     disabled p ''previous'', disabled p ''next'', syncing p, shown_events p)"

lemma waiting_view: "control_view p = control_view p' \<Longrightarrow> waiting t p = waiting t p'"
  by (cases "kind t") (simp_all add: control_view_def waiting_def events_current_def
      dashboard_query_def sync_query_def events_query_def Let_def)

lemma idle_view: "control_view p = control_view p' \<Longrightarrow> idle_page p = idle_page p'"
  by (simp add: control_view_def idle_page_def events_current_def)

lemma control_frame:
  assumes "control_ok s" and "control_view p = control_view (pg s)"
  shows "control_ok (s\<lparr>pg := p\<rparr>)"
proof -
  have "cur_period p = cur_period (pg s)" using assms(2) by (simp add: control_view_def)
  then show ?thesis
    using assms waiting_view [OF assms(2)] idle_view [OF assms(2)]
    by (auto simp: control_ok_def phase_ok_def split: list.splits)
qed

section \<open>Handlers\<close>

lemma view_frame [simp]:
  "control_view (set_markup k s p) = control_view p" "control_view (set_hidden k b p) = control_view p"
  "control_view (set_text k s p) = control_view p" "control_view (drop_table tid p) = control_view p"
  "control_view (put_view tid v srts p) = control_view p"
  "control_view (replace_table tid s p) = control_view p"
  "control_view (p\<lparr>sort_specs := ss\<rparr>) = control_view p"
  "control_view (p\<lparr>show_names := b\<rparr>) = control_view p"
  "control_view (p\<lparr>chart_days := ds\<rparr>) = control_view p"
  "control_view (p\<lparr>chart_width := w\<rparr>) = control_view p"
  "control_view (p\<lparr>trend_panel := tv\<rparr>) = control_view p"
  "control_view (p\<lparr>models_panel := pn\<rparr>) = control_view p"
  "control_view (p\<lparr>accounts_panel := pn\<rparr>) = control_view p"
  "control_view (p\<lparr>has_aliases := b\<rparr>) = control_view p"
  "control_view (p\<lparr>metrics_single := b\<rparr>) = control_view p"
  "control_view (p\<lparr>event_errors := es\<rparr>) = control_view p"
  "control_view (p\<lparr>address := loc\<rparr>) = control_view p"
  by (simp_all add: control_view_def set_defs drop_table_def put_view_def replace_table_def
      split: trend_view.split)

lemma view_render [simp]:
  "control_view (renderTrend h cw ds p) = control_view p"
  "control_view (renderModels h ms p) = control_view p"
  "control_view (renderAccounts h as p) = control_view p"
  "control_view (renderMetrics t p) = control_view p"
  "control_view (renderQuotas a p) = control_view p"
  "control_view (renderErrors p) = control_view p"
  "control_view (correct_address p) = control_view p"
  by (simp_all add: renderTrend_def renderModels_def renderAccounts_def renderMetrics_def
      renderQuotas_def renderErrors_def correct_address_def Let_def
      split: option.split list.split prod.split)

lemma view_handlers:
  "sort_button_click tid col p = Some p' \<Longrightarrow> control_view p' = control_view p"
  "toggle_names e p = Some p' \<Longrightarrow> control_view p' = control_view p"
  "control_view (resize h cw w p) = control_view p"
  "plot_input l pe p = Some p' \<Longrightarrow> control_view p' = control_view p"
  by (auto simp: plot_input_def sort_button_click_def toggle_names_def resize_def redrawTable_eq Let_def
      split: if_splits option.splits trend_view.splits)

lemma view_input [simp]:
  "control_view (toggle_daily p) = control_view p" "control_view (scroll_table tid x p) = control_view p"
  "control_view (move_focus fc p) = control_view p"
  by (simp_all add: toggle_daily_def scroll_table_def move_focus_def control_view_def split: trend_view.split)

lemma filters_period:
  "cur_period (push_filters a v p) = v" "cur_period (fst (readLocation p)) \<in> set periods"
  by (simp_all add: push_filters_def readLocation_def select_period_def selectAccountOption_def
      locationFilters_period Let_def)

lemma select_control:
  "controllers_ok s \<Longrightarrow> v \<in> set periods \<Longrightarrow> control_ok (selectFilters a v s)"
  unfolding selectFilters_def
  by (rule refresh_control) (simp_all add: filters_period on_page_def)

lemma paging_control:
  assumes ok: "control_ok s" and off: "\<not> (disabled (pg s) ''previous'' \<and> disabled (pg s) ''next'')"
  shows "control_ok (turn_page d s)"
proof -
  let ?s = "on_page (\<lambda>p. p\<lparr>cur_page := cur_page p + d\<rparr>) s"
  have c: "controllers_ok ?s" "cur_period (pg ?s) \<in> set periods" "phase_ok s"
    using ok by (simp_all add: control_ok_def on_page_def)
  show ?thesis
    unfolding turn_page_def
  proof (rule loadEvents_control [OF c(1,2)]; use c(3) in \<open>cases rule: phase_cases\<close>)
  qed (use off in \<open>auto simp: on_page_def idle_page_def waiting_def events_current_def refresh_task_def
      split: task_kind.splits\<close>)
qed

section \<open>Answers\<close>

lemma request_throws: "request who path ab f = None \<Longrightarrow> ab"
  by (auto simp: request_def Let_def split: fetched.splits if_splits option.splits)

lemma answer_live: "live s t \<Longrightarrow> \<exists>r. answer_of t s f = Some r"
  using request_throws [of "t_target t" "path_of (kind t)" "aborted s (t_ctl t)" f]
  by (cases "answer_of t s f") (auto simp: live_def answer_of_def)

lemma dead_answer:
  assumes "\<not> live s t"
  shows "resume_sync t q f s = s" and "resume_dashboard h cw t es g s = s" and "resume_events h t e s = s"
  using assms by (simp_all add: resume_sync_def resume_dashboard_def resume_events_def
      refresh_finally_def events_finally_def split: option.split)

lemma send_controllers:
  assumes ok: "controllers_ok s" and new: "c \<notin> t_ctl ` set (pending s)" and c: "c < next_ctl s"
    and d: "dash_ctl s = Some c" and i: "i = refresh_id s" "\<not> aborted s c" and k: "k \<noteq> AwaitEvents"
    and l: "lives s = []"
  shows "controllers_ok (send k i c q s)"
    and "lives (send k i c q s) = [\<lparr>kind = k, t_id = i, t_ctl = c, t_target = request_target s, t_query = q\<rparr>]"
proof -
  show "lives (send k i c q s) = [\<lparr>kind = k, t_id = i, t_ctl = c, t_target = request_target s, t_query = q\<rparr>]"
    using l i by (simp add: lives_def send_def live_fun)
  show "controllers_ok (send k i c q s)"
    using ok new c d i k unfolding controllers_ok_def
    by (auto simp: send_def live_fun refresh_task_def)
qed

lemma take_task_fields [simp]:
  "pg (take_task i s) = pg s" "next_ctl (take_task i s) = next_ctl s"
  "dash_ctl (take_task i s) = dash_ctl s" "events_ctl (take_task i s) = events_ctl s"
  "refresh_id (take_task i s) = refresh_id s" "aborted (take_task i s) = aborted s"
  by (simp_all add: take_task_def)

lemma taken_dead:
  assumes ok: "control_ok s" and i: "i < length (pending s)" "pending s ! i = t"
  shows "\<not> live s t \<Longrightarrow> control_ok (take_task i s)"
  using ok i controllers_take(1) [OF _ i(1)] lives_take(1) [OF i(1)]
  by (auto simp: control_ok_def phase_ok_def split: list.splits)

lemma taken_live:
  assumes ok: "control_ok s" and i: "i < length (pending s)" and t: "pending s ! i = t"
    and l: "live s t"
  shows "lives (take_task i s) = []" and "waiting t (pg s)" and "controllers_ok (take_task i s)"
    and "t_ctl t \<notin> t_ctl ` set (pending (take_task i s))" and "t_ctl t < next_ctl s"
    and "refresh_task t \<Longrightarrow> dash_ctl s = Some (t_ctl t)"
proof -
  have c: "controllers_ok s" and p: "phase_ok s" using ok by (simp_all add: control_ok_def)
  have mem: "t \<in> set (pending s)" using i t by auto
  then have "t \<in> set (lives s)" using l by (simp add: lives_def)
  with p obtain u where u: "lives s = [u]" "waiting u (pg s)" by (auto elim: phase_cases)
  then show "lives (take_task i s) = []" "waiting t (pg s)"
    using lives_take(2) [OF i, of u] l t by auto
  show "controllers_ok (take_task i s)" "t_ctl t \<notin> t_ctl ` set (pending (take_task i s))"
    using controllers_take [OF c i] t by auto
  show "t_ctl t < next_ctl s" "refresh_task t \<Longrightarrow> dash_ctl s = Some (t_ctl t)"
    using c mem l by (auto simp: controllers_ok_def)
qed

lemma resume_sync_control:
  assumes ok: "control_ok s" and i: "i < length (pending s)" "pending s ! i = t" and k: "kind t = AwaitSync q"
  shows "control_ok (resume_sync t q f (take_task i s))"
proof (cases "live s t")
  case False
  then show ?thesis using taken_dead [OF ok i] by (simp add: dead_answer)
next
  case True
  note l = taken_live [OF ok i True]
  obtain r where r: "answer_of t (take_task i s) f = Some r" using answer_live [of "take_task i s" t f] True by auto
  have rt: "refresh_task t" using k by (simp add: refresh_task_def)
  have id: "t_id t = refresh_id s" "\<not> aborted s (t_ctl t)" using True by (simp_all add: live_def)
  note snd = send_controllers [OF l(3,4), of "t_id t" "AwaitDashboard (result_errors r)" q]
  have "waiting \<lparr>kind = AwaitDashboard (result_errors r), t_id = t_id t, t_ctl = t_ctl t,
      t_target = request_target (take_task i s), t_query = q\<rparr> (pg s)"
    using l(2) k by (simp add: waiting_def)
  then show ?thesis
    using snd l rt id True ok
    by (simp add: resume_sync_def r control_ok_def phase_ok_def) (simp add: send_def)
qed

lemma updateAccounts_view [simp]:
  "cur_period (updateAccounts as p) = cur_period p"
  by (simp add: updateAccounts_def Let_def split: option.split)

lemma view_period: "control_view p = control_view p' \<Longrightarrow> cur_period p = cur_period p'"
  by (simp add: control_view_def)

lemma period_frame [simp]:
  "cur_period (set_markup k s st) = cur_period st" "cur_period (set_hidden k b st) = cur_period st"
  "cur_period (set_busy k b st) = cur_period st" "cur_period (set_disabled k b st) = cur_period st"
  "cur_period (set_text k s st) = cur_period st" "cur_period (resetEvents s st) = cur_period st"
  "cur_period (renderTrend h cw ds st) = cur_period st"
  "cur_period (renderModels h ms st) = cur_period st"
  "cur_period (renderAccounts h as st) = cur_period st"
  "cur_period (renderMetrics tt st) = cur_period st"
  "cur_period (renderQuotas a st) = cur_period st"
  "cur_period (renderErrors st) = cur_period st"
  "cur_period (correct_address st) = cur_period st"
  "cur_period (setSyncing b st) = cur_period st"
  by (simp_all add: set_defs resetEvents_def setSyncing_def view_period [OF view_render(1)]
      view_period [OF view_render(2)] view_period [OF view_render(3)] view_period [OF view_render(4)]
      view_period [OF view_render(5)] view_period [OF view_render(6)] view_period [OF view_render(7)])

lemma show_dashboard_period: "cur_period (fst (show_dashboard h cw es r p)) = cur_period p"
  by (simp add: show_dashboard_def renderDashboard_def Let_def split: prod.split)

lemma show_dashboard_events:
  "cur_account (fst (show_dashboard h cw es r p)) \<noteq> [] \<Longrightarrow> events_current (fst (show_dashboard h cw es r p))"
  by (auto simp: show_dashboard_def Let_def events_current_def resetEvents_def set_defs
      split: prod.splits if_splits)

lemma finish_refresh:
  assumes "controllers_ok s" and "dash_ctl s = Some (t_ctl t)" and "live s t"
  shows "live (loadEvents s) t"
  using assms by (auto simp: live_def loadEvents_result controllers_ok_def)

text \<open>Both outcomes of a live dashboard answer, with the effect of the \<open>finally\<close> block.\<close>

definition end_refresh :: "page \<Rightarrow> page" where
  "end_refresh p = setSyncing False (set_busy ''content'' False p)"

text \<open>
  Whether an answer goes on to the events: an account is selected, and the answer lists it up to
  case.
\<close>

definition goes_on :: "task \<Rightarrow> dashboard fetched \<Rightarrow> session \<Rightarrow> bool" where
  "goes_on t f s \<longleftrightarrow> cur_account (pg s) \<noteq> [] \<and> (\<exists>r d as a. answer_of t s f = Some r \<and> result_data r = Some d
     \<and> accounts d = Some as \<and> a \<in> set as \<and> to_lower (login a) = to_lower (cur_account (pg s)))"

lemma show_dashboard_found:
  assumes "show_dashboard h cw es r p = (p', found)"
  shows "cur_account p' \<noteq> [] \<and> found \<longleftrightarrow> cur_account p \<noteq> [] \<and> (\<exists>d as a. result_data r = Some d
     \<and> accounts d = Some as \<and> a \<in> set as \<and> to_lower (login a) = to_lower (cur_account p))"
proof -
  obtain as where as: "as = (case result_data r of None \<Rightarrow> [] | Some d \<Rightarrow> (case accounts d of None \<Rightarrow> [] | Some as \<Rightarrow> as))"
    by simp
  let ?u = "updateAccounts as p"
  have listed: "(\<exists>d as a. result_data r = Some d \<and> accounts d = Some as \<and> a \<in> set as
      \<and> to_lower (login a) = to_lower (cur_account p)) \<longleftrightarrow> (\<exists>a \<in> set as. to_lower (login a) = to_lower (cur_account p))"
  proof (cases "result_data r")
    case (Some d)
    then show ?thesis by (cases "accounts d") (auto simp: as)
  qed (simp add: as)
  let ?q = "p\<lparr>dashboard_errors := es @ result_errors r, event_errors := [], table_views := Map.empty\<rparr>"
  have u: "cur_account (updateAccounts as ?q) = cur_account ?u" by (simp add: updateAccounts_def Let_def split: option.split)
  have rd: "cur_account (fst (renderDashboard h cw (result_data r) ?q)) = cur_account ?u"
    "snd (renderDashboard h cw (result_data r) ?q) \<longleftrightarrow> find (\<lambda>a. login a = cur_account ?u) as \<noteq> None"
    by (simp_all add: renderDashboard_def Let_def as [symmetric] flip: u)
  have frame: "cur_account (renderErrors x) = cur_account x" "cur_account (correct_address x) = cur_account x"
    "cur_account (set_text k y x) = cur_account x" "cur_account (set_hidden k b x) = cur_account x"
    "cur_account (resetEvents y x) = cur_account x" for x k y b
    by (simp_all add: renderErrors_def correct_address_def set_defs resetEvents_def Let_def split: option.split)
  obtain p2 f2 where two: "renderDashboard h cw (result_data r) ?q = (p2, f2)" by fastforce
  have acc: "cur_account p' = cur_account ?u"
    using assms rd(1) by (simp add: show_dashboard_def two Let_def split: if_splits) (auto simp: frame)
  have "found = f2" using assms by (simp add: show_dashboard_def two Let_def)
  then have found: "found \<longleftrightarrow> (\<exists>a \<in> set as. login a = cur_account ?u)"
    using rd(2) by (auto simp: two find_None_iff)
  have lower: "to_lower x = [] \<longleftrightarrow> x = []" for x by (simp add: to_lower_def)
  show ?thesis
  proof (cases "find (\<lambda>a. to_lower (login a) = to_lower (cur_account p)) as")
    case None
    then have none: "\<not> (\<exists>a \<in> set as. to_lower (login a) = to_lower (cur_account p))" by (auto simp: find_None_iff)
    then have "cur_account ?u = cur_account p" using None by (simp add: updateAccounts_def Let_def)
    then show ?thesis using none found acc listed by auto
  next
    case (Some a)
    then have a: "a \<in> set as" "to_lower (login a) = to_lower (cur_account p)" by (auto simp: find_Some_iff)
    have "cur_account ?u = login a" using Some by (simp add: updateAccounts_def Let_def)
    then show ?thesis using a found acc listed lower by metis
  qed
qed

lemma resume_dashboard_live:
  assumes ok: "control_ok s" and i: "i < length (pending s)" "pending s ! i = t"
    and k: "kind t = AwaitDashboard es" and l: "live s t"
  obtains p where "cur_period p \<in> set periods" and "events_current p"
      and "resume_dashboard h cw t es f (take_task i s)
        = on_page end_refresh (loadEvents ((take_task i s)\<lparr>pg := p\<rparr>))" and "goes_on t f s"
  | p where "cur_period p \<in> set periods"
      and "resume_dashboard h cw t es f (take_task i s)
        = on_page (\<lambda>p. end_refresh (resetEvents em_dash p)) ((take_task i s)\<lparr>pg := p\<rparr>)"
      and "\<not> goes_on t f s"
proof -
  note tl = taken_live [OF ok i l]
  obtain r where r: "answer_of t (take_task i s) f = Some r"
    using answer_live [of "take_task i s" t f] l by auto
  obtain p found where p: "show_dashboard h cw es r (pg s) = (p, found)" by fastforce
  have rt: "refresh_task t" using k by (simp add: refresh_task_def)
  have per: "cur_period p \<in> set periods"
    using show_dashboard_period [of h cw es r "pg s"] p ok by (simp add: control_ok_def)
  let ?s = "(take_task i s)\<lparr>pg := p\<rparr>"
  have c: "controllers_ok ?s" "dash_ctl ?s = Some (t_ctl t)" "live ?s t"
    using tl rt l by simp_all
  note fin = refresh_finally_def end_refresh_def resume_dashboard_def r p l
  have "answer_of t s f = Some r" using r by (simp add: answer_of_def take_task_def)
  then have on: "cur_account p \<noteq> [] \<and> found \<longleftrightarrow> goes_on t f s"
    unfolding show_dashboard_found [OF p] goes_on_def by auto
  show thesis
  proof (cases "cur_account p \<noteq> [] \<and> found")
    case True
    have "events_current p" using show_dashboard_events [of h cw es r "pg s"] p True by simp
    moreover have "resume_dashboard h cw t es f (take_task i s) = on_page end_refresh (loadEvents ?s)"
      using True finish_refresh [OF c] by (simp add: fin on_page_def Let_def)
    ultimately show thesis using per that(1) True on by blast
  next
    case False
    have "resume_dashboard h cw t es f (take_task i s)
        = on_page (\<lambda>p. end_refresh (resetEvents em_dash p)) ?s"
      using False l by (auto simp: fin on_page_def live_def Let_def)
    then show thesis using per that(2) False on by blast
  qed
qed

lemma resume_dashboard_control:
  assumes ok: "control_ok s" and i: "i < length (pending s)" "pending s ! i = t"
    and k: "kind t = AwaitDashboard es"
  shows "control_ok (resume_dashboard h cw t es f (take_task i s))"
proof (cases "live s t")
  case False
  then show ?thesis using taken_dead [OF ok i] by (simp add: dead_answer)
next
  case True
  note tl = taken_live [OF ok i True]
  let ?s = "\<lambda>p. (take_task i s)\<lparr>pg := p\<rparr>"
  have c: "controllers_ok (?s p)" "lives (?s p) = []" for p using tl by simp_all
  from ok i k True show ?thesis
  proof (cases rule: resume_dashboard_live [where h = h and cw = cw and f = f])
    case (1 p)
    have "waiting (events_task (?s p)) (end_refresh (set_busy ''events'' True p))"
      using 1(2) by (simp add: waiting_def events_task_def events_query_def events_current_def
          end_refresh_def setSyncing_def set_defs)
    then show ?thesis
      using loadEvents_controllers [OF c(1)] c(2) 1 unfolding 1(3)
      by (simp add: control_ok_def phase_ok_def)
        (simp add: on_page_def loadEvents_result end_refresh_def)
  next
    case (2 p)
    have "idle_page (end_refresh (resetEvents em_dash p))"
      by (simp add: idle_page_def resetEvents_def events_current_def end_refresh_def setSyncing_def set_defs)
    then show ?thesis
      using c 2 unfolding 2(2)
      by (simp add: control_ok_def phase_ok_def) (simp add: on_page_def end_refresh_def)
  qed
qed

lemma show_events_facts:
  "busy (show_events h r p) ''content'' = busy p ''content''" "syncing (show_events h r p) = syncing p"
  "cur_period (show_events h r p) = cur_period p"
  "events_current p \<Longrightarrow> events_current (show_events h r p)"
  by (simp_all add: show_events_def renderErrors_def renderEvents_def resetEvents_def events_current_def
      set_defs Let_def split: option.split)

lemma resume_events_control:
  assumes ok: "control_ok s" and i: "i < length (pending s)" "pending s ! i = t"
    and k: "kind t = AwaitEvents"
  shows "control_ok (resume_events h t f (take_task i s))"
proof (cases "live s t")
  case False
  then show ?thesis using taken_dead [OF ok i] by (simp add: dead_answer)
next
  case True
  note l = taken_live [OF ok i True]
  obtain r where r: "answer_of t (take_task i s) f = Some r"
    using answer_live [of "take_task i s" t f] True by auto
  have eq: "resume_events h t f (take_task i s)
      = on_page (set_busy ''events'' False) (on_page (show_events h r) (take_task i s))"
    using True by (simp add: resume_events_def r events_finally_def)
  have "idle_page (set_busy ''events'' False (show_events h r (pg s)))"
    using l(2) k show_events_facts
    by (simp add: idle_page_def waiting_def events_current_def set_defs)
  then show ?thesis
    using l(1,3) ok unfolding eq
    by (simp add: control_ok_def phase_ok_def) (simp add: on_page_def show_events_facts)
qed

lemma control_refresh: "control_ok s \<Longrightarrow> control_ok (refresh b s)"
  by (rule refresh_control) (simp_all add: control_ok_def)

lemma control_started: "started s \<Longrightarrow> control_ok s"
  unfolding started_def load_page_def
  by (auto intro!: refresh_control simp: controllers_ok_def filters_period split: prod.split)
    (metis filters_period(2) fst_conv)+

lemma control_step: "session_step h s s' \<Longrightarrow> control_ok s \<Longrightarrow> control_ok s'"
proof (induction rule: session_step.induct)
  case (submit s)
  then show ?case by (simp add: submit_def control_refresh)
next
  case (account v s)
  then show ?case unfolding choose_account_def Let_def
    by (intro select_control) (simp_all add: control_ok_def on_page_def)
next
  case (period v s)
  then show ?case unfolding choose_period_def Let_def
    by (intro select_control) (simp_all add: control_ok_def on_page_def)
next
  case (history s loc)
  have "control_ok (on_page (\<lambda>p. p\<lparr>address := loc\<rparr>) s)"
    unfolding on_page_def using history by (rule control_frame) simp
  moreover have "controllers_ok s" using history by (simp add: control_ok_def)
  then have "control_ok (refresh False (on_page (\<lambda>p. fst (readLocation p)) (on_page (\<lambda>p. p\<lparr>address := loc\<rparr>) s)))"
    by (intro refresh_control) (simp_all, simp add: on_page_def filters_period)
  ultimately show ?case by (simp add: popstate_def Let_def)
next
  case (previous s)
  then show ?case by (auto simp: previous_page_def intro: paging_control)
next
  case (next_page s)
  then show ?case by (auto simp: next_page_def intro: paging_control)
next
  case (sort tid s col p)
  then show ?case by (auto intro: control_frame dest: view_handlers(1,2))
next
  case (names e s p)
  then show ?case by (auto intro: control_frame dest: view_handlers(1,2))
next
  case (resized s cw w)
  then show ?case unfolding on_page_def by (auto intro: control_frame simp: view_handlers(3))
next
  case (inspected l pe s p)
  then show ?case by (auto intro: control_frame dest: view_handlers(4))
next
  case (toggled s)
  then show ?case unfolding on_page_def by (auto intro: control_frame)
next
  case (scrolled tid s x)
  then show ?case unfolding on_page_def by (auto intro: control_frame)
next
  case (focused fc s)
  then show ?case unfolding on_page_def by (auto intro: control_frame)
next
  case (synced i s t q f)
  then show ?case by (auto intro: resume_sync_control)
next
  case (loaded i s t es cw f)
  then show ?case by (auto intro: resume_dashboard_control)
next
  case (paged i s t f)
  then show ?case by (auto intro: resume_events_control)
qed

end
