(* ===== verification/Filters.thy ===== *)
theory Filters
  imports Control
begin

text \<open>
  The filters along the session: the account and the period the page shows, the selector of
  the period and the address agree in every reachable state, so that a reload or a bookmark
  gives the same view. The address may name the account in another case until the answer of
  the service corrects it.
\<close>

definition filter_view :: "page \<Rightarrow> string \<times> string \<times> string \<times> location" where
  "filter_view p = (to_lower (cur_account p), cur_period p, period_value p, address p)"

definition filters_agree :: "page \<Rightarrow> bool" where
  "filters_agree p \<longleftrightarrow> period_value p = cur_period p
     \<and> f_period (locationFilters (address p)) = cur_period p
     \<and> to_lower (f_account (locationFilters (address p))) = to_lower (cur_account p)"

lemma filters_agree_view: "filter_view p = filter_view p' \<Longrightarrow> filters_agree p = filters_agree p'"
  by (simp add: filter_view_def filters_agree_def)

section \<open>Changes of the page that the filters do not see\<close>

lemma filter_frame [simp]:
  "filter_view (set_markup k s p) = filter_view p" "filter_view (set_hidden k b p) = filter_view p"
  "filter_view (set_busy k b p) = filter_view p" "filter_view (set_disabled k b p) = filter_view p"
  "filter_view (set_text k s p) = filter_view p" "filter_view (drop_table tid p) = filter_view p"
  "filter_view (put_view tid v srts p) = filter_view p"
  "filter_view (replace_table tid s p) = filter_view p"
  by (simp_all add: filter_view_def set_defs drop_table_def put_view_def replace_table_def
      split: trend_view.split)

lemma filter_update [simp]:
  "filter_view (p\<lparr>sort_specs := ss\<rparr>) = filter_view p" "filter_view (p\<lparr>show_names := b\<rparr>) = filter_view p"
  "filter_view (p\<lparr>chart_days := ds\<rparr>) = filter_view p" "filter_view (p\<lparr>chart_width := w\<rparr>) = filter_view p"
  "filter_view (p\<lparr>trend_panel := tv\<rparr>) = filter_view p" "filter_view (p\<lparr>models_panel := pn\<rparr>) = filter_view p"
  "filter_view (p\<lparr>accounts_panel := pn\<rparr>) = filter_view p" "filter_view (p\<lparr>has_aliases := b\<rparr>) = filter_view p"
  "filter_view (p\<lparr>metrics_single := b\<rparr>) = filter_view p" "filter_view (p\<lparr>event_errors := es\<rparr>) = filter_view p"
  "filter_view (p\<lparr>shown_events := se\<rparr>) = filter_view p" "filter_view (p\<lparr>syncing := b\<rparr>) = filter_view p"
  "filter_view (p\<lparr>cur_page := i\<rparr>) = filter_view p"
  "filter_view (p\<lparr>shown_events := se, cur_page := i, cur_total_pages := n\<rparr>) = filter_view p"
  "filter_view (p\<lparr>dashboard_errors := es, event_errors := es', table_views := tv'\<rparr>) = filter_view p"
  by (simp_all add: filter_view_def)

lemma filter_render [simp]:
  "filter_view (renderTrend h cw ds p) = filter_view p" "filter_view (renderModels h ms p) = filter_view p"
  "filter_view (renderAccounts h as p) = filter_view p" "filter_view (renderMetrics t p) = filter_view p"
  "filter_view (renderQuotas a p) = filter_view p" "filter_view (renderErrors p) = filter_view p"
  "filter_view (renderEvents h d p) = filter_view p" "filter_view (resetEvents s p) = filter_view p"
  "filter_view (setSyncing b p) = filter_view p" "filter_view (start_refresh b p) = filter_view p"
  by (simp_all add: renderTrend_def renderModels_def renderAccounts_def renderMetrics_def renderQuotas_def
      renderErrors_def renderEvents_def resetEvents_def setSyncing_def start_refresh_def Let_def
      split: option.split list.split prod.split)

lemma updateAccounts_filters [simp]: "filter_view (updateAccounts as p) = filter_view p"
proof -
  have "period_value (updateAccounts as p) = period_value p" "address (updateAccounts as p) = address p"
    by (simp_all add: updateAccounts_def Let_def split: option.split)
  then show ?thesis by (simp add: filter_view_def updateAccounts_account)
qed

lemma renderDashboard_filters [simp]: "filter_view (fst (renderDashboard h cw d p)) = filter_view p"
  by (simp add: renderDashboard_def Let_def)

lemma filter_input [simp]:
  "filter_view (resize h cw w p) = filter_view p" "filter_view (toggle_daily p) = filter_view p"
  "filter_view (scroll_table tid x p) = filter_view p" "filter_view (move_focus fc p) = filter_view p"
  by (simp_all add: resize_def toggle_daily_def scroll_table_def move_focus_def Let_def
      split: option.split trend_view.split) (simp_all add: filter_view_def)

lemma filter_handlers:
  "sort_button_click tid col p = Some p' \<Longrightarrow> filter_view p' = filter_view p"
  "toggle_names e p = Some p' \<Longrightarrow> filter_view p' = filter_view p"
  "plot_input l pe p = Some p' \<Longrightarrow> filter_view p' = filter_view p"
  by (auto simp: sort_button_click_def toggle_names_def plot_input_def redrawTable_eq
      split: if_splits option.splits trend_view.splits)

section \<open>What changes the filters\<close>

text \<open>The corrected address names the account as the service does and keeps the period.\<close>

lemma correct_address_filters:
  assumes "query_get (parse (search (address p))) ''account'' = Some a" and "a \<noteq> []"
    and "to_lower a = to_lower (cur_account p)"
  shows "f_account (locationFilters (address (correct_address p))) = cur_account p"
    and "f_period (locationFilters (address (correct_address p))) = f_period (locationFilters (address p))"
  using assms
  by (auto simp: correct_address_def locationFilters_def Let_def parse_serialize query_get_set)

lemma correct_address_exact:
  assumes ok: "filters_agree p"
  shows "f_account (locationFilters (address (correct_address p))) = cur_account (correct_address p)"
proof -
  have frame: "cur_account (correct_address p) = cur_account p"
    by (simp add: correct_address_def Let_def split: option.split)
  have low: "to_lower (f_account (locationFilters (address p))) = to_lower (cur_account p)"
    using ok by (simp add: filters_agree_def)
  show ?thesis
  proof (cases "f_account (locationFilters (address p)) = []")
    case True
    then have "cur_account p = []" using low by (simp add: to_lower_def)
    moreover from this low have "correct_address p = p"
      by (auto simp: correct_address_def locationFilters_def to_lower_def Let_def split: option.split)
    ultimately show ?thesis using True by simp
  next
    case False
    then obtain a where a: "query_get (parse (search (address p))) ''account'' = Some a" "a \<noteq> []"
      by (auto simp: locationFilters_def Let_def split: option.splits)
    then have "to_lower a = to_lower (cur_account p)" using low by (simp add: locationFilters_def Let_def)
    from correct_address_filters(1) [OF a this] show ?thesis by (simp add: frame)
  qed
qed

lemma correct_address_agrees: "filters_agree p \<Longrightarrow> filters_agree (correct_address p)"
proof (cases "query_get (parse (search (address p))) ''account''")
  case None
  then show "filters_agree p \<Longrightarrow> ?thesis" by (simp add: correct_address_def Let_def)
next
  case (Some a)
  have frame: "cur_account (correct_address p) = cur_account p" "cur_period (correct_address p) = cur_period p"
    "period_value (correct_address p) = period_value p"
    by (simp_all add: correct_address_def Let_def split: option.split)
  assume ok: "filters_agree p"
  show ?thesis
  proof (cases "a = []")
    case True
    then show ?thesis using ok Some by (simp add: correct_address_def Let_def)
  next
    case False
    have "to_lower a = to_lower (cur_account p)"
      using ok Some by (simp add: filters_agree_def locationFilters_def Let_def)
    from correct_address_filters [OF Some False this] frame ok show ?thesis
      by (simp add: filters_agree_def)
  qed
qed

lemma push_filters_agree: "v \<in> set periods \<Longrightarrow> filters_agree (push_filters a v p)"
  by (simp add: filters_agree_def push_filters_def select_period_def selectAccountOption_def Let_def
      select_value_def comp_def locationFilters_filterURL)

lemma readLocation_agrees: "filters_agree (fst (readLocation p))"
  by (simp add: filters_agree_def readLocation_def select_period_def selectAccountOption_def Let_def
      select_value_def comp_def locationFilters_period)

lemma show_dashboard_agrees:
  assumes "filters_agree p"
  shows "filters_agree (fst (show_dashboard h cw es r p))"
proof -
  let ?p1 = "p\<lparr>dashboard_errors := es @ result_errors r, event_errors := [], table_views := Map.empty\<rparr>"
  let ?p2 = "fst (renderDashboard h cw (result_data r) ?p1)"
  have "filters_agree (correct_address ?p2)"
    using assms correct_address_agrees filters_agree_view [of ?p2 p] by simp
  moreover have "filter_view (fst (show_dashboard h cw es r p)) = filter_view (correct_address ?p2)"
    by (simp add: show_dashboard_def Let_def split: prod.split)
  ultimately show ?thesis using filters_agree_view by blast
qed

text \<open>After an answer of the service the address names the account exactly.\<close>

definition named :: "page \<Rightarrow> string \<times> location" where
  "named p = (cur_account p, address p)"

lemma named_frame [simp]:
  "named (set_markup k s p) = named p" "named (set_hidden k b p) = named p"
  "named (set_busy k b p) = named p" "named (set_disabled k b p) = named p"
  "named (set_text k s p) = named p" "named (renderErrors p) = named p"
  "named (resetEvents s p) = named p" "named (setSyncing b p) = named p"
  by (simp_all add: named_def renderErrors_def resetEvents_def setSyncing_def set_defs Let_def)

definition address_exact :: "page \<Rightarrow> bool" where
  "address_exact p \<longleftrightarrow> f_account (locationFilters (address p)) = cur_account p"

lemma address_exact_named: "named p = named p' \<Longrightarrow> address_exact p = address_exact p'"
  by (simp add: named_def address_exact_def)

lemma show_dashboard_exact:
  assumes "filters_agree p"
  shows "address_exact (fst (show_dashboard h cw es r p))"
proof -
  let ?p1 = "p\<lparr>dashboard_errors := es @ result_errors r, event_errors := [], table_views := Map.empty\<rparr>"
  let ?p2 = "fst (renderDashboard h cw (result_data r) ?p1)"
  have "address_exact (correct_address ?p2)"
    unfolding address_exact_def
    using assms correct_address_exact filters_agree_view [of ?p2 p] by simp
  moreover have "named (fst (show_dashboard h cw es r p)) = named (correct_address ?p2)"
    by (simp add: show_dashboard_def Let_def split: prod.split)
  ultimately show ?thesis using address_exact_named by blast
qed

lemma resume_dashboard_exact:
  assumes "filters_agree (pg s)" and "live s t"
  shows "address_exact (pg (resume_dashboard h cw t es f s))"
proof -
  obtain r where r: "answer_of t s f = Some r" using answer_live [OF assms(2)] by blast
  obtain p found where p: "show_dashboard h cw es r (pg s) = (p, found)" by fastforce
  then have "address_exact p" using show_dashboard_exact [OF assms(1), of h cw es r] by simp
  moreover have "named (pg (resume_dashboard h cw t es f s)) = named p"
    by (simp add: resume_dashboard_def r assms(2) p refresh_finally_def on_page_def loadEvents_result Let_def)
  ultimately show ?thesis using address_exact_named by blast
qed

section \<open>The invariant along the session\<close>

lemma refresh_agrees [simp]: "filters_agree (pg (refresh b s)) = filters_agree (pg s)"
  by (rule filters_agree_view) (simp add: refresh_result)

lemma events_agree [simp]: "filters_agree (pg (loadEvents s)) = filters_agree (pg s)"
  by (rule filters_agree_view) (simp add: loadEvents_result)

lemma resume_agree:
  assumes "filters_agree (pg s)"
  shows "filters_agree (pg (resume_sync t q f s))" and "filters_agree (pg (resume_dashboard h cw t es g s))"
    and "filters_agree (pg (resume_events h t e s))"
proof -
  have fin: "filters_agree (pg (refresh_finally t u)) = filters_agree (pg u)" for u
    by (rule filters_agree_view) (simp add: refresh_finally_def on_page_def)
  show "filters_agree (pg (resume_sync t q f s))"
    using assms by (simp add: resume_sync_def fin) (simp add: send_def fin split: option.split)
  have reset: "filters_agree (resetEvents m p) = filters_agree p" for m p
    by (rule filters_agree_view) simp
  have "filters_agree (pg (resume_dashboard h cw t es g s))" if "answer_of t s g = Some r" "live s t" for r
  proof -
    obtain p found where p: "show_dashboard h cw es r (pg s) = (p, found)" by fastforce
    then have "filters_agree p" using show_dashboard_agrees [OF assms, of h cw es r] by simp
    then show ?thesis
      using that p by (simp add: resume_dashboard_def fin reset on_page_def Let_def)
  qed
  then show "filters_agree (pg (resume_dashboard h cw t es g s))"
    using assms by (cases "answer_of t s g"; cases "live s t") (auto simp: resume_dashboard_def fin)
  have "filter_view (pg (resume_events h t e s)) = filter_view (pg s)"
    by (simp add: resume_events_def events_finally_def on_page_def show_events_def split: option.split)
  from filters_agree_view [OF this] assms show "filters_agree (pg (resume_events h t e s))" by simp
qed

lemma select_agrees: "v \<in> set periods \<Longrightarrow> filters_agree (pg (selectFilters a v s))"
  by (simp add: selectFilters_def on_page_def push_filters_agree)

lemma filters_step:
  "session_step h s s' \<Longrightarrow> control_ok s \<Longrightarrow> filters_agree (pg s) \<Longrightarrow> filters_agree (pg s')"
proof (induction rule: session_step.induct)
  case (account v s)
  then show ?case
    by (simp add: choose_account_def Let_def) (simp add: select_agrees control_ok_def on_page_def)
next
  case (period v s)
  then show ?case by (simp add: choose_period_def Let_def) (simp add: select_agrees on_page_def)
next
  case (history s loc)
  then show ?case
    by (simp add: popstate_def Let_def on_page_def readLocation_agrees) (simp add: filters_agree_def)
next
  case (sort tid s col p)
  then show ?case using filters_agree_view [OF filter_handlers(1)] by simp
next
  case (names e s p)
  then show ?case using filters_agree_view [OF filter_handlers(2)] by simp
next
  case (inspected l pe s p)
  then show ?case using filters_agree_view [OF filter_handlers(3)] by simp
qed (simp_all add: submit_def previous_page_def next_page_def turn_page_def on_page_def resume_agree
    filters_agree_view [OF filter_input(1)] filters_agree_view [OF filter_input(2)]
    filters_agree_view [OF filter_input(3)] filters_agree_view [OF filter_input(4)]
    filters_agree_view [OF filter_update(13)])

lemma filters_started: "started s \<Longrightarrow> filters_agree (pg s)"
proof -
  have "filters_agree (pg (load_page loc))" for loc
  proof -
    obtain p valid where p: "readLocation (initial_page loc) = (p, valid)" by fastforce
    then have "filters_agree p" using readLocation_agrees [of "initial_page loc"] by simp
    moreover from this have "cur_period p \<in> set periods"
      using locationFilters_period [of "address p"] by (simp add: filters_agree_def)
    ultimately show ?thesis
      by (simp add: load_page_def p) (simp add: filters_agree_def locationFilters_filterURL)
  qed
  then show "started s \<Longrightarrow> filters_agree (pg s)" by (auto simp: started_def)
qed

end
