(* ===== verification/Session.thy ===== *)
theory Session
  imports Filters
begin

text \<open>
  What holds of every reachable session: the concurrency invariant of \<open>Control\<close>, the agreement
  of the filters of \<open>Filters\<close> and the page invariant of \<open>Page_Invariant\<close> together, and progress: answering the waiting tasks, in any
  order, ends with a page on which nothing is busy.
\<close>

section \<open>The page invariant along the session\<close>

definition page_ok :: "page \<Rightarrow> bool" where
  "page_ok p \<longleftrightarrow> safe_page p \<and> tables_current p \<and> account_selected p \<and> chart_ok p
     \<and> [] \<in> set (map snd (account_options p))"

lemmas page_ok_simps = page_ok_def chart_ok_def

lemma tables_current_of: "tables_of p = tables_of p' \<Longrightarrow> tables_current p = tables_current p'"
  by (simp add: tables_of_def tables_current_def)

lemma options_frame [simp]:
  "account_options (set_markup k s p) = account_options p"
  "account_options (set_hidden k b p) = account_options p"
  "account_options (set_busy k b p) = account_options p"
  "account_options (set_disabled k b p) = account_options p"
  "account_options (set_text k s p) = account_options p"
  "account_options (drop_table tid p) = account_options p"
  "account_options (put_view tid v srts p) = account_options p"
  "account_options (replace_table tid s p) = account_options p"
  by (simp_all add: set_defs drop_table_def put_view_def replace_table_def split: trend_view.split)

lemma options_render [simp]:
  "account_options (renderTrend h cw ds p) = account_options p"
  "account_options (renderModels h ms p) = account_options p"
  "account_options (renderAccounts h as p) = account_options p"
  "account_options (renderMetrics t p) = account_options p"
  "account_options (renderQuotas a p) = account_options p"
  "account_options (renderErrors p) = account_options p"
  "account_options (renderEvents h d p) = account_options p"
  "account_options (resetEvents s p) = account_options p"
  "account_options (setSyncing b p) = account_options p"
  "account_options (correct_address p) = account_options p"
  by (simp_all add: renderTrend_def renderModels_def renderAccounts_def renderMetrics_def
      renderQuotas_def renderErrors_def renderEvents_def resetEvents_def setSyncing_def
      correct_address_def Let_def split: option.split list.split prod.split)

lemma selected_more [simp]:
  "account_selected (renderErrors p) = account_selected p"
  "account_selected (resetEvents s p) = account_selected p"
  "account_selected (renderEvents h d p) = account_selected p"
  "account_selected (setSyncing b p) = account_selected p"
  "account_selected (correct_address p) = account_selected p"
  "account_selected (replace_table tid s p) = account_selected p"
  "account_selected (p\<lparr>event_errors := es\<rparr>) = account_selected p"
  by (simp_all add: account_selected_def renderErrors_def renderEvents_def resetEvents_def
      setSyncing_def correct_address_def replace_table_def set_defs Let_def
      split: option.split trend_view.split)

lemma correct_address_safe [simp]:
  "safe_page (correct_address p) = safe_page p" "tables_of (correct_address p) = tables_of p"
  by (simp_all add: correct_address_def safe_page_def tables_of_def table_text_def Let_def
      split: option.split cong: if_cong)

lemma chart_more [simp]:
  "chart_of (correct_address p) = chart_of p" "chart_of (selectAccountOption a p) = chart_of p"
  "chart_of (select_period v p) = chart_of p"
  by (simp_all add: correct_address_def selectAccountOption_def select_period_def Let_def chart_of_def
      split: option.split)

lemma errors_frame [simp]:
  "safe_page (p\<lparr>event_errors := es\<rparr>) = safe_page p"
  "tables_of (p\<lparr>event_errors := es\<rparr>) = tables_of p"
  "safe_page (p\<lparr>cur_page := n\<rparr>) = safe_page p"
  "tables_of (p\<lparr>cur_page := n\<rparr>) = tables_of p"
  "safe_page (p\<lparr>address := loc\<rparr>) = safe_page p"
  "tables_of (p\<lparr>address := loc\<rparr>) = tables_of p"
  "safe_page (p\<lparr>account_value := v\<rparr>) = safe_page p"
  "tables_of (p\<lparr>account_value := v\<rparr>) = tables_of p"
  "safe_page (p\<lparr>account_options := os\<rparr>) = safe_page p"
  "tables_of (p\<lparr>account_options := os\<rparr>) = tables_of p"
  by (simp_all add: safe_page_def tables_of_def table_text_def cong: if_cong)

lemma page_ok_busy [simp]: "page_ok (set_busy k b p) = page_ok p"
  using tables_current_of [OF tables_of_frame(3)] by (simp add: page_ok_simps)

lemma page_ok_syncing [simp]: "page_ok (setSyncing b p) = page_ok p"
  using tables_current_of [OF tables_of_render(4)] by (simp add: page_ok_simps setSyncing_safe)

lemma page_ok_reset: "page_ok p \<Longrightarrow> page_ok (resetEvents s p)"
  using tables_current_of [OF tables_of_render(2)] by (simp add: page_ok_simps resetEvents_safe)

lemma page_ok_set [simp]:
  "page_ok (set_disabled k b p) = page_ok p" "page_ok (set_text k s p) = page_ok p"
  "page_ok (set_hidden k b p) = page_ok p" "page_ok (p\<lparr>cur_page := n\<rparr>) = page_ok p"
  "page_ok (p\<lparr>address := loc\<rparr>) = page_ok p"
  using tables_current_of [OF tables_of_frame(4)] tables_current_of [OF tables_of_frame(5)]
    tables_current_of [OF tables_of_frame(2)] tables_current_of [OF errors_frame(4)]
    tables_current_of [OF errors_frame(6)]
  by (simp_all add: page_ok_simps) (simp_all add: account_selected_def)

lemma page_ok_start: "page_ok p \<Longrightarrow> page_ok (start_refresh b p)"
  by (simp add: start_refresh_def)

lemma page_ok_show_events: "page_ok p \<Longrightarrow> page_ok (show_events h r p)"
proof -
  assume ok: "page_ok p"
  have "tables_of (show_events h r p) = tables_of p" by (simp add: show_events_def)
  then have "tables_current (show_events h r p)"
    using ok tables_current_of [of "show_events h r p" p] by (simp add: page_ok_simps)
  then show ?thesis
    using ok by (simp add: page_ok_simps show_events_def renderErrors_safe renderEvents_safe)
qed

lemma updateAccounts_options: "[] \<in> set (map snd (account_options (updateAccounts as p)))"
  by (simp add: updateAccounts_def Let_def)

lemma show_dashboard_tables:
  "tables_of (fst (show_dashboard h cw es r p)) = tables_of (fst (renderDashboard h cw (result_data r)
     (p\<lparr>dashboard_errors := es @ result_errors r, event_errors := [], table_views := Map.empty\<rparr>)))"
  by (simp add: show_dashboard_def Let_def split: prod.split)

lemma page_ok_show_dashboard:
  assumes ok: "page_ok p"
  shows "page_ok (fst (show_dashboard h cw es r p))"
proof -
  let ?p1 = "p\<lparr>dashboard_errors := es @ result_errors r, event_errors := [], table_views := Map.empty\<rparr>"
  let ?p2 = "fst (renderDashboard h cw (result_data r) ?p1)"
  have "safe_page ?p1" using ok by (simp add: page_ok_simps safe_page_def)
  then have s2: "safe_page ?p2" by (rule renderDashboard_safe)
  have "sorts_ok (sort_specs ?p1)" using ok by (simp add: page_ok_simps tables_current_def tables_ok_def)
  then have t2: "tables_current ?p2" by (rule renderDashboard_current) simp
  have o2: "[] \<in> set (map snd (account_options ?p2))"
    by (simp add: renderDashboard_def Let_def) (use updateAccounts_options in simp)
  have a2: "account_selected ?p2" by (rule renderDashboard_account)
  obtain p2 found where p2: "renderDashboard h cw (result_data r) ?p1 = (p2, found)" by fastforce
  let ?q = "fst (show_dashboard h cw es r p)"
  have q: "tables_of ?q = tables_of p2" "account_selected ?q = account_selected p2"
    "account_options ?q = account_options p2" "chart_of ?q = chart_of p2"
    by (simp_all add: show_dashboard_def Let_def p2)
  have "safe_page ?q"
    using s2 by (simp add: show_dashboard_def Let_def p2 renderErrors_safe resetEvents_safe)
  then show ?thesis
    using t2 o2 a2 q tables_current_of [OF q(1)] renderDashboard_chart [of h cw "result_data r" ?p1] by (simp add: page_ok_simps p2)
qed

lemma page_ok_select:
  assumes ok: "page_ok p"
  shows "page_ok (selectAccountOption a (p\<lparr>cur_account := a, cur_period := v\<rparr>))"
proof -
  let ?q = "p\<lparr>cur_account := a, cur_period := v\<rparr>"
  have o: "[] \<in> set (map snd (account_options ?q))" using ok by (simp add: page_ok_simps)
  have "account_selected (selectAccountOption a ?q)"
    using selectAccountOption_selected [OF o] by simp
  moreover have "[] \<in> set (map snd (account_options (selectAccountOption a ?q)))"
    using o by (simp add: selectAccountOption_def Let_def)
  moreover have "tables_of (selectAccountOption a ?q) = tables_of p" "safe_page (selectAccountOption a ?q) = safe_page p"
    by (simp_all add: selectAccountOption_def Let_def)
  ultimately show ?thesis
    using ok tables_current_of [of "selectAccountOption a ?q" p] by (simp add: page_ok_simps)
qed

lemma page_ok_period [simp]: "page_ok (select_period v p) = page_ok p"
  by (simp add: page_ok_simps select_period_def account_selected_def tables_current_def table_text_def
      cong: if_cong)

lemma page_ok_filters:
  assumes "page_ok p"
  shows "page_ok (push_filters a v p)" and "page_ok (fst (readLocation p))"
  using page_ok_select [OF assms] by (simp_all add: push_filters_def readLocation_def Let_def)

lemma page_frame:
  "account_selected (p\<lparr>sort_specs := ss\<rparr>) = account_selected p"
  "account_selected (p\<lparr>show_names := b\<rparr>) = account_selected p"
  by (simp_all add: account_selected_def)

lemma page_ok_sort:
  assumes ok: "page_ok p" and col: "has_table tid p" "col < table_width tid"
    and r: "sort_button_click tid col p = Some p'"
  shows "page_ok p'"
proof -
  have "tables_current p'"
    using sort_button_click_works [OF _ col] ok r by (auto simp: page_ok_simps)
  moreover have "safe_page p'"
    using redrawTable_safe [OF _ r [unfolded sort_button_click_def]] ok by (simp add: page_ok_simps)
  moreover obtain s ss where "p' = replace_table tid s (p\<lparr>sort_specs := ss\<rparr>)"
    using r by (auto simp: sort_button_click_def redrawTable_eq split: if_splits)
  then have "account_selected p' = account_selected p" "account_options p' = account_options p"
    "chart_of p' = chart_of p"
    by (simp_all add: page_frame)
  ultimately show ?thesis using ok by (simp add: page_ok_simps)
qed

lemma page_ok_names:
  assumes ok: "page_ok p" and r: "toggle_names e p = Some p'"
  shows "page_ok p'"
proof -
  have "tables_current p'" using toggle_names_works [of p e] ok r by (auto simp: page_ok_simps)
  moreover have "safe_page p'"
    using ok r redrawTable_safe [of "p\<lparr>show_names := \<not> show_names p\<rparr>" "''accounts''"]
    by (auto simp: toggle_names_def page_ok_simps split: if_splits)
  moreover have "p' = p \<or> (\<exists>t s b. p' = set_text ''announcement'' t
      (replace_table ''accounts'' s (p\<lparr>show_names := b\<rparr>)))"
    using r unfolding toggle_names_def redrawTable_eq by (auto split: if_splits)
  then have "account_selected p' = account_selected p" "account_options p' = account_options p"
    "chart_of p' = chart_of p"
    by (auto simp: page_frame)
  ultimately show ?thesis using ok by (simp add: page_ok_simps)
qed

lemma page_ok_resize: "page_ok p \<Longrightarrow> page_ok (resize h cw w p)"
  using resize_current [of p h cw w] resize_chart [of p h cw w]
  by (simp add: page_ok_def resize_def renderTrend_safe Let_def split: option.split)
    (simp add: account_selected_def)

lemma page_ok_input:
  assumes "page_ok p"
  shows "plot_input l e p = Some p' \<Longrightarrow> page_ok p'" and "page_ok (toggle_daily p)"
    and "page_ok (scroll_table tid x p)" and "page_ok (move_focus f p)"
proof -
  have sel: "account_selected (toggle_daily p) = account_selected p"
    "account_options (toggle_daily p) = account_options p"
    by (simp_all add: toggle_daily_def account_selected_def split: trend_view.split)
  show "page_ok p'" if r: "plot_input l e p = Some p'"
  proof -
    obtain tv where "p' = p \<or> p' = p\<lparr>trend_panel := tv\<rparr>"
      using r by (auto simp: plot_input_def split: trend_view.splits)
    then have "account_selected p' = account_selected p" "account_options p' = account_options p"
      by (elim disjE; simp)+
    then show ?thesis
      using assms plot_input_safe [OF _ r] plot_input_chart [OF _ r] tables_current_of [OF table_text_input(1) [OF r]]
      unfolding page_ok_def by simp
  qed
  show "page_ok (toggle_daily p)"
    using assms sel tables_current_of [OF table_text_input(2)] chart_ok_of [OF chart_input(1)]
    by (simp add: page_ok_def toggle_daily_safe)
  show "page_ok (scroll_table tid x p)" "page_ok (move_focus f p)"
    using assms tables_current_of [OF table_text_input(3)] chart_ok_of [OF chart_input(2)]
      tables_current_of [OF table_text_input(4)] chart_ok_of [OF chart_input(3)]
    by (simp_all add: page_ok_def) (simp_all add: scroll_table_def move_focus_def account_selected_def)
qed

lemma page_ok_initial: "page_ok (initial_page loc)"
  by (simp add: page_ok_simps initial_page_def safe_page_def tables_current_def tables_ok_def
      table_text_def account_selected_def initial_sorts_ok chart_of_def)

section \<open>The session invariant\<close>

definition session_ok :: "session \<Rightarrow> bool" where
  "session_ok s \<longleftrightarrow> control_ok s \<and> page_ok (pg s) \<and> filters_agree (pg s)"

lemma page_refresh: "page_ok (pg s) \<Longrightarrow> page_ok (pg (refresh b s))"
  by (simp add: refresh_result page_ok_start)

lemma page_events: "page_ok (pg s) \<Longrightarrow> page_ok (pg (loadEvents s))"
  by (simp add: loadEvents_result)

lemma page_resume:
  assumes "page_ok (pg s)"
  shows "page_ok (pg (resume_sync t q f s))" and "page_ok (pg (resume_dashboard h cw t es g s))"
    and "page_ok (pg (resume_events h t e s))"
proof -
  show "page_ok (pg (resume_sync t q f s))"
    using assms by (simp add: resume_sync_def refresh_finally_def on_page_def send_def split: option.split)
  have fin: "page_ok (pg (refresh_finally t u)) = page_ok (pg u)" for u
    by (simp add: refresh_finally_def on_page_def)
  have "page_ok (pg (resume_dashboard h cw t es g s))" if "answer_of t s g = Some r" "live s t" for r
  proof -
    obtain p found where p: "show_dashboard h cw es r (pg s) = (p, found)" by fastforce
    then have "page_ok p" using page_ok_show_dashboard [OF assms, of h cw es r] by simp
    then show ?thesis
      using that p by (simp add: resume_dashboard_def fin page_events page_ok_reset on_page_def Let_def)
  qed
  then show "page_ok (pg (resume_dashboard h cw t es g s))"
    using assms by (cases "answer_of t s g"; cases "live s t") (auto simp: resume_dashboard_def fin)
  show "page_ok (pg (resume_events h t e s))"
    using assms page_ok_show_events
    by (simp add: resume_events_def events_finally_def on_page_def split: option.split)
qed

lemma page_select: "page_ok (pg s) \<Longrightarrow> page_ok (pg (selectFilters a v s))"
  by (simp add: selectFilters_def page_refresh on_page_def page_ok_filters)

lemma page_step: "session_step h s s' \<Longrightarrow> page_ok (pg s) \<Longrightarrow> page_ok (pg s')"
proof (induction rule: session_step.induct)
  case (submit s)
  then show ?case by (simp add: submit_def page_refresh)
next
  case (account v s)
  have "push_filters v p ((pg s)\<lparr>account_value := v\<rparr>) = push_filters v p (pg s)" for p
    by (simp add: push_filters_def selectAccountOption_def select_period_def Let_def)
  then show ?case
    using account page_ok_filters(1)
    by (simp add: choose_account_def selectFilters_def Let_def page_refresh on_page_def)
next
  case (period v s)
  have "push_filters a v ((pg s)\<lparr>period_value := v\<rparr>) = push_filters a v (pg s)" for a
    by (simp add: push_filters_def selectAccountOption_def select_period_def Let_def)
  then show ?case
    using period page_ok_filters(1)
    by (simp add: choose_period_def selectFilters_def Let_def page_refresh on_page_def)
next
  case (history s loc)
  then show ?case by (simp add: popstate_def Let_def on_page_def page_refresh page_ok_filters)
next
  case (previous s)
  then show ?case by (simp add: previous_page_def turn_page_def page_events on_page_def)
next
  case (next_page s)
  then show ?case by (simp add: next_page_def turn_page_def page_events on_page_def)
next
  case (sort tid s col p)
  then show ?case using page_ok_sort by simp
next
  case (names e s p)
  then show ?case using page_ok_names by simp
next
  case (resized s cw w)
  then show ?case by (simp add: on_page_def page_ok_resize)
next
  case (inspected l pe s p)
  then show ?case using page_ok_input(1) by simp
next
  case (toggled s)
  then show ?case by (simp add: on_page_def page_ok_input(2))
next
  case (scrolled tid s x)
  then show ?case by (simp add: on_page_def page_ok_input(3))
next
  case (focused fc s)
  then show ?case by (simp add: on_page_def page_ok_input(4))
qed (simp_all add: page_resume)

lemma page_started: "started s \<Longrightarrow> page_ok (pg s)"
proof -
  have "page_ok (pg (load_page loc))" for loc
  proof -
    obtain p valid where p: "readLocation (initial_page loc) = (p, valid)" by fastforce
    then have "page_ok p" using page_ok_filters(2) [OF page_ok_initial, of loc] by simp
    then show ?thesis by (simp add: load_page_def p page_refresh)
  qed
  then show "started s \<Longrightarrow> page_ok (pg s)" by (auto simp: started_def)
qed

interpretation session: invariant started "session_step h" session_ok for h
proof unfold_locales
  show "started s \<Longrightarrow> session_ok s" for s
    by (simp add: session_ok_def control_started page_started filters_started)
  show "session_ok s \<Longrightarrow> session_step h s t \<Longrightarrow> session_ok t" for s t
    by (auto simp: session_ok_def intro: control_step page_step filters_step)
qed

section \<open>What an answer reports\<close>

lemma errors_kept [simp]:
  "dashboard_errors (set_markup k s p) = dashboard_errors p" "dashboard_errors (set_hidden k b p) = dashboard_errors p"
  "dashboard_errors (set_busy k b p) = dashboard_errors p" "dashboard_errors (set_disabled k b p) = dashboard_errors p"
  "dashboard_errors (set_text k s p) = dashboard_errors p" "dashboard_errors (drop_table tid p) = dashboard_errors p"
  "dashboard_errors (put_view tid v srts p) = dashboard_errors p"
  "event_errors (set_markup k s p) = event_errors p" "event_errors (set_hidden k b p) = event_errors p"
  "event_errors (set_text k s p) = event_errors p" "event_errors (drop_table tid p) = event_errors p"
  "event_errors (put_view tid v srts p) = event_errors p"
  by (simp_all add: set_defs drop_table_def put_view_def)

lemma render_errors [simp]:
  "dashboard_errors (renderTrend h cw ds p) = dashboard_errors p" "event_errors (renderTrend h cw ds p) = event_errors p"
  "dashboard_errors (renderModels h ms p) = dashboard_errors p" "event_errors (renderModels h ms p) = event_errors p"
  "dashboard_errors (renderAccounts h as p) = dashboard_errors p" "event_errors (renderAccounts h as p) = event_errors p"
  "dashboard_errors (renderMetrics t p) = dashboard_errors p" "event_errors (renderMetrics t p) = event_errors p"
  "dashboard_errors (renderQuotas a p) = dashboard_errors p" "event_errors (renderQuotas a p) = event_errors p"
  "dashboard_errors (updateAccounts as p) = dashboard_errors p" "event_errors (updateAccounts as p) = event_errors p"
  "dashboard_errors (correct_address p) = dashboard_errors p" "event_errors (correct_address p) = event_errors p"
  "dashboard_errors (renderErrors p) = dashboard_errors p"
  by (simp_all add: renderTrend_def renderModels_def renderAccounts_def renderMetrics_def renderQuotas_def
      updateAccounts_def correct_address_def renderErrors_def Let_def split: option.split list.split prod.split)

definition reports :: "failure list \<Rightarrow> page \<Rightarrow> bool" where
  "reports es p \<longleftrightarrow> dashboard_errors p = es \<and> (hidden p ''errors-section'' \<longleftrightarrow> es = [])
     \<and> (hidden p ''errors-alert'' \<longleftrightarrow> es = []) \<and> markup p ''errors'' = errors_html (unique_failures es)
     \<and> markup p ''errors-alert'' = errors_alert_html (unique_failures es)
     \<and> label_text p ''announcement'' = loaded_text es"

lemma reports_frame [simp]:
  "reports es (set_busy k b p) = reports es p" "reports es (setSyncing b p) = reports es p"
  "reports es (resetEvents m p) = reports es p"
  by (simp_all add: reports_def resetEvents_def setSyncing_def set_defs)

lemma renderErrors_reports:
  "dashboard_errors p = es \<Longrightarrow> event_errors p = []
    \<Longrightarrow> reports es (set_text ''announcement'' (loaded_text es) (renderErrors p))"
  by (simp add: reports_def renderErrors_def set_defs Let_def)

lemma show_dashboard_reports: "reports (es @ result_errors r) (fst (show_dashboard h cw es r p))"
proof -
  let ?es = "es @ result_errors r"
  let ?p1 = "p\<lparr>dashboard_errors := ?es, event_errors := [], table_views := Map.empty\<rparr>"
  obtain p2 found where p2: "renderDashboard h cw (result_data r) ?p1 = (p2, found)" by fastforce
  have e: "dashboard_errors (correct_address p2) = ?es" "event_errors (correct_address p2) = []"
    using arg_cong [OF p2, of fst] by (auto simp: renderDashboard_def Let_def)
  have sec: "reports es' (set_hidden ''events-section'' b q) = reports es' q" for es' b q
    by (simp add: reports_def set_defs)
  show ?thesis
    using renderErrors_reports [OF e] e by (simp add: show_dashboard_def Let_def p2 sec)
qed

lemma resume_dashboard_reports:
  assumes "controllers_ok s" and "dash_ctl s = Some (t_ctl t)" and "live s t" and "answer_of t s f = Some r"
  shows "let p = pg (resume_dashboard h cw t es f s)
    in reports (es @ result_errors r) p \<and> \<not> busy p ''content'' \<and> \<not> syncing p"
proof -
  obtain p found where p: "show_dashboard h cw es r (pg s) = (p, found)" by fastforce
  then have rep: "reports (es @ result_errors r) p" using show_dashboard_reports [of es r h cw "pg s"] by simp
  have "live (loadEvents (s\<lparr>pg := p\<rparr>)) t" by (rule finish_refresh) (use assms in simp_all)
  then show ?thesis
    using rep assms by (simp add: resume_dashboard_def p refresh_finally_def loadEvents_result on_page_def Let_def)
      (simp add: set_defs setSyncing_def)
qed

text \<open>The data of an answer, as the page shows it.\<close>

definition shows_data :: "host \<Rightarrow> jsnum \<Rightarrow> dashboard \<Rightarrow> page \<Rightarrow> bool" where
  "shows_data h cw d p \<longleftrightarrow>
     markup p ''metrics'' = metrics_html (cur_account p \<noteq> []) (dash_totals d)
     \<and> hidden p ''accounts-section'' = (cur_account p \<noteq> [])
     \<and> chart_days p = days d
     \<and> (\<forall>ds. days d = Some ds \<longrightarrow> ds \<noteq> [] \<longrightarrow> cur_period p \<noteq> ''today'' \<longrightarrow>
          chart_of p = (Some ds, Some (chart_geometry cw ds, ds, plot_init)))
     \<and> (\<forall>ms. by_model d = Some ms \<longrightarrow> ms \<noteq> [] \<longrightarrow>
          (\<exists>S. table_text ''models'' p = Some (snd (snd (models_table h ms S)))))
     \<and> (\<forall>as. accounts d = Some as \<longrightarrow> as \<noteq> [] \<longrightarrow>
          (\<exists>S. table_text ''accounts'' p = Some (snd (snd (accounts_table h as (show_names p) S)))))"

definition data_view where
  "data_view p = (markup p ''metrics'', hidden p ''accounts-section'', chart_days p, cur_account p,
     cur_period p, chart_of p, show_names p, table_text ''models'' p, table_text ''accounts'' p)"

lemma shows_data_view: "data_view p = data_view p' \<Longrightarrow> shows_data h cw d p = shows_data h cw d p'"
  by (simp add: data_view_def shows_data_def)

lemma data_frame [simp]:
  "k \<noteq> ''metrics'' \<Longrightarrow> data_view (set_markup k s p) = data_view p"
  "k \<noteq> ''accounts-section'' \<Longrightarrow> data_view (set_hidden k b p) = data_view p"
  "data_view (set_busy k b p) = data_view p" "data_view (set_disabled k b p) = data_view p"
  "data_view (set_text k s p) = data_view p" "data_view (p\<lparr>address := loc\<rparr>) = data_view p"
  "data_view (p\<lparr>shown_events := se\<rparr>) = data_view p" "data_view (p\<lparr>syncing := b\<rparr>) = data_view p"
  by (simp_all add: data_view_def chart_of_def set_defs table_text_def cong: if_cong)

lemma data_after [simp]:
  "data_view (renderErrors p) = data_view p" "data_view (resetEvents s p) = data_view p"
  "data_view (setSyncing b p) = data_view p" "data_view (correct_address p) = data_view p"
  by (simp_all add: renderErrors_def resetEvents_def setSyncing_def correct_address_def Let_def
      split: option.split)

lemma render_frames [simp]:
  "markup (renderTrend h cw ds p) = markup p" "markup (renderModels h ms p) = markup p"
  "markup (renderAccounts h as p) = markup p" "hidden (renderModels h ms p) = hidden p"
  "hidden (renderAccounts h as p) = hidden p"
  "hidden (renderTrend h cw ds p) ''accounts-section'' = hidden p ''accounts-section''"
  "show_names (renderTrend h cw ds p) = show_names p" "show_names (renderModels h ms p) = show_names p"
  "show_names (renderAccounts h as p) = show_names p"
  "chart_days (renderModels h ms p) = chart_days p" "chart_days (renderAccounts h as p) = chart_days p"
  "chart_days (renderTrend h cw ds p) = ds"
  by (simp_all add: renderTrend_def renderModels_def renderAccounts_def put_view_def drop_table_def
      set_defs Let_def split: option.split list.split prod.split)

lemma render_texts:
  "table_text ''models'' (renderAccounts h as p) = table_text ''models'' p"
  "ms \<noteq> [] \<Longrightarrow> table_text ''models'' (renderModels h (Some ms) p)
     = Some (snd (snd (models_table h ms (sort_specs p))))"
  "as \<noteq> [] \<Longrightarrow> table_text ''accounts'' (renderAccounts h as p)
     = Some (snd (snd (accounts_table h as (show_names p) (sort_specs p))))"
  by (auto simp: renderModels_def renderAccounts_def table_text_def put_view_def drop_table_def Let_def
      split: list.split prod.split)

lemma renderTrend_shows:
  "cur_period p \<noteq> ''today'' \<Longrightarrow> ds \<noteq> []
    \<Longrightarrow> chart_of (renderTrend h cw (Some ds) p) = (Some ds, Some (chart_geometry cw ds, ds, plot_init))"
  by (auto simp: renderTrend_def Let_def split: list.split prod.split) (auto simp: chart_of_def set_defs)

lemma renderDashboard_shows: "shows_data h cw d (fst (renderDashboard h cw (Some d) p))"
proof -
  have q: "markup (renderQuotas a p) ''metrics'' = markup p ''metrics''"
    "hidden (renderQuotas a p) = hidden p" "show_names (renderQuotas a p) = show_names p" for a p
    by (simp_all add: renderQuotas_def set_defs)
  have m: "markup (renderMetrics t p) ''metrics'' = metrics_html (cur_account p \<noteq> []) t"
    "hidden (renderMetrics t p) = hidden p" "show_names (renderMetrics t p) = show_names p" for t p
    by (simp_all add: renderMetrics_def set_defs Let_def)
  have "hidden (set_markup k s p) = hidden p" "hidden (set_hidden k b p) = (hidden p)(k := b)" for k s b p
    by (simp_all add: set_defs)
  then show ?thesis
    by (auto simp: shows_data_def renderDashboard_def Let_def q m render_texts renderTrend_shows)
qed

lemma resume_dashboard_view:
  assumes "live s t" and "answer_of t s f = Some r"
  shows "data_view (pg (resume_dashboard h cw t es f s)) = data_view (fst (renderDashboard h cw (result_data r)
     ((pg s)\<lparr>dashboard_errors := es @ result_errors r, event_errors := [], table_views := Map.empty\<rparr>)))"
proof -
  obtain p found where p: "show_dashboard h cw es r (pg s) = (p, found)" by fastforce
  let ?p1 = "(pg s)\<lparr>dashboard_errors := es @ result_errors r, event_errors := [], table_views := Map.empty\<rparr>"
  obtain p2 fd where p2: "renderDashboard h cw (result_data r) ?p1 = (p2, fd)" by fastforce
  have "data_view p = data_view p2"
    using p by (simp add: show_dashboard_def Let_def p2 split: if_splits) auto
  moreover have "data_view (pg (resume_dashboard h cw t es f s)) = data_view p"
    by (simp add: resume_dashboard_def assms p refresh_finally_def loadEvents_result on_page_def Let_def)
  ultimately show ?thesis by (simp add: p2)
qed

lemma resume_dashboard_shows:
  assumes "live s t" and "answer_of t s f = Some r" and "result_data r = Some d"
  shows "shows_data h cw d (pg (resume_dashboard h cw t es f s))"
  using renderDashboard_shows shows_data_view [OF resume_dashboard_view [OF assms(1,2)]]
  by (simp add: assms(3))

section \<open>Progress\<close>

text \<open>
  The requests a task may still send, itself included: a sync is followed by the dashboard,
  the dashboard by a page of events.
\<close>

definition remaining :: "task \<Rightarrow> nat" where
  "remaining t = (case kind t of AwaitSync _ \<Rightarrow> 3 | AwaitDashboard _ \<Rightarrow> 2 | AwaitEvents \<Rightarrow> 1)"

definition work :: "session \<Rightarrow> nat" where
  "work s = sum_list (map remaining (pending s))"

inductive answer_step :: "host \<Rightarrow> session \<Rightarrow> session \<Rightarrow> bool" for h where
  synced: "i < length (pending s) \<Longrightarrow> pending s ! i = t \<Longrightarrow> kind t = AwaitSync q \<Longrightarrow>
    answer_step h s (resume_sync t q f (take_task i s))"
| loaded: "i < length (pending s) \<Longrightarrow> pending s ! i = t \<Longrightarrow> kind t = AwaitDashboard es \<Longrightarrow>
    answer_step h s (resume_dashboard h cw t es f (take_task i s))"
| paged: "i < length (pending s) \<Longrightarrow> pending s ! i = t \<Longrightarrow> kind t = AwaitEvents \<Longrightarrow>
    answer_step h s (resume_events h t f (take_task i s))"

inductive_simps answer_step_iff: "answer_step h s s'"

lemma answer_step_session: "answer_step h s s' \<Longrightarrow> session_step h s s'"
  by (induction rule: answer_step.induct) (auto intro: session_step.intros)

lemma work_page [simp]: "work (on_page f s) = work s" "work (s\<lparr>pg := p\<rparr>) = work s"
  by (simp_all add: work_def on_page_def)

lemma work_finally [simp]: "work (refresh_finally t s) = work s" "work (events_finally t s) = work s"
  by (simp_all add: refresh_finally_def events_finally_def)

lemma work_take:
  assumes "i < length (pending s)" and "pending s ! i = t"
  shows "work s = work (take_task i s) + remaining t"
proof -
  have "work s = sum_list (map remaining (take i (pending s) @ t # drop (Suc i) (pending s)))"
    unfolding work_def using take_task_split [OF assms(1)] assms(2) by (simp only:)
  then show ?thesis by (simp add: work_def take_task_def)
qed

lemma work_resume:
  "work (resume_sync t q f s) \<le> work s + 2" "work (resume_dashboard h cw t es g s) \<le> work s + 1"
  "work (resume_events h t e s) = work s"
proof -
  show "work (resume_sync t q f s) \<le> work s + 2"
    by (simp add: resume_sync_def split: option.split) (simp add: work_def send_def remaining_def)
  show "work (resume_dashboard h cw t es g s) \<le> work s + 1"
    by (simp add: resume_dashboard_def Let_def split: option.split prod.split)
      (simp add: work_def loadEvents_result remaining_def events_task_def)
  show "work (resume_events h t e s) = work s"
    by (simp add: resume_events_def split: option.split)
qed

lemma answer_work: "answer_step h s s' \<Longrightarrow> work s' < work s"
proof (induction rule: answer_step.induct)
  case (synced i s t q f)
  then show ?case using work_take [OF synced(1,2)] work_resume(1) [of t q f "take_task i s"]
    by (simp add: remaining_def)
next
  case (loaded i s t es cw f)
  then show ?case using work_take [OF loaded(1,2)] work_resume(2) [of h cw t es f "take_task i s"]
    by (simp add: remaining_def)
next
  case (paged i s t f)
  then show ?case using work_take [OF paged(1,2)] by (simp add: remaining_def work_resume(3))
qed

lemma answer_possible:
  assumes "pending s \<noteq> []"
  shows "\<exists>s'. answer_step h s s'"
proof -
  have i: "0 < length (pending s)" "pending s ! 0 = hd (pending s)" using assms by (cases "pending s"; simp)+
  show ?thesis
    by (cases "kind (hd (pending s))")
      (blast intro: answer_step.intros [OF i])+
qed

lemma answers_drain: "\<exists>s'. (answer_step h)\<^sup>*\<^sup>* s s' \<and> pending s' = []"
proof (induction "work s" arbitrary: s rule: less_induct)
  case less
  show ?case
  proof (cases "pending s = []")
    case False
    then obtain s1 where s1: "answer_step h s s1" using answer_possible by blast
    from less [OF answer_work [OF s1]] obtain s' where "(answer_step h)\<^sup>*\<^sup>* s1 s'" "pending s' = []"
      by blast
    then show ?thesis using s1 by (blast intro: converse_rtranclp_into_rtranclp)
  qed blast
qed

lemma answers_bounded: "((answer_step h) ^^ n) s s' \<Longrightarrow> work s' + n \<le> work s"
  by (induction n arbitrary: s') (fastforce dest: answer_work)+

lemma quiet: "session_ok s \<Longrightarrow> pending s = [] \<Longrightarrow> idle_page (pg s)"
  by (simp add: session_ok_def control_ok_def phase_ok_def lives_def)

lemma answers_keep: "(answer_step h)\<^sup>*\<^sup>* s s' \<Longrightarrow> session_ok s \<Longrightarrow> session_ok s'"
  by (induction rule: rtranclp_induct)
    (auto dest: answer_step_session intro: session.preserved)

section \<open>The abstract machine of the requests\<close>

text \<open>
  What the user sees of the requests: nothing in flight, a sync, a dashboard, a page of events;
  whether the refresh button is locked; and how many refreshes and how many requests that can be
  aborted on their own have been begun.
\<close>

datatype phase = Idle | Syncing | Loading | Paging

record phases =
  ph_phase :: phase
  ph_locked :: bool
  ph_refreshes :: nat
  ph_requests :: nat

fun phase_of_kind :: "task_kind \<Rightarrow> phase" where
  "phase_of_kind (AwaitSync _) = Syncing"
| "phase_of_kind (AwaitDashboard _) = Loading"
| "phase_of_kind AwaitEvents = Paging"

definition phase_of :: "session \<Rightarrow> phase" where
  "phase_of s = (case lives s of [] \<Rightarrow> Idle | t # _ \<Rightarrow> phase_of_kind (kind t))"

definition phase_view :: "session \<Rightarrow> phases" where
  "phase_view s = \<lparr>ph_phase = phase_of s, ph_locked = syncing (pg s), ph_refreshes = refresh_id s,
     ph_requests = next_ctl s\<rparr>"

text \<open>
  The labels: what the user did, or which answer came. An answer is to the live request or stale,
  and a dashboard either goes on to the events of an account or does not.
\<close>

datatype move =
    Submitted
  | Filtered
  | Returned bool      \<comment> \<open>to the filters that are selected\<close>
  | Turned bool      \<comment> \<open>to a page that exists\<close>
  | Viewed
  | SyncAnswered bool
  | DashboardAnswered bool bool
  | EventsAnswered bool

definition begun :: "phase \<Rightarrow> bool \<Rightarrow> phases \<Rightarrow> phases" where
  "begun p b v = \<lparr>ph_phase = p, ph_locked = b, ph_refreshes = Suc (ph_refreshes v), ph_requests = Suc (ph_requests v)\<rparr>"

definition paged :: "phases \<Rightarrow> phases" where
  "paged v = v\<lparr>ph_phase := Paging, ph_locked := False, ph_requests := Suc (ph_requests v)\<rparr>"

definition idled :: "phases \<Rightarrow> phases" where
  "idled v = v\<lparr>ph_phase := Idle, ph_locked := False\<rparr>"

fun phase_next :: "move \<Rightarrow> phases \<Rightarrow> phases option" where
  "phase_next Submitted v = Some (if ph_locked v then v else begun Syncing True v)"
| "phase_next Filtered v = Some (begun Loading False v)"
| "phase_next (Returned same) v = Some (if same then v else begun Loading False v)"
| "phase_next (Turned exists) v = (if ph_locked v \<or> ph_phase v \<in> {Syncing, Loading} then None
     else Some (if exists then paged v else v))"
| "phase_next Viewed v = Some v"
| "phase_next (SyncAnswered l) v = (if \<not> l then Some v
     else if ph_phase v = Syncing then Some (v\<lparr>ph_phase := Loading\<rparr>) else None)"
| "phase_next (DashboardAnswered l ev) v = (if \<not> l then Some v
     else if ph_phase v = Loading then Some (if ev then paged v else idled v) else None)"
| "phase_next (EventsAnswered l) v = (if \<not> l then Some v
     else if ph_phase v = Paging then Some (idled v) else None)"

definition names_selected :: "location \<Rightarrow> page \<Rightarrow> bool" where
  "names_selected loc p \<longleftrightarrow> to_lower (f_account (locationFilters loc)) = to_lower (cur_account p)
     \<and> f_period (locationFilters loc) = cur_period p"

inductive session_move :: "host \<Rightarrow> move \<Rightarrow> session \<Rightarrow> session \<Rightarrow> bool" for h where
  "session_move h Submitted s (submit s)"
| "v \<in> set (map snd (account_options (pg s))) \<Longrightarrow> session_move h Filtered s (choose_account v s)"
| "v \<in> set periods \<Longrightarrow> session_move h Filtered s (choose_period v s)"
| "session_move h (Returned (names_selected loc (pg s))) s (popstate loc s)"
| "\<not> disabled (pg s) ''previous'' \<Longrightarrow> session_move h (Turned (1 < cur_page (pg s))) s (previous_page s)"
| "\<not> disabled (pg s) ''next'' \<Longrightarrow>
    session_move h (Turned (cur_page (pg s) < cur_total_pages (pg s))) s (next_page s)"
| "has_table tid (pg s) \<Longrightarrow> col < table_width tid \<Longrightarrow>
    sort_button_click tid col (pg s) = Some p \<Longrightarrow> session_move h Viewed s (s\<lparr>pg := p\<rparr>)"
| "toggle_names e (pg s) = Some p \<Longrightarrow> session_move h Viewed s (s\<lparr>pg := p\<rparr>)"
| "session_move h Viewed s (on_page (resize h cw w) s)"
| "plot_input l pe (pg s) = Some p \<Longrightarrow> session_move h Viewed s (s\<lparr>pg := p\<rparr>)"
| "session_move h Viewed s (on_page toggle_daily s)"
| "has_table tid (pg s) \<Longrightarrow> session_move h Viewed s (on_page (scroll_table tid x) s)"
| "(\<And>tid c. fc = Some (tid, c) \<Longrightarrow> has_table tid (pg s)) \<Longrightarrow> session_move h Viewed s (on_page (move_focus fc) s)"
| "i < length (pending s) \<Longrightarrow> pending s ! i = t \<Longrightarrow> kind t = AwaitSync q \<Longrightarrow>
    session_move h (SyncAnswered (live s t)) s (resume_sync t q f (take_task i s))"
| "i < length (pending s) \<Longrightarrow> pending s ! i = t \<Longrightarrow> kind t = AwaitDashboard es \<Longrightarrow>
    session_move h (DashboardAnswered (live s t) (goes_on t f s)) s (resume_dashboard h cw t es f (take_task i s))"
| "i < length (pending s) \<Longrightarrow> pending s ! i = t \<Longrightarrow> kind t = AwaitEvents \<Longrightarrow>
    session_move h (EventsAnswered (live s t)) s (resume_events h t f (take_task i s))"

lemma session_labels: "session_step h s s' \<longleftrightarrow> (\<exists>m. session_move h m s s')"
proof
  show "\<exists>m. session_move h m s s'" if "session_step h s s'"
    using that by (cases rule: session_step.cases) (blast intro: session_move.intros)+
  show "session_step h s s'" if "\<exists>m. session_move h m s s'"
    using that by (auto elim!: session_move.cases intro: session_step.intros)
qed

lemma phase_refresh: "controllers_ok s \<Longrightarrow> phase_view (refresh b s) = begun (if b then Syncing else Loading) b (phase_view s)"
  using refresh_controllers(1) [of s b]
  by (simp add: phase_view_def phase_of_def first_task_def begun_def Let_def refresh_result)

lemma begun_page [simp]: "begun p b (phase_view (on_page f s)) = begun p b (phase_view s)"
  by (simp add: begun_def phase_view_def on_page_def)

lemma phase_same:
  "lives s' = lives s \<Longrightarrow> syncing (pg s') = syncing (pg s) \<Longrightarrow> refresh_id s' = refresh_id s \<Longrightarrow> next_ctl s' = next_ctl s
    \<Longrightarrow> phase_view s' = phase_view s"
  by (simp add: phase_view_def phase_of_def)

lemma phase_frame: "control_view p = control_view (pg s) \<Longrightarrow> phase_view (s\<lparr>pg := p\<rparr>) = phase_view s"
  by (rule phase_same) (simp_all add: control_view_def)

lemma taken_counters [simp]: "refresh_id (take_task i s) = refresh_id s" "next_ctl (take_task i s) = next_ctl s"
  by (simp_all add: take_task_def)

lemma sent_counters [simp]: "refresh_id (send k i c q s) = refresh_id s" "next_ctl (send k i c q s) = next_ctl s"
  by (simp_all add: send_def)

lemma phase_dead:
  assumes "i < length (pending s)" and "pending s ! i = t" and "\<not> live s t"
  shows "phase_view (take_task i s) = phase_view s"
  using lives_take(1) [OF assms(1)] assms by (intro phase_same) simp_all

lemma phase_turn:
  assumes ok: "control_ok s" and off: "\<not> (disabled (pg s) ''previous'' \<and> disabled (pg s) ''next'')"
  shows "\<not> ph_locked (phase_view s) \<and> ph_phase (phase_view s) \<notin> {Syncing, Loading}"
    and "phase_view (turn_page d s) = paged (phase_view s)"
proof -
  let ?s = "on_page (\<lambda>p. p\<lparr>cur_page := cur_page p + d\<rparr>) s"
  have ph: "\<not> syncing (pg s) \<and> (phase_of s = Idle \<or> phase_of s = Paging)"
    and nr: "t \<in> set (lives s) \<Longrightarrow> \<not> refresh_task t" for t
    using ok off by (auto simp: control_ok_def phase_of_def idle_page_def waiting_def
        refresh_task_def elim!: phase_cases split: task_kind.splits)
  then show "\<not> ph_locked (phase_view s) \<and> ph_phase (phase_view s) \<notin> {Syncing, Loading}"
    by (auto simp: phase_view_def)
  have "lives (loadEvents ?s) = [events_task ?s]"
    using loadEvents_controllers(1) [of ?s] ok nr by (simp add: control_ok_def)
  then have "phase_of (turn_page d s) = Paging"
    by (simp add: turn_page_def phase_of_def events_task_def)
  moreover have "\<not> syncing (pg (turn_page d s))" "refresh_id (turn_page d s) = refresh_id s"
    "next_ctl (turn_page d s) = Suc (next_ctl s)"
    using ph by (simp_all add: turn_page_def loadEvents_result on_page_def set_defs)
  ultimately show "phase_view (turn_page d s) = paged (phase_view s)" by (simp add: phase_view_def paged_def)
qed

lemma phase_answer:
  assumes ok: "control_ok s" and i: "i < length (pending s)" "pending s ! i = t" and l: "live s t"
  shows "phase_of s = phase_of_kind (kind t)" and "kind t = AwaitEvents \<Longrightarrow> \<not> syncing (pg s)"
proof -
  note tl = taken_live [OF ok i l]
  have "t \<in> set (lives s)" using i l nth_mem [OF i(1)] by (simp add: lives_def)
  then have "lives s = [t]" using ok by (auto simp: control_ok_def elim: phase_cases)
  then show "phase_of s = phase_of_kind (kind t)" by (simp add: phase_of_def)
  show "kind t = AwaitEvents \<Longrightarrow> \<not> syncing (pg s)" using tl(2) by (simp add: waiting_def)
qed

lemma phase_synced:
  assumes ok: "control_ok s" and i: "i < length (pending s)" "pending s ! i = t" and k: "kind t = AwaitSync q"
  shows "phase_next (SyncAnswered (live s t)) (phase_view s) = Some (phase_view (resume_sync t q f (take_task i s)))"
proof (cases "live s t")
  case False
  then show ?thesis using phase_dead [OF i] by (simp add: dead_answer)
next
  case True
  note tl = taken_live [OF ok i True]
  obtain r where r: "answer_of t (take_task i s) f = Some r"
    using answer_live [of "take_task i s" t f] True by auto
  let ?k = "AwaitDashboard (result_errors r)"
  have "lives (send ?k (t_id t) (t_ctl t) q (take_task i s)) =
      [\<lparr>kind = ?k, t_id = t_id t, t_ctl = t_ctl t, t_target = request_target (take_task i s), t_query = q\<rparr>]"
    using tl True k by (intro send_controllers(2)) (simp_all add: live_def refresh_task_def)
  then have "phase_view (resume_sync t q f (take_task i s)) = (phase_view s)\<lparr>ph_phase := Loading\<rparr>"
    using True by (simp add: resume_sync_def r phase_view_def phase_of_def) (simp add: send_def)
  then show ?thesis using True phase_answer(1) [OF ok i True] k by (simp add: phase_view_def)
qed

lemma phase_loaded:
  assumes ok: "control_ok s" and i: "i < length (pending s)" "pending s ! i = t"
    and k: "kind t = AwaitDashboard es"
  shows "phase_next (DashboardAnswered (live s t) (goes_on t f s)) (phase_view s)
    = Some (phase_view (resume_dashboard h cw t es f (take_task i s)))"
proof (cases "live s t")
  case False
  then show ?thesis using phase_dead [OF i] by (simp add: dead_answer)
next
  case True
  note tl = taken_live [OF ok i True]
  let ?s = "\<lambda>p. (take_task i s)\<lparr>pg := p\<rparr>"
  have c: "controllers_ok (?s p)" "lives (?s p) = []" for p using tl by simp_all
  have v: "ph_phase (phase_view s) = Loading"
    using phase_answer(1) [OF ok i True] k by (simp add: phase_view_def)
  have off: "\<not> syncing (end_refresh p)" for p by (simp add: end_refresh_def setSyncing_def set_defs)
  from ok i k True show ?thesis
  proof (cases rule: resume_dashboard_live [where h = h and cw = cw and f = f])
    case (1 p)
    then have "phase_view (resume_dashboard h cw t es f (take_task i s)) = paged (phase_view s)"
      using loadEvents_controllers(1) [OF c(1)] c(2) off
      by (simp add: phase_view_def phase_of_def events_task_def paged_def)
        (simp add: on_page_def off loadEvents_result)
    then show ?thesis using v 1(4) True by simp
  next
    case (2 p)
    then have "phase_view (resume_dashboard h cw t es f (take_task i s)) = idled (phase_view s)"
      using c(2) off by (simp add: phase_view_def phase_of_def idled_def) (simp add: on_page_def off)
    then show ?thesis using v 2(3) True by simp
  qed
qed

lemma phase_paged:
  assumes ok: "control_ok s" and i: "i < length (pending s)" "pending s ! i = t"
    and k: "kind t = AwaitEvents"
  shows "phase_next (EventsAnswered (live s t)) (phase_view s) = Some (phase_view (resume_events h t f (take_task i s)))"
proof (cases "live s t")
  case False
  then show ?thesis using phase_dead [OF i] by (simp add: dead_answer)
next
  case True
  obtain r where r: "answer_of t (take_task i s) f = Some r"
    using answer_live [of "take_task i s" t f] True by auto
  have "phase_view (resume_events h t f (take_task i s)) = idled (phase_view s)"
    using True taken_live(1) [OF ok i True] phase_answer(2) [OF ok i True k]
    by (simp add: resume_events_def r events_finally_def phase_view_def phase_of_def idled_def)
      (simp add: on_page_def set_defs show_events_facts)
  then show ?thesis using True phase_answer [OF ok i True] k by (simp add: phase_view_def)
qed

lemma phase_viewed:
  assumes "control_view p = control_view (pg s)"
  shows "phase_next Viewed (phase_view s) = Some (phase_view (s\<lparr>pg := p\<rparr>))"
  using phase_frame [OF assms] by simp

lemma phase_follows:
  "session_move h m s s' \<Longrightarrow> control_ok s \<Longrightarrow> phase_next m (phase_view s) = Some (phase_view s')"
proof (induction rule: session_move.induct)
  case (1 s)
  have "ph_locked (phase_view s) = syncing (pg s)" by (simp add: phase_view_def)
  then show ?case using 1 by (simp add: submit_def control_ok_def phase_refresh)
next
  case (2 v s)
  then show ?case using 2
    by (simp add: choose_account_def selectFilters_def Let_def control_ok_def phase_refresh)
next
  case (3 v s)
  then show ?case by (simp add: choose_period_def selectFilters_def Let_def control_ok_def phase_refresh)
next
  case (4 loc s)
  let ?s = "on_page (\<lambda>p. p\<lparr>address := loc\<rparr>) s"
  have "cur_account (pg ?s) = cur_account (pg s)" "cur_period (pg ?s) = cur_period (pg s)" "phase_view ?s = phase_view s"
    by (simp_all add: on_page_def phase_frame)
  then show ?case using 4
    by (simp add: popstate_def Let_def control_ok_def phase_refresh names_selected_def)
next
  case (5 s)
  then show ?case using phase_turn [of s] by (auto simp: previous_page_def)
next
  case (6 s)
  then show ?case using phase_turn [of s] by (auto simp: next_page_def)
next
  case (7 tid s col p)
  then show ?case using phase_viewed view_handlers(1) by metis
next
  case (8 e s p)
  then show ?case using phase_viewed view_handlers(2) by metis
next
  case (9 s cw w)
  then show ?case unfolding on_page_def using phase_viewed view_handlers(3) by metis
next
  case (10 l pe s p)
  then show ?case using phase_viewed view_handlers(4) by metis
next
  case (11 s)
  then show ?case unfolding on_page_def using phase_viewed view_input by metis
next
  case (12 tid s x)
  then show ?case unfolding on_page_def using phase_viewed view_input by metis
next
  case (13 fc s)
  then show ?case unfolding on_page_def using phase_viewed view_input by metis
qed (simp_all add: phase_synced phase_loaded phase_paged del: phase_next.simps)

interpretation phases: simulation started "session_step h" session_ok "session_move h" phase_next phase_view for h
proof (unfold_locales, goal_cases)
  case (1 s t)
  show ?case by (rule session_labels)
next
  case (2 s l t)
  then show ?case by (auto simp: session_ok_def intro: phase_follows)
qed

text \<open>A loaded page waits for its first dashboard.\<close>

lemma phase_started:
  "phase_view (load_page loc) = \<lparr>ph_phase = Loading, ph_locked = False, ph_refreshes = 1, ph_requests = 1\<rparr>"
  by (auto simp: load_page_def Let_def phase_refresh controllers_ok_def split: prod.split)
    (simp_all add: begun_def phase_view_def)

section \<open>The lock\<close>

inductive_cases submittedE: "session_move h Submitted s s'"

lemma submitted: "session_move h Submitted s s' \<Longrightarrow> s' = submit s"
  by (erule submittedE)

text \<open>Only a submit locks; only a choice of filters or a dashboard unlocks.\<close>

lemma phase_locks:
  assumes "phase_next m v = Some v'"
  shows "\<not> ph_locked v \<Longrightarrow> ph_locked v' \<Longrightarrow> m = Submitted"
    and "ph_locked v \<Longrightarrow> \<not> ph_locked v' \<Longrightarrow> (ph_phase v = Syncing \<longrightarrow> ph_locked v)
      \<Longrightarrow> m = Filtered \<or> m = Returned False \<or> (\<exists>b. m = DashboardAnswered True b) \<or> ph_phase v = Paging"
    and "(ph_phase v = Syncing \<longrightarrow> ph_locked v) \<Longrightarrow> ph_phase v' = Syncing \<longrightarrow> ph_locked v'"
  using assms by (cases m; auto simp: begun_def paged_def idled_def split: if_splits)+

lemma sync_in_flight: "reachable started (session_step h) s \<Longrightarrow> phase_of s = Syncing \<longrightarrow> syncing (pg s)"
proof (induction rule: reachable.induct)
  case (start s)
  then obtain loc where "s = load_page loc" by (auto simp: started_def)
  then show ?case using phase_started [of loc] by (simp add: phase_view_def)
next
  case (move s t)
  obtain m where "session_move h m s t" using move.hyps(2) session_labels by blast
  from phase_locks(3) [OF phases.step_follows [OF move.hyps(1) this]] move.IH show ?case
    by (simp add: phase_view_def)
qed

lemma unlocked_submit:
  assumes "control_ok s" and "\<not> syncing (pg s)"
  shows "syncing (pg (submit s))"
    and "\<exists>t q. lives (submit s) = [t] \<and> kind t = AwaitSync q \<and> t_query t = sync_query (pg s)"
proof -
  have s: "submit s = refresh True s" using assms(2) by (simp add: submit_def)
  show "syncing (pg (submit s))" by (simp add: s refresh_result)
  have "lives (submit s) = [first_task True s]" unfolding s
    using refresh_controllers(1) assms(1) by (simp add: control_ok_def)
  then show "\<exists>t q. lives (submit s) = [t] \<and> kind t = AwaitSync q \<and> t_query t = sync_query (pg s)"
    by (simp add: first_task_def Let_def)
qed

section \<open>Going back\<close>

lemma popstate_returns:
  assumes "controllers_ok b" and "locationFilters loc = \<lparr>f_account = a, f_period = v, f_valid = f\<rparr>"
  shows "address (pg (popstate loc b)) = loc"
    and "to_lower a = to_lower (cur_account (pg b)) \<and> v = cur_period (pg b) \<Longrightarrow>
      pending (popstate loc b) = pending b \<and> cur_account (pg (popstate loc b)) = cur_account (pg b)
      \<and> cur_period (pg (popstate loc b)) = cur_period (pg b)"
    and "\<not> (to_lower a = to_lower (cur_account (pg b)) \<and> v = cur_period (pg b)) \<Longrightarrow>
      cur_account (pg (popstate loc b)) = a \<and> cur_period (pg (popstate loc b)) = v
      \<and> (\<exists>t. lives (popstate loc b) = [t] \<and> kind t = AwaitDashboard [] \<and> t_query t = dashboard_query (pg (popstate loc b)))"
proof -
  let ?p = "fst (readLocation ((pg b)\<lparr>address := loc\<rparr>))"
  let ?b = "on_page (\<lambda>p. fst (readLocation p)) (on_page (\<lambda>p. p\<lparr>address := loc\<rparr>) b)"
  have p: "cur_account ?p = a" "cur_period ?p = v" "address ?p = loc"
    using assms(2) by (simp_all add: readLocation_def select_period_def selectAccountOption_def Let_def)
  have pb: "pg ?b = ?p" by (simp add: on_page_def)
  have cases: "popstate loc b = (if to_lower a = to_lower (cur_account (pg b)) \<and> v = cur_period (pg b)
      then on_page (\<lambda>p. p\<lparr>address := loc\<rparr>) b else refresh False ?b)"
    using assms(2) by (simp add: popstate_def Let_def on_page_def)
  have "address (start_refresh False ?p) = loc" using p by (simp add: start_refresh_def setSyncing_def set_defs)
  then show "address (pg (popstate loc b)) = loc" using pb by (simp add: cases refresh_result) (simp add: on_page_def)
  show "pending (popstate loc b) = pending b \<and> cur_account (pg (popstate loc b)) = cur_account (pg b)
      \<and> cur_period (pg (popstate loc b)) = cur_period (pg b)"
    if "to_lower a = to_lower (cur_account (pg b)) \<and> v = cur_period (pg b)"
    using that by (simp add: cases) (simp add: on_page_def)
  show "cur_account (pg (popstate loc b)) = a \<and> cur_period (pg (popstate loc b)) = v
      \<and> (\<exists>t. lives (popstate loc b) = [t] \<and> kind t = AwaitDashboard [] \<and> t_query t = dashboard_query (pg (popstate loc b)))"
    if "\<not> (to_lower a = to_lower (cur_account (pg b)) \<and> v = cur_period (pg b))"
  proof -
    have r: "popstate loc b = refresh False ?b" using that by (simp only: cases if_False)
    have "lives (refresh False ?b) = [first_task False ?b]"
      by (rule refresh_controllers(1)) (simp add: assms(1))
    moreover have "dashboard_query (start_refresh False ?p) = dashboard_query ?p" by (rule queries_filters(1)) simp_all
    ultimately show ?thesis
      unfolding r using p pb by (simp add: refresh_result first_task_def Let_def)
  qed
qed

end
