(* ===== verification/Theme.thy ===== *)
theory Theme
  imports Systems
begin

text \<open>
  The colour theme (\<open>web/app.js\<close>, lines 15 to 17 and 533 to 556, 564 and 565, and the
  inline script in the head of \<open>web/index.html\<close>): the attribute on the document element,
  the label of the button, the announcement, and the stored choice, which is lost when the
  browser's storage throws.
\<close>

definition themes :: "string list" where
  "themes = [''auto'', ''light'', ''dark'']"

definition theme_name :: "string \<Rightarrow> string" where
  "theme_name t = (if t = ''auto'' then ''Auto'' else if t = ''light'' then ''Light''
     else if t = ''dark'' then ''Dark'' else ''undefined'')"

record theme_state =
  theme_attr :: "string option"       \<comment> \<open>\<open>document.documentElement.dataset.theme\<close>\<close>
  theme_title :: string               \<comment> \<open>the title of the button\<close>
  theme_said :: string                \<comment> \<open>the announcement\<close>
  theme_stored :: "string option"     \<comment> \<open>the item in \<open>localStorage\<close>\<close>

definition currentTheme :: "theme_state \<Rightarrow> string" where
  "currentTheme st = (case theme_attr st of None \<Rightarrow> ''auto'' | Some t \<Rightarrow> t)"

fun index_of :: "string \<Rightarrow> string list \<Rightarrow> nat \<Rightarrow> int" where
  "index_of t [] i = - 1"
| "index_of t (u # us) i = (if t = u then int i else index_of t us (Suc i))"

definition nextTheme :: "string \<Rightarrow> string" where
  "nextTheme t = themes ! nat ((index_of t themes 0 + 1) mod int (length themes))"

definition labelTheme :: "string \<Rightarrow> theme_state \<Rightarrow> theme_state" where
  "labelTheme t st = st\<lparr>theme_title :=
     theme_name t @ '' theme (click for '' @ theme_name (nextTheme t) @ '')''\<rparr>"

text \<open>\<open>writable\<close>: whether the storage accepts the write or throws.\<close>

definition setTheme :: "bool \<Rightarrow> string \<Rightarrow> theme_state \<Rightarrow> theme_state" where
  "setTheme writable t st =
     (let st1 = st\<lparr>theme_attr := (if t = ''auto'' then None else Some t)\<rparr>;
          st2 = labelTheme t st1;
          st3 = st2\<lparr>theme_said := theme_name t @ '' theme.''\<rparr>
      in if writable then st3\<lparr>theme_stored := (if t = ''auto'' then None else Some t)\<rparr> else st3)"

definition click_theme :: "bool \<Rightarrow> theme_state \<Rightarrow> theme_state" where
  "click_theme writable st = setTheme writable (nextTheme (currentTheme st)) st"

text \<open>Loading the page: the script in the head, then the label.\<close>

definition load_theme :: "bool \<Rightarrow> string option \<Rightarrow> theme_state" where
  "load_theme readable stored =
     (let attr = (case stored of None \<Rightarrow> None | Some t \<Rightarrow>
            if readable \<and> (t = ''light'' \<or> t = ''dark'') then Some t else None);
          st = \<lparr>theme_attr = attr, theme_title = ''Auto theme (click for Light)'',
            theme_said = [], theme_stored = stored\<rparr>
      in labelTheme (currentTheme st) st)"

section \<open>Properties\<close>

definition theme_ok :: "theme_state \<Rightarrow> bool" where
  "theme_ok st \<longleftrightarrow> theme_attr st \<in> {None, Some ''light'', Some ''dark''}
     \<and> theme_title st = theme_name (currentTheme st) @ '' theme (click for ''
         @ theme_name (nextTheme (currentTheme st)) @ '')''"

lemma nextTheme_simps [simp]:
  "nextTheme ''auto'' = ''light''" "nextTheme ''light'' = ''dark''" "nextTheme ''dark'' = ''auto''"
  by (simp_all add: nextTheme_def themes_def)

lemma theme_ok_load: "theme_ok (load_theme readable stored)"
  by (auto simp: theme_ok_def load_theme_def labelTheme_def currentTheme_def Let_def split: option.split)

lemma theme_ok_click: "theme_ok st \<Longrightarrow> theme_ok (click_theme writable st)"
  by (auto simp: theme_ok_def click_theme_def setTheme_def labelTheme_def currentTheme_def Let_def)

lemma click_theme_current:
  "theme_ok st \<Longrightarrow> currentTheme (click_theme writable st) = nextTheme (currentTheme st)"
  by (auto simp: theme_ok_def click_theme_def setTheme_def labelTheme_def currentTheme_def Let_def)

interpretation theme: invariant "\<lambda>st. \<exists>readable stored. st = load_theme readable stored"
    "\<lambda>st st'. \<exists>writable. st' = click_theme writable st" theme_ok
  by unfold_locales (auto simp: theme_ok_load theme_ok_click)

lemma click_theme_stored:
  "theme_ok st \<Longrightarrow> theme_stored (click_theme True st) = theme_attr (click_theme True st)"
  by (auto simp: theme_ok_def click_theme_def setTheme_def labelTheme_def currentTheme_def Let_def)

lemma reload_theme:
  "theme_ok st \<Longrightarrow>
     currentTheme (load_theme True (theme_stored (click_theme True st))) = currentTheme (click_theme True st)"
  using theme_ok_click [of st True] click_theme_stored [of st]
  by (auto simp: Let_def theme_ok_def load_theme_def labelTheme_def currentTheme_def)

end
