(* ===== verification/Demo.thy ===== *)
theory Demo
  imports Session Theme
begin

text \<open>
  A small session on which the properties are evaluated: an account with a metered quota and
  two days of usage, the page loaded from an address with filters and from a plain one, and
  the answer of the service to the first request.
\<close>

section \<open>Data\<close>

definition demo_host :: host where
  "demo_host = \<lparr>collate = ascii_collate, local_time = (\<lambda>_. None), time_zone = ''UTC''\<rparr>"

definition demo_address :: location where
  "demo_address = \<lparr>origin_path = ''/'', search = ''account=Octo&period=today'', fragment = []\<rparr>"

definition demo_plain :: location where
  "demo_plain = \<lparr>origin_path = ''/'', search = [], fragment = []\<rparr>"

definition demo_quota :: quota where
  "demo_quota = \<lparr>unlimited = Bool False, entitlement = Num (Fin 300), quota_remaining = Num (Fin 45),
     percent_remaining = Num (Fin 15), has_quota = Bool True, credits_used = Null\<rparr>"

definition demo_account :: account where
  "demo_account = \<lparr>login = ''Octo'', display_name = ''Cat'', copilot_plan = Str ''pro'',
     quota_reset_date = Null, quota_snapshots = Some \<lparr>chat = None, completions = None,
       premium_interactions = Some demo_quota\<rparr>, account_totals = None\<rparr>"

definition demo_totals :: totals where
  "demo_totals = \<lparr>input_tokens = Num (Fin 0), output_tokens = Num (Fin 5),
     cache_read_input_tokens = Num (Fin 0), cache_creation_input_tokens = Num (Fin 4),
     request_count = Num (Fin 2), total_tokens = Num (Fin 9), costs = None\<rparr>"

definition demo_day :: "string \<Rightarrow> rat \<Rightarrow> day" where
  "demo_day s q = \<lparr>date = s, recorded = Bool True,
     totals_of_day = Some (demo_totals\<lparr>total_tokens := Num (Fin q)\<rparr>)\<rparr>"

definition demo_days :: "day list" where
  "demo_days = [demo_day ''2026-01-01'' 5, demo_day ''2026-01-02'' 9]"

definition demo_data :: dashboard where
  "demo_data = \<lparr>accounts = Some [demo_account], dash_totals = None, days = Some demo_days, by_model = Some []\<rparr>"

definition demo_answer :: "dashboard fetched" where
  "demo_answer = Parsed 200 (Some \<lparr>body_errors = Some [], body_data = Some (Some demo_data)\<rparr>)"

definition demo_load :: "location \<Rightarrow> session" where
  "demo_load loc = resume_dashboard demo_host (num_of_nat 800) (hd (pending (load_page loc))) []
     demo_answer (take_task 0 (load_page loc))"

definition demo_loaded :: session where
  "demo_loaded = demo_load demo_address"

section \<open>The session\<close>

lemma load_reachable: "reachable started (session_step h) (load_page loc)"
  by (rule reachable.start) (auto simp: started_def)

lemmas demo_reachable = load_reachable [where loc = demo_address]

lemma demo_next: "reachable started (session_step h) (choose_period ''lifetime'' (load_page demo_address))"
  by (rule reachable.move [OF demo_reachable], rule session_step.period) (simp add: periods_def)

lemma load_pending:
  "\<exists>t. pending (load_page loc) = [t] \<and> kind t = AwaitDashboard [] \<and> live (load_page loc) t"
  by (simp add: load_page_def Let_def live_def refresh_result first_task_def split: prod.split)

lemma demo_answered:
  "answer_of t s demo_answer = Some \<lparr>result_data = Some demo_data, result_errors = []\<rparr>"
  by (simp add: demo_answer_def answer_of_def request_def ok_status_def Let_def)

lemma demo_load_reachable: "reachable started (session_step demo_host) (demo_load loc)"
proof -
  obtain t where t: "pending (load_page loc) = [t]" "kind t = AwaitDashboard []" using load_pending by blast
  show ?thesis
    unfolding demo_load_def
    by (rule reachable.move [OF load_reachable], rule session_step.loaded) (simp_all add: t)
qed

lemma demo_load_shows: "shows_data demo_host (num_of_nat 800) demo_data (pg (demo_load loc))"
proof -
  obtain t where t: "pending (load_page loc) = [t]" "live (load_page loc) t" using load_pending by blast
  from t(2) have "live (take_task 0 (load_page loc)) t" by simp
  from resume_dashboard_shows [OF this demo_answered] show ?thesis by (simp add: demo_load_def t(1))
qed

lemma demo_load_table: "has_table ''accounts'' (pg (demo_load loc))"
  using demo_load_shows [of loc] by (auto simp: shows_data_def demo_data_def has_table_text)

lemma load_filters:
  "cur_period (pg (load_page loc)) = f_period (locationFilters loc)"
  "cur_account (pg (load_page loc)) = f_account (locationFilters loc)"
  "cur_page (pg (load_page loc)) = 1"
  by (simp_all add: load_page_def refresh_result readLocation_def select_period_def selectAccountOption_def
      initial_page_def Let_def)

lemma demo_load_period: "cur_period (pg (demo_load loc)) = f_period (locationFilters loc)"
proof -
  obtain t where t: "pending (load_page loc) = [t]" "live (load_page loc) t" using load_pending by blast
  then show ?thesis
    using load_filters(1) [of loc] show_dashboard_period [of demo_host "num_of_nat 800" "[]"]
    by (auto simp: demo_load_def resume_dashboard_def demo_answered refresh_finally_def loadEvents_result
        on_page_def Let_def split: prod.split) (metis fst_conv)+
qed

section \<open>The chart\<close>

definition demo_geometry :: geometry where
  "demo_geometry = chart_geometry (num_of_nat 800) demo_days"

lemma demo_small: "small_geometry demo_geometry 768" "g_count demo_geometry = length demo_days"
  using chart_geometry_small [of 800 demo_days]
  by (simp_all add: demo_geometry_def demo_days_def) (simp add: chart_geometry_def Let_def)

definition demo_layout :: layout where
  "demo_layout = \<lparr>svg_box = \<lparr>b_left = Fin 0, b_top = Fin 0, b_width = Fin 768, b_height = Fin 200\<rparr>,
     plot_box = \<lparr>b_left = Fin 0, b_top = Fin 0, b_width = Fin 768, b_height = Fin 200\<rparr>,
     tip_width = Fin 190, tip_height = Fin 100\<rparr>"

lemma demo_laid_out: "laid_out demo_layout"
  by (simp add: laid_out_def demo_layout_def sized_def)

lemma demo_home:
  "plot_step demo_geometry demo_days demo_layout (PlotKey ''Home'') plot_init
     = Some (plot_show demo_geometry demo_days demo_layout 0 plot_init)"
  by (simp add: key_target_def)

lemma demo_chart:
  "\<exists>x daily. trend_panel (pg (demo_load demo_plain)) = TrendChart demo_geometry demo_days x daily plot_init"
proof -
  have "f_period (locationFilters demo_plain) = ''last_30_days''" by code_simp
  then have "chart_of (pg (demo_load demo_plain)) = (Some demo_days, Some (demo_geometry, demo_days, plot_init))"
    using demo_load_shows [of demo_plain] demo_load_period [of demo_plain]
    by (simp add: shows_data_def demo_data_def demo_geometry_def demo_days_def)
  then show ?thesis by (auto simp: chart_of_def split: trend_view.splits)
qed

end
