(* ===== verification/Integer_Text.thy ===== *)
theory Integer_Text
  imports Decimal
begin

text \<open>
  The text of an integer: below \<open>10 ^ 15\<close>, far inside the integers that binary64 represents
  exactly, \<open>Number::toString\<close> gives the decimal digits. The search for the shortest decimal
  finds the integer with its trailing zeros removed, and the template puts them back.
\<close>

lemma digits_times_power: "0 < s \<Longrightarrow> digits (s * 10 ^ j) = digits s @ replicate j (CHR ''0'')"
proof (induction j)
  case (Suc j)
  have "\<not> s * 10 ^ Suc j < 10" using Suc.prems by (simp add: not_less)
  then have "digits (s * 10 ^ Suc j) = digits (s * 10 ^ j) @ ''0''"
    by (subst digits.simps) (simp add: zero_digit)
  then show ?case using Suc by (simp add: replicate_append_same)
qed simp

lemma digits_exact_length: "10 ^ k \<le> n \<Longrightarrow> n < 10 ^ Suc k \<Longrightarrow> length (digits n) = Suc k"
proof (induction k arbitrary: n)
  case 0
  then show ?case by (subst digits.simps) simp
next
  case (Suc k)
  have "(1 :: nat) \<le> 10 ^ k" by simp
  then have "\<not> n < 10" using Suc.prems(1) unfolding power_Suc by linarith
  moreover have "10 ^ k \<le> n div 10" "n div 10 < 10 ^ Suc k"
    using Suc.prems by (simp_all add: less_eq_div_iff_mult_less_eq div_less_iff_less_mult ac_simps)
  ultimately show ?case using Suc.IH [of "n div 10"] by (subst digits.simps) simp
qed

section \<open>The shortest decimal of an integer\<close>

lemma candidate_integer:
  assumes n: "n < 10 ^ 15" and N: "N \<le> 15" and k: "1 \<le> k" "k \<le> N"
    and c: "decimal_candidate (of_nat n) (int N) k = Some c"
  shows "c * 10 ^ (N - k) = int n"
proof -
  let ?p = "10 ^ (N - k) :: rat"
  have pow: "(10 :: rat) powi (int N - int k) = ?p" "(10 :: rat) powi (int k - int N) = 1 / ?p"
    using k by (simp_all add: power_int_diff power_diff)
  let ?y = "of_nat n / ?p"
  let ?s = "round_half_even ?y"
  have "c = ?s \<or> c = ?s + 1 \<or> c = ?s - 1" and r: "rnd64 (of_int c * ?p) = of_nat n"
    using c by (auto simp: decimal_candidate_def Let_def pow split: if_splits)
  then have "(of_int c :: rat) \<le> of_int ?s + 1 \<and> of_int ?s - 1 \<le> (of_int c :: rat)" by auto
  then have "\<bar>of_int c - ?y\<bar> \<le> 3 / 2" using round_half_even_close [of ?y] by linarith
  then have "\<bar>of_int c - ?y\<bar> * ?p \<le> 3 / 2 * ?p" by (rule mult_right_mono) simp
  moreover have "\<bar>of_int c - ?y\<bar> * ?p = \<bar>(of_int c - ?y) * ?p\<bar>" by (simp add: abs_mult)
  moreover have "(of_int c - ?y) * ?p = of_int c * ?p - of_nat n" by (simp add: field_simps)
  moreover have "?p \<le> 10 ^ 14" using N k by (intro power_increasing) simp_all
  ultimately have "\<bar>of_int c * ?p - of_nat n\<bar> \<le> 3 / 2 * ?p" "?p \<le> 10 ^ 14" by simp_all
  then have "\<bar>of_int c * ?p - of_nat n\<bar> \<le> 3 / 2 * 10 ^ 14" by linarith
  moreover have "(of_nat n :: rat) < 10 ^ 15" using n by (metis of_nat_less_iff of_nat_numeral of_nat_power)
  moreover have "(0 :: rat) \<le> of_nat n" by simp
  ultimately have "\<bar>of_int c * ?p\<bar> \<le> 2 ^ 53" by (simp add: abs_le_iff)
  then have "\<bar>of_int (c * 10 ^ (N - k)) :: rat\<bar> \<le> of_int (2 ^ 53)" by simp
  then have "\<bar>c * 10 ^ (N - k)\<bar> \<le> 2 ^ 53" unfolding of_int_abs [symmetric] of_int_le_iff .
  then have "rnd64 (of_int (c * 10 ^ (N - k))) = of_int (c * 10 ^ (N - k))" by (rule rnd64_int)
  then have "(of_int (c * 10 ^ (N - k)) :: rat) = of_int (int n)" using r by simp
  then show ?thesis by (simp only: of_int_eq_iff)
qed

lemma candidate_last:
  assumes "n < 10 ^ 15"
  shows "decimal_candidate (of_nat n) (int N) N = Some (int n)"
proof -
  have "rnd64 (of_int (int n)) = of_int (int n)" using assms by (intro rnd64_int) simp
  then have "rnd64 (of_nat n) = of_nat n" by simp
  moreover have "round_half_even (of_nat n) = int n"
    using round_half_even_of_int [of "int n"] by simp
  ultimately show ?thesis by (simp add: decimal_candidate_def Let_def)
qed

lemma shortest_integer:
  assumes "n < 10 ^ 15" and "N \<le> 15"
  shows "1 \<le> k \<Longrightarrow> k \<le> N \<Longrightarrow> N \<le> k + m
    \<Longrightarrow> \<exists>s k'. shortest_decimal (of_nat n) (int N) k m = (s, k') \<and> k' \<le> N \<and> s * 10 ^ (N - k') = n"
proof (induction m arbitrary: k)
  case 0
  then have "k = N" by simp
  then show ?case using round_half_even_of_int [of "int n"] by simp
next
  case (Suc m)
  show ?case
  proof (cases "decimal_candidate (of_nat n) (int N) k")
    case (Some c)
    have c: "c * 10 ^ (N - k) = int n" by (rule candidate_integer [OF assms Suc.prems(1,2) Some])
    then have "0 \<le> c" by (metis of_nat_0_le_iff zero_le_mult_iff zero_less_numeral zero_less_power not_less)
    then have "nat c * 10 ^ (N - k) = n"
      using c by (metis nat_int nat_mult_distrib nat_numeral nat_power_eq zero_le_numeral)
    then show ?thesis using Some Suc.prems by simp
  next
    case None
    then have "k \<noteq> N" using candidate_last [OF assms(1)] by auto
    then have "Suc k \<le> N" using Suc.prems by linarith
    then show ?thesis using Suc.IH [of "Suc k"] Suc.prems None by simp
  qed
qed

lemma positive_integer_text:
  assumes "0 < n" and n: "n < 10 ^ 15"
  shows "positive_to_string (of_nat n) = digits n"
proof -
  obtain j where j: "10 ^ j \<le> n" "n < 10 ^ Suc j"
    using ex_power_ivl1 [of 10 n] assms(1) by auto
  have "j < 15" using j(1) n by (meson le_less_trans nat_power_less_imp_less zero_less_numeral)
  have l: "length (digits n) = Suc j" by (rule digits_exact_length [OF j])
  have "(10 :: rat) ^ j \<le> of_nat n" using j(1) by (metis of_nat_le_iff of_nat_numeral of_nat_power)
  moreover have "(of_nat n :: rat) < 10 ^ Suc j" using j(2) by (metis of_nat_less_iff of_nat_numeral of_nat_power)
  moreover have "int j + 1 = int (Suc j)" by simp
  ultimately have il: "ilog 10 (of_nat n) = int j"
    by (intro ilog_unique; simp only: power_int_of_nat of_nat_numeral; simp)
  obtain s k where s: "shortest_decimal (of_nat n) (int (Suc j)) 1 16 = (s, k)" "k \<le> Suc j"
      "s * 10 ^ (Suc j - k) = n"
    using shortest_integer [OF n, of "Suc j" 1 16] \<open>j < 15\<close> by auto
  have "0 < s" using s(3) assms(1) by (cases s) auto
  then have d: "digits n = digits s @ replicate (Suc j - k) (CHR ''0'')"
    using digits_times_power s(3) by metis
  then have ls: "length (digits s) = k" using l s(2) by (simp add: eq_diff_iff)
  have "s \<noteq> 10 ^ k"
  proof
    assume "s = 10 ^ k"
    then have "n = 10 ^ Suc j" using s(2,3) by (metis le_add_diff_inverse power_add)
    then show False using j(2) by simp
  qed
  then show ?thesis
    using s ls d \<open>j < 15\<close> by (simp add: positive_to_string_def il add.commute Let_def nat_diff_distrib)
qed

lemma integer_text:
  assumes "n < 10 ^ 15"
  shows "number_to_string (Fin (of_nat n)) = digits n"
  using positive_integer_text [OF _ assms] by (cases "n = 0") (simp_all add: number_to_string_def)

end
