(* ===== verification/Server.thy ===== *)
theory Server
  imports Query Integer_Text "HOL-Library.Sublist"
begin

text \<open>
  The HTTP handler (\<open>internal/httpserver/handler.go\<close>, lines 31 to 96 and 117 to 190): the
  validation of the query string and the dispatch on path and method, up to the call of the
  service. Strings are UTF-8 bytes, an \<open>int\<close> has 64 bits. Ranging over a map visits its keys
  in any order: the functions take the order as an argument.
\<close>

section \<open>Query strings\<close>

text \<open>\<open>url.QueryUnescape\<close> and \<open>url.ParseQuery\<close>; \<open>None\<close> is an error.\<close>

function go_unescape :: "string \<Rightarrow> string option" where
  "go_unescape [] = Some []"
| "go_unescape (c # s) =
     (if c = CHR ''%'' then
        (case s of
           h # l # rest \<Rightarrow>
             (case (hex_value h, hex_value l) of
                (Some a, Some b) \<Rightarrow> map_option (Cons (char_of (16 * a + b))) (go_unescape rest)
              | _ \<Rightarrow> None)
         | _ \<Rightarrow> None)
      else map_option (Cons (if c = CHR ''+'' then CHR '' '' else c)) (go_unescape s))"
  by pat_completeness auto
termination
  by (relation "measure length") auto

declare go_unescape.simps(2) [simp del]

definition go_pair :: "string \<Rightarrow> (string \<times> string) option" where
  "go_pair t = (if CHR '';'' \<in> set t then None
     else (case (go_unescape (takeWhile (\<lambda>c. c \<noteq> CHR ''='') t),
                 go_unescape (tl (dropWhile (\<lambda>c. c \<noteq> CHR ''='') t))) of
             (Some k, Some v) \<Rightarrow> Some (k, v)
           | _ \<Rightarrow> None))"

fun collect_pairs :: "string list \<Rightarrow> params option" where
  "collect_pairs [] = Some []"
| "collect_pairs (t # ts) = (case go_pair t of None \<Rightarrow> None
     | Some p \<Rightarrow> map_option (Cons p) (collect_pairs ts))"

definition ParseQuery :: "string \<Rightarrow> params option" where
  "ParseQuery raw = collect_pairs (filter (\<lambda>t. t \<noteq> []) (split_on (CHR ''&'') raw))"

definition query_keys :: "params \<Rightarrow> string list" where
  "query_keys q = remdups (map fst q)"

definition once :: "params \<Rightarrow> string \<Rightarrow> bool" where
  "once q k \<longleftrightarrow> length (filter (\<lambda>p. fst p = k) q) = 1"

section \<open>Validation\<close>

text \<open>The UTF-8 encodings of the characters for which \<open>unicode.IsSpace\<close> holds.\<close>

definition go_spaces :: "string list" where
  "go_spaces = map (\<lambda>c. [c]) [CHR 0x09, CHR 0x0A, CHR 0x0B, CHR 0x0C, CHR 0x0D, CHR 0x20]
     @ [[CHR 0xC2, CHR 0x85], [CHR 0xC2, CHR 0xA0], [CHR 0xE1, CHR 0x9A, CHR 0x80]]
     @ map (\<lambda>c. [CHR 0xE2, CHR 0x80, c])
         [CHR 0x80, CHR 0x81, CHR 0x82, CHR 0x83, CHR 0x84, CHR 0x85, CHR 0x86, CHR 0x87, CHR 0x88,
          CHR 0x89, CHR 0x8A, CHR 0xA8, CHR 0xA9, CHR 0xAF]
     @ [[CHR 0xE2, CHR 0x81, CHR 0x9F], [CHR 0xE3, CHR 0x80, CHR 0x80]]"

text \<open>\<open>strings.TrimSpace(s) == s\<close>\<close>

definition is_trimmed :: "string \<Rightarrow> bool" where
  "is_trimmed s \<longleftrightarrow> \<not> list_ex (\<lambda>w. prefix w s \<or> suffix w s) go_spaces"

definition validAccount :: "string \<Rightarrow> bool" where
  "validAccount l \<longleftrightarrow> l \<noteq> [] \<and> is_trimmed l \<and> \<not> list_ex (\<lambda>c. c \<in> set [CHR 0x0D, CHR 0x0A, CHR 0x09]) l
     \<and> length l \<le> 256"

definition ValidPeriod :: "string \<Rightarrow> bool" where
  "ValidPeriod p \<longleftrightarrow> p \<in> set [''today'', ''this_week'', ''last_7_days'', ''this_month'', ''last_30_days'', ''lifetime'']"

text \<open>The loop over the keys of the query; the result is the message of the first error.\<close>

fun check_keys :: "bool \<Rightarrow> params \<Rightarrow> string list \<Rightarrow> string option" where
  "check_keys events q [] = None"
| "check_keys events q (k # ks) =
     (if \<not> once q k then Some ''query parameters must occur once''
      else if k \<noteq> ''period'' \<and> k \<noteq> ''account'' \<and> \<not> (events \<and> (k = ''page'' \<or> k = ''page_size''))
      then Some ''unknown query parameter''
      else check_keys events q ks)"

text \<open>\<open>page\<close> or \<open>page_size\<close>: the given number when absent, \<open>None\<close> when invalid; \<open>strconv.Atoi\<close> fails
  out of the range of an \<open>int\<close>.\<close>

definition pagination :: "params \<Rightarrow> string \<Rightarrow> int \<Rightarrow> int option" where
  "pagination q k start = (case query_get q k of None \<Rightarrow> Some start
     | Some v \<Rightarrow>
         if v = [] \<or> \<not> list_all is_digit v then None
         else let n = int (read_nat v)
           in if 2 ^ 63 \<le> n \<or> n < 1 \<or> k = ''page_size'' \<and> 100 < n then None else Some n)"

definition query_value :: "params \<Rightarrow> string \<Rightarrow> string" where
  "query_value q k = (case query_get q k of None \<Rightarrow> [] | Some v \<Rightarrow> v)"

definition has_key :: "params \<Rightarrow> string \<Rightarrow> bool" where
  "has_key q k \<longleftrightarrow> query_get q k \<noteq> None"

definition go_params ::
  "(string list \<Rightarrow> string list) \<Rightarrow> string \<Rightarrow> bool \<Rightarrow> string + string \<times> string \<times> int \<times> int" where
  "go_params order raw events = (case ParseQuery raw of
       None \<Rightarrow> Inl ''invalid query string''
     | Some q \<Rightarrow> (case check_keys events q (order (query_keys q)) of
         Some m \<Rightarrow> Inl m
       | None \<Rightarrow>
           (let period = (if has_key q ''period'' then query_value q ''period'' else ''last_30_days'');
                login = query_value q ''account''
            in if \<not> ValidPeriod period then Inl ''invalid period''
               else if (has_key q ''account'' \<or> events) \<and> \<not> validAccount login then Inl ''invalid account''
               else (case (pagination q ''page'' 1, pagination q ''page_size'' 20) of
                   (Some n, Some m) \<Rightarrow> Inr (period, login, n, m)
                 | _ \<Rightarrow> Inl ''invalid pagination''))))"

fun check_sync_keys :: "params \<Rightarrow> string list \<Rightarrow> string option" where
  "check_sync_keys q [] = None"
| "check_sync_keys q (k # ks) =
     (if k \<noteq> ''account'' then Some ''unknown query parameter''
      else if \<not> once q k then Some ''query parameters must occur once''
      else check_sync_keys q ks)"

definition syncAccount :: "(string list \<Rightarrow> string list) \<Rightarrow> string \<Rightarrow> string + string" where
  "syncAccount order raw = (case ParseQuery raw of
       None \<Rightarrow> Inl ''invalid query string''
     | Some q \<Rightarrow> (case check_sync_keys q (order (query_keys q)) of
         Some m \<Rightarrow> Inl m
       | None \<Rightarrow> (let login = query_value q ''account''
           in if has_key q ''account'' \<and> \<not> validAccount login then Inl ''invalid account'' else Inr login)))"

section \<open>Dispatch\<close>

text \<open>What the handler does with a request: the response, or the call of the service.\<close>

datatype reply = Redirected string | NotFound | NotAllowed string | Refused string
  | Served string | Healthy | CallSync string | CallEvents string string int int | CallDashboard string string

record http_request =
  rq_method :: string
  rq_path :: string
  rq_query :: string

definition go_assets :: "(string \<times> string) list" where
  "go_assets = [(''/'', ''text/html; charset=utf-8''), (''/app.js'', ''text/javascript; charset=utf-8''),
     (''/styles.css'', ''text/css; charset=utf-8'')]"

text \<open>The path below the base path: a reply, or the path to serve.\<close>

definition below_base :: "string \<Rightarrow> http_request \<Rightarrow> reply + string" where
  "below_base base r =
     (if base = ''/'' then Inr (rq_path r)
      else if rq_path r = base then
        Inl (Redirected (base @ ''/'' @ (if rq_query r \<noteq> [] then ''?'' @ rq_query r else [])))
      else if \<not> prefix (base @ ''/'') (rq_path r) then Inl NotFound
      else Inr (drop (length base) (rq_path r)))"

definition serve_path :: "(string list \<Rightarrow> string list) \<Rightarrow> http_request \<Rightarrow> string \<Rightarrow> reply" where
  "serve_path order r path =
     (if path \<notin> set (map fst go_assets @ [''/healthz'', ''/api/v1/dashboard'', ''/api/v1/events'', ''/api/v1/sync''])
      then NotFound
      else if path = ''/api/v1/sync'' then
        (if rq_method r \<noteq> ''POST'' then NotAllowed ''POST''
         else (case syncAccount order (rq_query r) of Inl m \<Rightarrow> Refused m | Inr l \<Rightarrow> CallSync l))
      else if rq_method r \<noteq> ''GET'' then NotAllowed ''GET''
      else (case map_of go_assets path of
          Some ct \<Rightarrow> Served ct
        | None \<Rightarrow>
            if path = ''/healthz'' then Healthy
            else (case go_params order (rq_query r) (path = ''/api/v1/events'') of
                Inl m \<Rightarrow> Refused m
              | Inr (period, login, page, rows) \<Rightarrow>
                  if path = ''/api/v1/events'' then CallEvents login period page rows
                  else CallDashboard period login)))"

definition serve :: "(string list \<Rightarrow> string list) \<Rightarrow> string \<Rightarrow> http_request \<Rightarrow> reply" where
  "serve order base r = (case below_base base r of Inl x \<Rightarrow> x | Inr path \<Rightarrow> serve_path order r path)"

section \<open>Serialized queries are read back\<close>

lemma unescape_encode_char: "go_unescape (encode_char c @ s) = map_option (Cons c) (go_unescape s)"
proof (cases "plain_char c \<or> c = CHR '' ''")
  case True
  then show ?thesis using plain_not_special [of c]
    by (auto simp: encode_char_def go_unescape.simps(2))
next
  case False
  have "(of_char c :: nat) < 256"
    using of_char_mod_256 [of c, where ?'a = nat] by (metis mod_less_divisor zero_less_numeral)
  then have "(of_char c :: nat) div 16 < 16" by (simp add: less_mult_imp_div_less)
  with False show ?thesis by (simp add: encode_char_def go_unescape.simps hex_round char_split)
qed

lemma unescape_encode [simp]: "go_unescape (encode s) = Some s"
  by (induction s) (simp_all add: encode_def unescape_encode_char)

lemma encode_semicolon: "CHR '';'' \<notin> set (encode s)"
proof -
  have "CHR '';'' \<notin> set (encode_char c)" for c
  proof -
    have "(of_char c :: nat) < 256"
      using of_char_mod_256 [of c, where ?'a = nat] by (metis mod_less_divisor zero_less_numeral)
    then have "(of_char c :: nat) div 16 < 16" by (simp add: less_mult_imp_div_less)
    then have "plain_char (hex_char (of_char c div 16))" "plain_char (hex_char (of_char c mod 16))"
      by (simp_all add: hex_char_plain)
    moreover have "\<not> plain_char (CHR '';'')" by code_simp
    ultimately show ?thesis by (auto simp: encode_char_def)
  qed
  then show ?thesis by (auto simp: encode_def)
qed

lemma go_pair_text: "go_pair (pair_text p) = Some p"
proof -
  have all: "\<And>c. c \<in> set (encode (fst p)) \<Longrightarrow> c \<noteq> CHR ''=''" using encode_special(2) by metis
  have no: "CHR '';'' \<notin> set (pair_text p)" using encode_semicolon by (auto simp: pair_text_def)
  have "takeWhile (\<lambda>c. c \<noteq> CHR ''='') (pair_text p) = encode (fst p)"
    "dropWhile (\<lambda>c. c \<noteq> CHR ''='') (pair_text p) = CHR ''='' # encode (snd p)"
    using all by (simp_all add: pair_text_def takeWhile_append2 dropWhile_append2)
  then show ?thesis using no by (simp add: go_pair_def)
qed

lemma ParseQuery_serialize: "ParseQuery (serialize ps) = Some ps"
proof (cases "ps = []")
  case True
  then show ?thesis by (simp add: ParseQuery_def serialize_def)
next
  case False
  have "CHR ''&'' \<notin> set (pair_text p)" for p
    using encode_special(1) by (auto simp: pair_text_def)
  then have "split_on (CHR ''&'') (serialize ps) = map pair_text ps"
    unfolding serialize_def using False by (intro split_join) auto
  moreover have "filter (\<lambda>t. t \<noteq> []) (map pair_text ps) = map pair_text ps"
    by (simp add: filter_id_conv pair_text_def)
  moreover have "collect_pairs (map pair_text ps) = Some ps"
    by (induction ps) (simp_all add: go_pair_text)
  ultimately show ?thesis by (simp add: ParseQuery_def)
qed

section \<open>What reaches the service\<close>

definition any_order :: "(string list \<Rightarrow> string list) \<Rightarrow> bool" where
  "any_order order \<longleftrightarrow> (\<forall>ks. set (order ks) = set ks)"

lemma check_keys_none:
  "check_keys events q ks = None \<longleftrightarrow> (\<forall>k \<in> set ks. once q k
     \<and> (k = ''period'' \<or> k = ''account'' \<or> events \<and> (k = ''page'' \<or> k = ''page_size'')))"
  by (induction ks) auto

lemma check_sync_keys_none:
  "check_sync_keys q ks = None \<longleftrightarrow> (\<forall>k \<in> set ks. once q k \<and> k = ''account'')"
  by (induction ks) auto

lemma once_distinct: "distinct (map fst q) \<Longrightarrow> k \<in> fst ` set q \<Longrightarrow> once q k"
proof (induction q)
  case (Cons p q)
  have "filter (\<lambda>p'. fst p' = fst p) q = []"
    using Cons.prems(1) by (auto simp: filter_empty_conv image_iff)
  then show ?case using Cons by (auto simp: once_def)
qed simp

lemma pagination_range:
  "pagination q k start = Some n \<Longrightarrow> 1 \<le> start \<Longrightarrow> start < 2 ^ 63
    \<Longrightarrow> 1 \<le> n \<and> n < 2 ^ 63 \<and> (k = ''page_size'' \<longrightarrow> start \<le> 100 \<longrightarrow> n \<le> 100)"
  by (auto simp: pagination_def Let_def split: option.splits if_splits)

lemma go_params_valid:
  assumes "go_params order raw events = Inr (period, login, n, m)"
  shows "ValidPeriod period \<and> (validAccount login \<or> \<not> events \<and> login = [])
    \<and> 1 \<le> n \<and> n < 2 ^ 63 \<and> 1 \<le> m \<and> m \<le> 100"
proof -
  obtain q where q: "ParseQuery raw = Some q" "check_keys events q (order (query_keys q)) = None"
    using assms by (auto simp: go_params_def split: option.splits)
  have v: "ValidPeriod period" "\<not> ((has_key q ''account'' \<or> events) \<and> \<not> validAccount login)"
    "login = query_value q ''account''" "pagination q ''page'' 1 = Some n" "pagination q ''page_size'' 20 = Some m"
    using assms q by (auto simp: go_params_def Let_def split: option.splits if_splits)
  moreover have "\<not> has_key q ''account'' \<Longrightarrow> login = []"
    using v(3) by (simp add: has_key_def query_value_def)
  ultimately show ?thesis using pagination_range [OF v(4)] pagination_range [OF v(5)] by auto
qed

lemma serve_safe:
  "serve order base r = CallEvents login period n m \<Longrightarrow> rq_method r = ''GET'' \<and>
     ValidPeriod period \<and> validAccount login \<and> 1 \<le> n \<and> n < 2 ^ 63 \<and> 1 \<le> m \<and> m \<le> 100"
  "serve order base r = CallDashboard period login \<Longrightarrow> rq_method r = ''GET''
     \<and> ValidPeriod period \<and> (login = [] \<or> validAccount login)"
  "serve order base r = CallSync login \<Longrightarrow> rq_method r = ''POST'' \<and> (login = [] \<or> validAccount login)"
proof -
  show "rq_method r = ''GET'' \<and> ValidPeriod period \<and> validAccount login \<and> 1 \<le> n \<and> n < 2 ^ 63 \<and> 1 \<le> m \<and> m \<le> 100"
    if "serve order base r = CallEvents login period n m"
    using that go_params_valid [of order "rq_query r" True period login n m]
    by (auto simp: serve_def below_base_def serve_path_def split: if_splits sum.splits option.splits)
  show "rq_method r = ''GET'' \<and> ValidPeriod period \<and> (login = [] \<or> validAccount login)" if "serve order base r = CallDashboard period login"
    using that go_params_valid [of order "rq_query r" False period login]
    by (auto simp: serve_def below_base_def serve_path_def split: if_splits sum.splits option.splits)
  show "rq_method r = ''POST'' \<and> (login = [] \<or> validAccount login)" if "serve order base r = CallSync login"
    using that by (auto simp: serve_def below_base_def serve_path_def syncAccount_def has_key_def query_value_def Let_def
        split: if_splits sum.splits option.splits)
qed

end
