(* ===== verification/Exchange.thy ===== *)
theory Exchange
  imports Session Server
begin

text \<open>
  The page and the handler together: what a task of the page sends, and that the handler
  understands it. The page is served below the base path, where its relative request paths are
  resolved (\<open>web/app.js\<close>, lines 2 and 392 to 398).
\<close>

definition request_to :: "string \<Rightarrow> task \<Rightarrow> http_request" where
  "request_to base t = \<lparr>rq_method = (case kind t of AwaitSync _ \<Rightarrow> ''POST'' | _ \<Rightarrow> ''GET''),
     rq_path = (if base = ''/'' then [] else base) @ ''/'' @ path_of (kind t),
     rq_query = serialize (t_query t)\<rparr>"

text \<open>The call of the service a task means, for the account, the period and the page that are selected.\<close>

definition meant :: "page \<Rightarrow> task \<Rightarrow> reply" where
  "meant p t = (case kind t of AwaitSync _ \<Rightarrow> CallSync (cur_account p)
     | AwaitDashboard _ \<Rightarrow> CallDashboard (cur_period p) (cur_account p)
     | AwaitEvents \<Rightarrow> CallEvents (cur_account p) (cur_period p) (cur_page p) 20)"

definition nameable :: "page \<Rightarrow> task \<Rightarrow> bool" where
  "nameable p t \<longleftrightarrow> validAccount (cur_account p) \<or> cur_account p = [] \<and> kind t \<noteq> AwaitEvents"

lemma below_base_request: "below_base base (request_to base t) = Inr (''/'' @ path_of (kind t))"
  by (simp add: below_base_def request_to_def)

lemma keys_accepted:
  assumes "any_order order" and "check_keys events q (query_keys q) = None"
  shows "check_keys events q (order (query_keys q)) = None"
  using assms check_keys_none [of events q] by (auto simp: any_order_def)

lemma sync_keys_accepted:
  assumes "any_order order" and "check_sync_keys q (query_keys q) = None"
  shows "check_sync_keys q (order (query_keys q)) = None"
  using assms check_sync_keys_none [of q] by (auto simp: any_order_def)

lemma period_accepted: "v \<in> set periods \<Longrightarrow> ValidPeriod v"
  by (simp add: ValidPeriod_def periods_def)

lemma sync_query_accepted:
  assumes "any_order order" and "validAccount (cur_account p) \<or> cur_account p = []"
  shows "syncAccount order (serialize (sync_query p)) = Inr (cur_account p)"
proof -
  have "check_sync_keys (sync_query p) (query_keys (sync_query p)) = None"
    by (simp add: sync_query_def query_keys_def once_def)
  from sync_keys_accepted [OF assms(1) this] show ?thesis
    using assms(2)
    by (auto simp: syncAccount_def ParseQuery_serialize sync_query_def has_key_def query_value_def query_get_def)
qed

lemma dashboard_query_accepted:
  assumes "any_order order" and "validAccount (cur_account p) \<or> cur_account p = []" and "cur_period p \<in> set periods"
  shows "go_params order (serialize (dashboard_query p)) False = Inr (cur_period p, cur_account p, 1, 20)"
proof -
  have "check_keys False (dashboard_query p) (query_keys (dashboard_query p)) = None"
    by (simp add: dashboard_query_def query_keys_def once_def Let_def)
  from keys_accepted [OF assms(1) this] show ?thesis
    using assms(2) period_accepted [OF assms(3)]
    by (auto simp: go_params_def ParseQuery_serialize dashboard_query_def has_key_def query_value_def
        query_get_def pagination_def Let_def)
qed

lemma events_query_accepted:
  assumes "any_order order" and "validAccount (cur_account p)" and "cur_period p \<in> set periods"
    and "1 \<le> cur_page p" and "cur_page p < 10 ^ 15"
  shows "go_params order (serialize (events_query p)) True = Inr (cur_period p, cur_account p, cur_page p, 20)"
proof -
  have "check_keys True (events_query p) (query_keys (events_query p)) = None"
    by (simp add: events_query_def query_keys_def once_def)
  note keys = keys_accepted [OF assms(1) this]
  obtain n where n: "cur_page p = int n" "1 \<le> n" "n < 10 ^ 15"
    using assms(4,5) by (cases "cur_page p") auto
  then have "int_string (cur_page p) = digits n"
    using integer_text [of n] by (simp add: int_string_def)
  then have page: "pagination (events_query p) ''page'' 1 = Some (cur_page p)"
    using n digits_are_digits by (auto simp: pagination_def events_query_def query_get_def list_all_iff)
  have "read_nat ''20'' = 20 \<and> list_all is_digit ''20''" by code_simp
  then have rows: "pagination (events_query p) ''page_size'' 20 = Some 20"
    by (simp add: pagination_def events_query_def query_get_def)
  show ?thesis
    using keys page rows assms(2) period_accepted [OF assms(3)]
    by (auto simp: go_params_def ParseQuery_serialize has_key_def query_value_def)
      (simp_all add: events_query_def query_get_def)
qed

lemma live_request_meant:
  assumes "session_ok s" and "lives s = [t]" and "any_order order" and "nameable (pg s) t"
    and "1 \<le> cur_page (pg s)" and "cur_page (pg s) < 10 ^ 15"
  shows "serve order base (request_to base t) = meant (pg s) t"
proof -
  have ok: "waiting t (pg s)" "cur_period (pg s) \<in> set periods"
    using assms(1,2) by (auto simp: session_ok_def control_ok_def phase_ok_def)
  note accepted = sync_query_accepted [OF assms(3), of "pg s"] dashboard_query_accepted [OF assms(3) _ ok(2)]
    events_query_accepted [OF assms(3) _ ok(2) assms(5,6)]
  have "serve order base (request_to base t) = serve_path order (request_to base t) (''/'' @ path_of (kind t))"
    by (simp add: serve_def below_base_request)
  then show ?thesis
    using ok(1) assms(4) accepted
    by (cases "kind t")
      (auto simp: waiting_def nameable_def meant_def path_of_def serve_path_def go_assets_def request_to_def)
qed

end
