(* ===== verification/Calendar.thy ===== *)
theory Calendar
  imports Decimal
begin

text \<open>
  Civil dates, as the Go service uses them through the \<open>time\<close> package: midnights of one
  location, stepped by \<open>AddDate(0, 0, n)\<close>, compared by \<open>Before\<close> and \<open>After\<close>, printed and parsed
  with the layout \<open>2006-01-02\<close>. A date is its year, month and day.
\<close>

datatype date = Date int int int

section \<open>Stepping and comparing\<close>

definition leap :: "int \<Rightarrow> bool" where
  "leap y \<longleftrightarrow> 4 dvd y \<and> (\<not> 100 dvd y \<or> 400 dvd y)"

definition month_days :: "int \<Rightarrow> int \<Rightarrow> int" where
  "month_days y m = (if m = 2 then (if leap y then 29 else 28)
     else if m = 4 \<or> m = 6 \<or> m = 9 \<or> m = 11 then 30 else 31)"

definition valid_date :: "date \<Rightarrow> bool" where
  "valid_date x = (case x of Date y m d \<Rightarrow> 1 \<le> m \<and> m \<le> 12 \<and> 1 \<le> d \<and> d \<le> month_days y m)"

fun next_day :: "date \<Rightarrow> date" where
  "next_day (Date y m d) = (if d < month_days y m then Date y m (d + 1)
     else if m < 12 then Date y (m + 1) 1 else Date (y + 1) 1 1)"

fun prev_day :: "date \<Rightarrow> date" where
  "prev_day (Date y m d) = (if 1 < d then Date y m (d - 1)
     else if 1 < m then Date y (m - 1) (month_days y (m - 1)) else Date (y - 1) 12 31)"

definition add_days :: "int \<Rightarrow> date \<Rightarrow> date" where
  "add_days n x = (if 0 \<le> n then (next_day ^^ nat n) x else (prev_day ^^ nat (- n)) x)"

fun before :: "date \<Rightarrow> date \<Rightarrow> bool" where
  "before (Date y m d) (Date y' m' d') \<longleftrightarrow> y < y' \<or> y = y' \<and> (m < m' \<or> m = m' \<and> d < d')"

fun month_start :: "date \<Rightarrow> date" where
  "month_start (Date y m d) = Date y m 1"

fun year_of :: "date \<Rightarrow> int" where
  "year_of (Date y m d) = y"

lemma month_days_bounds: "28 \<le> month_days y m" "month_days y m \<le> 31"
  by (simp_all add: month_days_def)

lemma month_days_ends [simp]: "month_days y 1 = 31" "month_days y 12 = 31"
  by (simp_all add: month_days_def)

lemma valid_next [simp]: "valid_date x \<Longrightarrow> valid_date (next_day x)"
proof (cases x)
  case (Date y m d)
  assume "valid_date x"
  then show ?thesis
    using month_days_bounds(1) [of y "m + 1"] by (auto simp: Date valid_date_def)
qed

lemma valid_prev [simp]: "valid_date x \<Longrightarrow> valid_date (prev_day x)"
proof (cases x)
  case (Date y m d)
  assume "valid_date x"
  then show ?thesis
    using month_days_bounds(1) [of y "m - 1"] by (auto simp: Date valid_date_def)
qed

lemma next_prev: "valid_date x \<Longrightarrow> next_day (prev_day x) = x"
  by (cases x) (auto simp: valid_date_def)

lemma valid_iter: "valid_date x \<Longrightarrow> valid_date ((prev_day ^^ n) x)" "valid_date x \<Longrightarrow> valid_date ((next_day ^^ n) x)"
  by (induction n) simp_all

lemma next_prev_iter: "valid_date x \<Longrightarrow> (next_day ^^ n) ((prev_day ^^ n) x) = x"
proof (induction n)
  case (Suc n)
  have "(next_day ^^ Suc n) ((prev_day ^^ Suc n) x) = (next_day ^^ n) (next_day (prev_day ((prev_day ^^ n) x)))"
    by (simp add: funpow_swap1)
  then show ?case using Suc by (simp add: next_prev valid_iter)
qed simp

lemma valid_add_days: "valid_date x \<Longrightarrow> valid_date (add_days n x)"
  by (simp add: add_days_def valid_iter)

lemma valid_month_start: "valid_date x \<Longrightarrow> valid_date (month_start x)"
  by (cases x) (simp add: valid_date_def)

lemma before_trans: "before x y \<Longrightarrow> before y z \<Longrightarrow> before x z"
  by (cases x; cases y; cases z) auto

lemma before_irrefl [simp]: "\<not> before x x"
  by (cases x) simp

lemma before_total: "x = y \<or> before x y \<or> before y x"
  by (cases x; cases y) auto

lemma before_next: "before x (next_day x)"
  by (cases x) simp

lemma before_iter: "before x ((next_day ^^ n) x) \<or> n = 0"
proof (induction n)
  case (Suc n)
  then show ?case using before_next [of "(next_day ^^ n) x"] before_trans by (cases "n = 0") auto
qed simp

section \<open>The days from one date to another\<close>

text \<open>\<open>for date := start; !date.After(today); date = date.AddDate(0, 0, 1)\<close>.\<close>

function dates_from :: "date \<Rightarrow> date \<Rightarrow> date list" where
  "dates_from x y = (if before y x then [] else x # dates_from (next_day x) y)"
  by pat_completeness auto

termination
proof (relation "measures [\<lambda>(x, y). nat (year_of y + 1 - year_of x),
    \<lambda>(x, y). case x of Date _ m _ \<Rightarrow> nat (12 - m), \<lambda>(x, y). case x of Date _ _ d \<Rightarrow> nat (31 - d)]", simp)
  fix x y :: date
  assume b: "\<not> before y x"
  obtain a m d a' m' d' where xy: "x = Date a m d" "y = Date a' m' d'" by (cases x; cases y) blast
  show "((next_day x, y), x, y) \<in> measures [\<lambda>(x, y). nat (year_of y + 1 - year_of x),
      \<lambda>(x, y). case x of Date _ m _ \<Rightarrow> nat (12 - m), \<lambda>(x, y). case x of Date _ _ d \<Rightarrow> nat (31 - d)]"
    using b month_days_bounds(2) [of a m] by (simp add: xy)
qed

declare dates_from.simps [simp del]

lemma dates_from_after: "z \<in> set (dates_from x y) \<Longrightarrow> z = x \<or> before x z"
proof (induction x y rule: dates_from.induct)
  case (1 x y)
  then show ?case
    using before_next [of x] before_trans [of x "next_day x" z]
    by (subst (asm) dates_from.simps) (auto split: if_splits)
qed

lemma dates_from_upto: "z \<in> set (dates_from x y) \<Longrightarrow> \<not> before y z"
proof (induction x y rule: dates_from.induct)
  case (1 x y)
  then show ?case by (subst (asm) dates_from.simps) (auto split: if_splits)
qed

lemma dates_from_distinct: "distinct (dates_from x y)"
proof (induction x y rule: dates_from.induct)
  case (1 x y)
  have "x \<notin> set (dates_from (next_day x) y)"
    using dates_from_after [of x "next_day x" y] before_next [of x] before_trans [of x "next_day x" x] by auto
  then show ?case using 1 by (subst dates_from.simps) simp
qed

lemma dates_from_valid: "z \<in> set (dates_from x y) \<Longrightarrow> valid_date x \<Longrightarrow> valid_date z"
proof (induction x y rule: dates_from.induct)
  case (1 x y)
  then show ?case by (subst (asm) dates_from.simps) (auto split: if_splits)
qed

text \<open>The list holds as many dates as the steps that lead from the first to the last.\<close>

lemma dates_from_iter: "dates_from x ((next_day ^^ n) x) = map (\<lambda>i. (next_day ^^ i) x) [0..<Suc n]"
proof (induction n arbitrary: x)
  case 0
  then show ?case
    using before_next [of x] by (subst dates_from.simps, subst dates_from.simps) simp
next
  case (Suc n)
  have up: "\<not> before ((next_day ^^ Suc n) x) x"
    using before_iter [of x "Suc n"] before_trans [of x _ x] before_irrefl by blast
  have "dates_from (next_day x) ((next_day ^^ Suc n) x) = map (\<lambda>i. (next_day ^^ i) (next_day x)) [0..<Suc n]"
    using Suc.IH [of "next_day x"] by (simp add: funpow_swap1)
  also have "\<dots> = map (\<lambda>i. (next_day ^^ i) x) (map Suc [0..<Suc n])"
    by (simp add: funpow_swap1 comp_def)
  finally have "dates_from (next_day x) ((next_day ^^ Suc n) x) = map (\<lambda>i. (next_day ^^ i) x) [Suc 0..<Suc (Suc n)]"
    by (simp only: map_Suc_upt)
  moreover have "[0..<Suc (Suc n)] = 0 # [Suc 0..<Suc (Suc n)]" by (simp add: upt_conv_Cons del: upt_Suc)
  ultimately show ?case
    using up by (subst dates_from.simps) (simp only: if_False list.map funpow_0)
qed

lemma last_days: "valid_date x \<Longrightarrow> length (dates_from (add_days (- int n) x) x) = Suc n"
proof -
  assume "valid_date x"
  then have "x = (next_day ^^ n) (add_days (- int n) x)"
    by (cases "n = 0") (simp_all add: add_days_def next_prev_iter)
  then show ?thesis using dates_from_iter [of "add_days (- int n) x" n] by simp
qed

section \<open>Dates as text\<close>

definition pad_nat :: "nat \<Rightarrow> int \<Rightarrow> string" where
  "pad_nat k n = pad_left k (digits (nat n))"

definition date_text :: "date \<Rightarrow> string" where
  "date_text x = (case x of Date y m d \<Rightarrow> pad_nat 4 y @ ''-'' @ pad_nat 2 m @ ''-'' @ pad_nat 2 d)"

definition parse_date :: "string \<Rightarrow> date option" where
  "parse_date s =
     (let y = take 4 s; m = take 2 (drop 5 s); d = drop 8 s;
          x = Date (int (read_nat y)) (int (read_nat m)) (int (read_nat d))
      in if length s = 10 \<and> list_all is_digit (y @ m @ d) \<and> s ! 4 = CHR ''-'' \<and> s ! 7 = CHR ''-''
           \<and> valid_date x then Some x else None)"

lemma times_zero_iter: "((*) c ^^ k) 0 = (0 :: nat)"
  by (induction k) simp_all

lemma read_pad [simp]: "read_nat (pad_left k s) = read_nat s"
  by (simp add: read_nat_def pad_left_def times_zero_iter)

lemma digits_length: "n < 10 ^ k \<Longrightarrow> 0 < k \<Longrightarrow> length (digits n) \<le> k"
proof (induction k arbitrary: n)
  case (Suc k)
  show ?case
  proof (cases "n < 10")
    case False
    then have "0 < k" using Suc.prems by (cases k) auto
    moreover have "n div 10 < 10 ^ k" using Suc.prems by (simp add: less_mult_imp_div_less ac_simps)
    ultimately show ?thesis using Suc.IH False by (subst digits.simps) simp
  qed (subst digits.simps, simp)
qed simp

lemma pad_nat_length: "0 \<le> n \<Longrightarrow> n < 10 ^ k \<Longrightarrow> 0 < k \<Longrightarrow> length (pad_nat k n) = k"
proof -
  assume "0 \<le> n" "n < 10 ^ k" "0 < k"
  then have "length (digits (nat n)) \<le> k" by (intro digits_length) (simp_all add: nat_less_iff)
  then show ?thesis by (simp add: pad_nat_def pad_left_def)
qed

lemma pad_nat_digits: "list_all is_digit (pad_nat k n)"
  using digits_are_digits [of _ "nat n"]
  by (auto simp: pad_nat_def pad_left_def list_all_iff is_digit_def)

lemma read_pad_nat: "0 \<le> n \<Longrightarrow> int (read_nat (pad_nat k n)) = n"
  by (simp add: pad_nat_def)

lemma parse_date_text:
  assumes "valid_date x" and "0 \<le> year_of x" and "year_of x \<le> 9999"
  shows "parse_date (date_text x) = Some x"
proof (cases x)
  case (Date y m d)
  have b: "0 \<le> y" "y < 10 ^ 4" "0 \<le> m" "m < 10 ^ 2" "0 \<le> d" "d < 10 ^ 2"
    using assms month_days_bounds(2) [of y m] by (auto simp: Date valid_date_def)
  let ?y = "pad_nat 4 y" and ?m = "pad_nat 2 m" and ?d = "pad_nat 2 d"
  have l: "length ?y = 4" "length ?m = 2" "length ?d = 2" using b by (simp_all add: pad_nat_length)
  have t: "date_text x = ?y @ ''-'' @ ?m @ ''-'' @ ?d" by (simp add: date_text_def Date)
  have parts: "take 4 (date_text x) = ?y" "take 2 (drop 5 (date_text x)) = ?m" "drop 8 (date_text x) = ?d"
    "length (date_text x) = 10" "date_text x ! 4 = CHR ''-''" "date_text x ! 7 = CHR ''-''"
    using l by (simp_all add: t nth_append)
  have r: "Date (int (read_nat ?y)) (int (read_nat ?m)) (int (read_nat ?d)) = x"
    by (simp only: read_pad_nat [OF b(1)] read_pad_nat [OF b(3)] read_pad_nat [OF b(5)] Date)
  have g: "list_all is_digit (?y @ ?m @ ?d)" by (simp add: pad_nat_digits)
  show ?thesis
    unfolding parse_date_def Let_def parts r by (simp only: g assms(1) simp_thms if_True)
qed

lemma date_text_inj:
  assumes "valid_date x" and "0 \<le> year_of x" and "year_of x \<le> 9999"
    and "valid_date y" and "0 \<le> year_of y" and "year_of y \<le> 9999" and "date_text x = date_text y"
  shows "x = y"
proof -
  have "Some x = Some y"
    unfolding parse_date_text [OF assms(1-3), symmetric] parse_date_text [OF assms(4-6), symmetric] assms(7) ..
  then show ?thesis by (rule option.inject [THEN iffD1])
qed

end
