(* ===== verification/Keyed_Lists.thy ===== *)
theory Keyed_Lists
  imports Main "HOL-Library.Multiset"
begin

text \<open>
  Slices that are kept as maps, as the Go service does: find the element with a key or append
  a blank one, then update it, and sort by the key. The locale \<open>measure\<close> is a measure that
  adds up along a fold, so that its value does not depend on the order.
\<close>

section \<open>Find or append, then update\<close>

fun upsert :: "('a \<Rightarrow> 'k) \<Rightarrow> 'k \<Rightarrow> 'a \<Rightarrow> ('a \<Rightarrow> 'a) \<Rightarrow> 'a list \<Rightarrow> 'a list" where
  "upsert key k blank f [] = [f blank]"
| "upsert key k blank f (x # xs) = (if key x = k then f x # xs else x # upsert key k blank f xs)"

lemma upsert_keys:
  assumes "\<And>x. key (f x) = key x" and "key blank = k"
  shows "map key (upsert key k blank f xs) = (if k \<in> key ` set xs then map key xs else map key xs @ [k])"
  using assms by (induction xs) auto

lemma upsert_distinct:
  assumes "\<And>x. key (f x) = key x" and "key blank = k" and "distinct (map key xs)"
  shows "distinct (map key (upsert key k blank f xs))"
  using assms(3) by (simp add: upsert_keys [OF assms(1,2)])

lemma upsert_key_set:
  assumes "\<And>x. key (f x) = key x" and "key blank = k"
  shows "key ` set (upsert key k blank f xs) = insert k (key ` set xs)"
  using arg_cong [OF upsert_keys [OF assms, of xs], of set] by auto

lemma upsert_all:
  assumes "\<And>x. P x \<Longrightarrow> P (f x)" and "P (f blank)" and "\<forall>x \<in> set xs. P x"
  shows "\<forall>x \<in> set (upsert key k blank f xs). P x"
  using assms(3) by (induction xs) (auto simp: assms(1,2))

text \<open>A measure that the update increases by \<open>w\<close>.\<close>

lemma upsert_sum:
  fixes g :: "'a \<Rightarrow> 'm :: comm_monoid_add"
  assumes "\<And>x. key x = k \<Longrightarrow> g (f x) = g x + w" and "key blank = k" and "g blank = 0"
  shows "sum_list (map g (upsert key k blank f xs)) = sum_list (map g xs) + w"
  by (induction xs) (simp_all add: assms ac_simps)

lemma sort_key_sum: "sum_list (map g (sort_key k xs)) = sum_list (map g xs)"
  for g :: "'a \<Rightarrow> 'm :: comm_monoid_add"
  by (metis mset_map mset_sort sum_mset_sum_list)

lemma sort_key_sorted_distinct:
  "sorted (map k (sort_key k xs))" "distinct (map k (sort_key k xs)) = distinct (map k xs)"
proof -
  show "sorted (map k (sort_key k xs))" by simp
  have "mset (map k (sort_key k xs)) = mset (map k xs)" by simp
  then show "distinct (map k (sort_key k xs)) = distinct (map k xs)" by (rule mset_eq_imp_distinct_iff)
qed

text \<open>Lists with the same elements, sorted by a key that identifies them, are equal.\<close>

lemma sorted_key_unique:
  assumes "sorted (map k xs)" and "distinct (map k xs)" and "sorted (map k ys)" and "distinct (map k ys)"
    and "set xs = set ys"
  shows "xs = ys"
proof -
  have k: "map k xs = map k ys"
    using assms by (intro sorted_distinct_set_unique) simp_all
  have "inj_on k (set xs)" using assms(2) by (simp add: distinct_map)
  then show ?thesis using k assms(5) by (intro map_inj_on [of k xs ys]) (simp_all add: Un_absorb)
qed

section \<open>Measures that add up\<close>

locale measure =
  fixes add :: "'t \<Rightarrow> 't \<Rightarrow> 't" and g :: "'t \<Rightarrow> 'm :: comm_monoid_add"
  assumes adds: "g (add d s) = g d + g s"
begin

lemma folded: "g (fold (\<lambda>s d. add d s) ss d) = g d + sum_list (map g ss)"
  by (induction ss arbitrary: d) (simp_all add: adds ac_simps)

lemma order_irrelevant:
  assumes "mset ss = mset ss'"
  shows "g (fold (\<lambda>s d. add d s) ss d) = g (fold (\<lambda>s d. add d s) ss' d)"
proof -
  have "mset (map g ss) = mset (map g ss')" using assms by simp
  then have "sum_list (map g ss) = sum_list (map g ss')" by (metis sum_mset_sum_list)
  then show ?thesis by (simp add: folded)
qed

end

end
