(* ===== verification/Aggregate.thy ===== *)
theory Aggregate
  imports Keyed_Lists Doubles "HOL-Library.Word" "HOL-Library.Char_ord" "HOL-Library.List_Lexorder"
begin

text \<open>
  Merging the usage of several accounts (\<open>internal/dashboard/aggregate.go\<close>, lines 12 to 82, and
  \<open>service.go\<close>, lines 308 to 316). Counters are 64-bit integers and wrap around; strings are
  compared byte by byte; a nil slice or pointer is \<open>None\<close>. \<open>sort.Slice\<close> is not stable, but
  it is only applied to slices whose keys are distinct, where the result is determined; the
  model sorts with \<open>sort_key\<close>.
\<close>

type_synonym int64 = "64 word"

section \<open>Data\<close>

record go_cost =
  gc_currency :: string
  gc_nanos :: int64
  gc_amount :: jsnum

record go_totals =
  gt_input :: int64
  gt_output :: int64
  gt_cache_read :: int64
  gt_cache_creation :: int64
  gt_requests :: int64
  gt_tokens :: int64
  gt_nano_aiu :: "int64 option"
  gt_costs :: "go_cost list option"

record go_model =
  gm_name :: string
  gm_totals :: go_totals

text \<open>A day of an instance, whose totals the client has checked to be present, and of the answer.\<close>

record upstream_day =
  ud_date :: string
  ud_totals :: go_totals
  ud_models :: "go_model list"

record go_day =
  gd_date :: string
  gd_recorded :: bool
  gd_totals :: go_totals
  gd_models :: "go_model list"

section \<open>Operations\<close>

text \<open>\<open>float64(n) / 1e9\<close>.\<close>

definition float64_of :: "int64 \<Rightarrow> jsnum" where
  "float64_of n = num_of False (of_int (sint n))"

definition nanos_amount :: "int64 \<Rightarrow> jsnum" where
  "nanos_amount n = float64_of n / Fin (10 ^ 9)"

definition blank_cost :: "string \<Rightarrow> go_cost" where
  "blank_cost c = \<lparr>gc_currency = c, gc_nanos = 0, gc_amount = Fin 0\<rparr>"

definition raise_cost :: "int64 \<Rightarrow> go_cost \<Rightarrow> go_cost" where
  "raise_cost n d = d\<lparr>gc_nanos := gc_nanos d + n, gc_amount := nanos_amount (gc_nanos d + n)\<rparr>"

definition add_cost :: "go_cost \<Rightarrow> go_cost list \<Rightarrow> go_cost list" where
  "add_cost c cs = upsert gc_currency (gc_currency c) (blank_cost (gc_currency c)) (raise_cost (gc_nanos c)) cs"

definition slice :: "'a list option \<Rightarrow> 'a list" where
  "slice s = (case s of None \<Rightarrow> [] | Some xs \<Rightarrow> xs)"

definition addTotals :: "go_totals \<Rightarrow> go_totals \<Rightarrow> go_totals" where
  "addTotals dst src = dst\<lparr>
     gt_input := gt_input dst + gt_input src,
     gt_output := gt_output dst + gt_output src,
     gt_cache_read := gt_cache_read dst + gt_cache_read src,
     gt_cache_creation := gt_cache_creation dst + gt_cache_creation src,
     gt_requests := gt_requests dst + gt_requests src,
     gt_tokens := gt_tokens dst + gt_tokens src,
     gt_nano_aiu := (case gt_nano_aiu src of None \<Rightarrow> gt_nano_aiu dst
       | Some n \<Rightarrow> Some ((case gt_nano_aiu dst of None \<Rightarrow> 0 | Some m \<Rightarrow> m) + n)),
     gt_costs := Some (sort_key gc_currency (fold add_cost (slice (gt_costs src)) (slice (gt_costs dst))))\<rparr>"

text \<open>The zero value of the struct, and the totals the service starts from.\<close>

definition zero_totals :: go_totals where
  "zero_totals = \<lparr>gt_input = 0, gt_output = 0, gt_cache_read = 0, gt_cache_creation = 0,
     gt_requests = 0, gt_tokens = 0, gt_nano_aiu = None, gt_costs = None\<rparr>"

definition empty_totals :: go_totals where
  "empty_totals = zero_totals\<lparr>gt_costs := Some []\<rparr>"

definition blank_model :: "string \<Rightarrow> go_model" where
  "blank_model n = \<lparr>gm_name = n, gm_totals = zero_totals\<rparr>"

definition raise_model :: "go_totals \<Rightarrow> go_model \<Rightarrow> go_model" where
  "raise_model t d = d\<lparr>gm_totals := addTotals (gm_totals d) t\<rparr>"

definition mergeModels :: "go_model list \<Rightarrow> go_model list \<Rightarrow> go_model list" where
  "mergeModels dst src = sort_key gm_name
     (fold (\<lambda>m. upsert gm_name (gm_name m) (blank_model (gm_name m)) (raise_model (gm_totals m))) src dst)"

definition blank_day :: "string \<Rightarrow> go_day" where
  "blank_day d = \<lparr>gd_date = d, gd_recorded = True, gd_totals = zero_totals, gd_models = []\<rparr>"

definition raise_day :: "upstream_day \<Rightarrow> go_day \<Rightarrow> go_day" where
  "raise_day src d = d\<lparr>gd_recorded := True, gd_totals := addTotals (gd_totals d) (ud_totals src),
     gd_models := mergeModels (gd_models d) (ud_models src)\<rparr>"

definition mergeDay :: "go_day list \<Rightarrow> upstream_day \<Rightarrow> go_day list" where
  "mergeDay dst src = sort_key gd_date (upsert gd_date (ud_date src) (blank_day (ud_date src)) (raise_day src) dst)"

definition summarizeDays :: "upstream_day list \<Rightarrow> go_totals \<times> go_model list" where
  "summarizeDays ds = fold (\<lambda>d (t, ms). (addTotals t (ud_totals d), mergeModels ms (ud_models d)))
     ds (empty_totals, [])"

section \<open>Measures\<close>

text \<open>What a currency costs, the nano units, and whether they are known.\<close>

definition nanos_of :: "string \<Rightarrow> go_totals \<Rightarrow> int64" where
  "nanos_of c t = sum_list (map (\<lambda>x. if gc_currency x = c then gc_nanos x else 0) (slice (gt_costs t)))"

definition aiu_of :: "go_totals \<Rightarrow> int64" where
  "aiu_of t = (case gt_nano_aiu t of None \<Rightarrow> 0 | Some n \<Rightarrow> n)"

definition currencies :: "go_totals \<Rightarrow> string set" where
  "currencies t = gc_currency ` set (slice (gt_costs t))"

lemma slice_Some [simp]: "slice (Some xs) = xs"
  by (simp add: slice_def)

lemma raise_cost_simps [simp]:
  "gc_currency (raise_cost n d) = gc_currency d" "gc_nanos (raise_cost n d) = gc_nanos d + n"
  "gc_amount (raise_cost n d) = nanos_amount (gc_nanos d + n)"
  by (simp_all add: raise_cost_def)

lemma blank_cost_simps [simp]: "gc_currency (blank_cost c) = c" "gc_nanos (blank_cost c) = 0"
  by (simp_all add: blank_cost_def)

abbreviation (input) paid :: "string \<Rightarrow> go_cost \<Rightarrow> int64" where
  "paid c \<equiv> \<lambda>x. if gc_currency x = c then gc_nanos x else 0"

lemma add_cost_paid: "sum_list (map (paid c) (add_cost x cs)) = sum_list (map (paid c) cs) + paid c x"
  unfolding add_cost_def by (rule upsert_sum) auto

lemma fold_add_cost_paid:
  "sum_list (map (paid c) (fold add_cost xs cs)) = sum_list (map (paid c) cs) + sum_list (map (paid c) xs)"
  by (induction xs arbitrary: cs) (simp_all add: add_cost_paid ac_simps)

lemma add_cost_keys: "gc_currency ` set (add_cost x cs) = insert (gc_currency x) (gc_currency ` set cs)"
  unfolding add_cost_def by (rule upsert_key_set) simp_all

lemma fold_add_cost_keys:
  "gc_currency ` set (fold add_cost xs cs) = gc_currency ` set cs \<union> gc_currency ` set xs"
  by (induction xs arbitrary: cs) (auto simp: add_cost_keys)

lemma fold_add_cost_distinct:
  "distinct (map gc_currency cs) \<Longrightarrow> distinct (map gc_currency (fold add_cost xs cs))"
proof (induction xs arbitrary: cs)
  case (Cons x xs)
  have "distinct (map gc_currency (add_cost x cs))"
    unfolding add_cost_def by (rule upsert_distinct) (simp_all add: Cons.prems)
  then show ?case using Cons.IH by simp
qed simp

definition priced :: "go_cost \<Rightarrow> bool" where
  "priced c \<longleftrightarrow> gc_amount c = nanos_amount (gc_nanos c)"

lemma fold_add_cost_priced: "\<forall>c \<in> set cs. priced c \<Longrightarrow> \<forall>c \<in> set (fold add_cost xs cs). priced c"
proof (induction xs arbitrary: cs)
  case (Cons x xs)
  have "\<forall>c \<in> set (add_cost x cs). priced c"
    unfolding add_cost_def by (rule upsert_all) (use Cons.prems in \<open>simp_all add: priced_def\<close>)
  then show ?case using Cons.IH by simp
qed simp

section \<open>Adding totals\<close>

lemma nanos_of_add: "nanos_of c (addTotals d s) = nanos_of c d + nanos_of c s"
  unfolding nanos_of_def by (simp add: addTotals_def sort_key_sum fold_add_cost_paid)

lemma aiu_of_add: "aiu_of (addTotals d s) = aiu_of d + aiu_of s"
  by (simp add: aiu_of_def addTotals_def split: option.split)

lemma currencies_add: "currencies (addTotals d s) = currencies d \<union> currencies s"
  by (simp add: currencies_def addTotals_def fold_add_cost_keys)

lemma aiu_known_add:
  "(gt_nano_aiu (addTotals d s) = None) = (gt_nano_aiu d = None \<and> gt_nano_aiu s = None)"
  by (simp add: addTotals_def split: option.split)

interpretation tin: measure addTotals gt_input by unfold_locales (simp add: addTotals_def)
interpretation tout: measure addTotals gt_output by unfold_locales (simp add: addTotals_def)
interpretation cache_read: measure addTotals gt_cache_read by unfold_locales (simp add: addTotals_def)
interpretation cache_creation: measure addTotals gt_cache_creation by unfold_locales (simp add: addTotals_def)
interpretation requests: measure addTotals gt_requests by unfold_locales (simp add: addTotals_def)
interpretation total: measure addTotals gt_tokens by unfold_locales (simp add: addTotals_def)
interpretation aiu: measure addTotals aiu_of by unfold_locales (rule aiu_of_add)
interpretation nanos: measure addTotals "nanos_of c" for c by unfold_locales (rule nanos_of_add)

lemmas orders = tin.order_irrelevant tout.order_irrelevant cache_read.order_irrelevant
  cache_creation.order_irrelevant requests.order_irrelevant total.order_irrelevant aiu.order_irrelevant

text \<open>
  Totals in normal form: the costs are present, one per currency, sorted, and each amount is
  that of its nano units. Adding keeps the form, whatever is added.
\<close>

definition normal :: "go_totals \<Rightarrow> bool" where
  "normal t \<longleftrightarrow> gt_costs t \<noteq> None \<and> sorted (map gc_currency (slice (gt_costs t)))
     \<and> distinct (map gc_currency (slice (gt_costs t))) \<and> (\<forall>c \<in> set (slice (gt_costs t)). priced c)"

lemma normal_empty: "normal empty_totals"
  by (simp add: normal_def empty_totals_def)

lemma normal_add:
  assumes "distinct (map gc_currency (slice (gt_costs d)))" and "\<forall>c \<in> set (slice (gt_costs d)). priced c"
  shows "normal (addTotals d s)"
  using fold_add_cost_distinct [OF assms(1)] fold_add_cost_priced [OF assms(2)]
  by (simp add: normal_def addTotals_def sort_key_sorted_distinct)

lemma normal_adds: "normal d \<Longrightarrow> normal (addTotals d s)"
  by (rule normal_add) (simp_all add: normal_def)

lemma normal_fold: "normal d \<Longrightarrow> normal (fold (\<lambda>s d. addTotals d s) ss d)"
  by (induction ss arbitrary: d) (simp_all add: normal_adds)

text \<open>The costs of a currency, when it occurs once.\<close>

lemma paid_once:
  "distinct (map gc_currency cs) \<Longrightarrow> x \<in> set cs \<Longrightarrow> sum_list (map (paid (gc_currency x)) cs) = gc_nanos x"
proof (induction cs)
  case (Cons y cs)
  have "map (paid (gc_currency y)) cs = map (\<lambda>_. 0) cs"
    using Cons.prems(1) by (intro map_cong) (auto simp: image_iff eq_commute)
  then have none: "sum_list (map (paid (gc_currency y)) cs) = 0" by (simp only: sum_list_0)
  show ?case using Cons none by auto
qed simp

lemma normal_unique:
  assumes n: "normal t" "normal u"
    and eq: "\<And>c. nanos_of c t = nanos_of c u" "currencies t = currencies u" "aiu_of t = aiu_of u"
      "(gt_nano_aiu t = None) = (gt_nano_aiu u = None)" "gt_input t = gt_input u" "gt_output t = gt_output u"
      "gt_cache_read t = gt_cache_read u" "gt_cache_creation t = gt_cache_creation u"
      "gt_requests t = gt_requests u" "gt_tokens t = gt_tokens u"
  shows "t = u"
proof -
  obtain cs ds where c: "gt_costs t = Some cs" "gt_costs u = Some ds" using n by (auto simp: normal_def)
  have sub: "x \<in> set ds" if x: "x \<in> set cs"
    and n: "distinct (map gc_currency cs)" "distinct (map gc_currency ds)" "\<forall>c \<in> set cs. priced c"
      "\<forall>c \<in> set ds. priced c" "gc_currency ` set cs = gc_currency ` set ds"
      "\<And>c. sum_list (map (paid c) cs) = sum_list (map (paid c) ds)" for x cs ds
  proof -
    obtain y where y: "y \<in> set ds" "gc_currency y = gc_currency x" using x n(5) by (metis image_iff)
    have "gc_nanos x = gc_nanos y"
      using paid_once [OF n(1) x] paid_once [OF n(2) y(1)] n(6) y(2) by simp
    then have "x = y" using n(3,4) x y by (intro go_cost.equality) (simp_all add: priced_def)
    then show ?thesis using y by simp
  qed
  have s: "\<And>c. sum_list (map (paid c) cs) = sum_list (map (paid c) ds)"
    "gc_currency ` set cs = gc_currency ` set ds"
    using eq(1,2) by (simp_all add: nanos_of_def currencies_def c)
  have "set cs = set ds"
    using n s sub [of _ cs ds] sub [of _ ds cs] by (auto simp: normal_def c)
  then have "cs = ds" using n by (intro sorted_key_unique [of gc_currency]) (simp_all add: normal_def c)
  moreover have "gt_nano_aiu t = gt_nano_aiu u"
    using eq(3,4) by (cases "gt_nano_aiu t"; cases "gt_nano_aiu u") (simp_all add: aiu_of_def)
  ultimately show ?thesis using eq by (intro go_totals.equality) (simp_all add: c)
qed

lemma fold_currencies:
  "currencies (fold (\<lambda>s d. addTotals d s) ss d) = currencies d \<union> (\<Union>s \<in> set ss. currencies s)"
  by (induction ss arbitrary: d) (auto simp: currencies_add)

lemma fold_aiu_known:
  "(gt_nano_aiu (fold (\<lambda>s d. addTotals d s) ss d) = None)
     = (gt_nano_aiu d = None \<and> (\<forall>s \<in> set ss. gt_nano_aiu s = None))"
  by (induction ss arbitrary: d) (auto simp: aiu_known_add)

lemma totals_permuted:
  assumes "mset ss = mset ss'" and "normal d"
  shows "fold (\<lambda>s d. addTotals d s) ss d = fold (\<lambda>s d. addTotals d s) ss' d"
proof -
  have set: "set ss = set ss'" using assms(1) by (metis set_mset_mset)
  show ?thesis
    by (rule normal_unique [OF normal_fold normal_fold]; (rule assms(2) orders [OF assms(1)] nanos.order_irrelevant [OF assms(1)])?)
      (simp_all add: fold_currencies fold_aiu_known set)
qed

section \<open>Merging models and days\<close>

lemma raise_simps [simp]:
  "gm_name (raise_model t d) = gm_name d" "gm_totals (raise_model t d) = addTotals (gm_totals d) t"
  "gm_name (blank_model n) = n" "gm_totals (blank_model n) = zero_totals"
  "gd_date (raise_day s v) = gd_date v" "gd_totals (raise_day s v) = addTotals (gd_totals v) (ud_totals s)"
  "gd_recorded (raise_day s v)" "gd_models (raise_day s v) = mergeModels (gd_models v) (ud_models s)"
  "gd_date (blank_day x) = x" "gd_totals (blank_day x) = zero_totals" "gd_models (blank_day x) = []"
  by (simp_all add: raise_model_def blank_model_def raise_day_def blank_day_def)

lemma normal_zero_add: "normal (addTotals zero_totals s)"
  by (rule normal_add) (simp_all add: zero_totals_def slice_def)

text \<open>A list of models or days in normal form: one per key, sorted, with normal totals.\<close>

definition models_normal :: "go_model list \<Rightarrow> bool" where
  "models_normal ms \<longleftrightarrow> sorted (map gm_name ms) \<and> distinct (map gm_name ms)
     \<and> (\<forall>m \<in> set ms. normal (gm_totals m))"

definition days_normal :: "go_day list \<Rightarrow> bool" where
  "days_normal ds \<longleftrightarrow> sorted (map gd_date ds) \<and> distinct (map gd_date ds)
     \<and> (\<forall>d \<in> set ds. normal (gd_totals d) \<and> models_normal (gd_models d))"

lemma models_normal_Nil [simp]: "models_normal []"
  by (simp add: models_normal_def)

lemma fold_models_normal:
  assumes "distinct (map gm_name ms)" and "\<forall>m \<in> set ms. normal (gm_totals m)"
  shows "distinct (map gm_name (fold (\<lambda>m. upsert gm_name (gm_name m) (blank_model (gm_name m)) (raise_model (gm_totals m))) src ms))
    \<and> (\<forall>m \<in> set (fold (\<lambda>m. upsert gm_name (gm_name m) (blank_model (gm_name m)) (raise_model (gm_totals m))) src ms).
         normal (gm_totals m))"
  using assms
proof (induction src arbitrary: ms)
  case (Cons m src)
  let ?ms = "upsert gm_name (gm_name m) (blank_model (gm_name m)) (raise_model (gm_totals m)) ms"
  have "distinct (map gm_name ?ms)" by (rule upsert_distinct) (simp_all add: Cons.prems)
  moreover have "\<forall>x \<in> set ?ms. normal (gm_totals x)"
    by (rule upsert_all) (use Cons.prems in \<open>simp_all add: normal_adds normal_zero_add\<close>)
  ultimately show ?case using Cons.IH by simp
qed simp

lemma mergeModels_normal: "models_normal ms \<Longrightarrow> models_normal (mergeModels ms src)"
  using fold_models_normal [of ms src] by (simp add: models_normal_def mergeModels_def sort_key_sorted_distinct)

lemma mergeDay_normal:
  assumes "days_normal ds"
  shows "days_normal (mergeDay ds s)"
proof -
  let ?ds = "upsert gd_date (ud_date s) (blank_day (ud_date s)) (raise_day s) ds"
  have "distinct (map gd_date ?ds)"
    by (rule upsert_distinct) (use assms in \<open>simp_all add: days_normal_def\<close>)
  moreover have "\<forall>d \<in> set ?ds. normal (gd_totals d) \<and> models_normal (gd_models d)"
    by (rule upsert_all)
      (use assms in \<open>simp_all add: days_normal_def normal_adds normal_zero_add mergeModels_normal\<close>)
  ultimately show ?thesis by (simp add: days_normal_def mergeDay_def sort_key_sorted_distinct)
qed

lemma mergeDay_dates: "gd_date ` set (mergeDay ds s) = insert (ud_date s) (gd_date ` set ds)"
proof -
  have "set (mergeDay ds s) = set (upsert gd_date (ud_date s) (blank_day (ud_date s)) (raise_day s) ds)"
    by (simp add: mergeDay_def)
  then show ?thesis by (simp add: upsert_key_set)
qed

text \<open>A measure that the zero value does not have, through models and days.\<close>

locale counter = measure addTotals g for g :: "go_totals \<Rightarrow> 'm :: comm_monoid_add" +
  assumes zero: "g zero_totals = 0"
begin

lemma merged_models:
  "sum_list (map (\<lambda>m. g (gm_totals m)) (mergeModels dst src))
     = sum_list (map (\<lambda>m. g (gm_totals m)) dst) + sum_list (map (\<lambda>m. g (gm_totals m)) src)"
proof -
  have up: "sum_list (map (\<lambda>m. g (gm_totals m)) (upsert gm_name (gm_name m) (blank_model (gm_name m))
      (raise_model (gm_totals m)) ms)) = sum_list (map (\<lambda>m. g (gm_totals m)) ms) + g (gm_totals m)" for m ms
    by (rule upsert_sum) (simp_all add: adds zero)
  have "sum_list (map (\<lambda>m. g (gm_totals m)) (fold (\<lambda>m. upsert gm_name (gm_name m)
      (blank_model (gm_name m)) (raise_model (gm_totals m))) src dst))
      = sum_list (map (\<lambda>m. g (gm_totals m)) dst) + sum_list (map (\<lambda>m. g (gm_totals m)) src)"
    by (induction src arbitrary: dst) (simp_all add: up ac_simps)
  then show ?thesis by (simp only: mergeModels_def sort_key_sum)
qed

lemma merged_day:
  "sum_list (map (\<lambda>d. g (gd_totals d)) (mergeDay ds s)) = sum_list (map (\<lambda>d. g (gd_totals d)) ds) + g (ud_totals s)"
  unfolding mergeDay_def sort_key_sum by (rule upsert_sum) (simp_all add: adds zero)

lemma merged_days:
  "sum_list (map (\<lambda>d. g (gd_totals d)) (fold (\<lambda>s ds. mergeDay ds s) ss ds))
     = sum_list (map (\<lambda>d. g (gd_totals d)) ds) + sum_list (map (\<lambda>s. g (ud_totals s)) ss)"
  by (induction ss arbitrary: ds) (simp_all add: merged_day ac_simps)

lemma summarized:
  assumes "g empty_totals = 0"
  shows "g (fst (summarizeDays ds)) = sum_list (map (\<lambda>d. g (ud_totals d)) ds)"
    and "sum_list (map (\<lambda>m. g (gm_totals m)) (snd (summarizeDays ds)))
      = sum_list (map (\<lambda>d. sum_list (map (\<lambda>m. g (gm_totals m)) (ud_models d))) ds)"
proof -
  let ?f = "\<lambda>d (t, ms). (addTotals t (ud_totals d), mergeModels ms (ud_models d))"
  have "g (fst (fold ?f ds (t, ms))) = g t + sum_list (map (\<lambda>d. g (ud_totals d)) ds)
      \<and> sum_list (map (\<lambda>m. g (gm_totals m)) (snd (fold ?f ds (t, ms))))
        = sum_list (map (\<lambda>m. g (gm_totals m)) ms)
          + sum_list (map (\<lambda>d. sum_list (map (\<lambda>m. g (gm_totals m)) (ud_models d))) ds)" for t ms
    by (induction ds arbitrary: t ms) (simp_all add: adds merged_models ac_simps)
  from this [of empty_totals "[]"] assms
  show "g (fst (summarizeDays ds)) = sum_list (map (\<lambda>d. g (ud_totals d)) ds)"
    "sum_list (map (\<lambda>m. g (gm_totals m)) (snd (summarizeDays ds)))
      = sum_list (map (\<lambda>d. sum_list (map (\<lambda>m. g (gm_totals m)) (ud_models d))) ds)"
    by (simp_all add: summarizeDays_def)
qed

end

interpretation tokens: counter gt_tokens by unfold_locales (simp add: zero_totals_def)
interpretation request: counter gt_requests by unfold_locales (simp add: zero_totals_def)
interpretation paid: counter "nanos_of c" for c by unfold_locales (simp add: zero_totals_def nanos_of_def slice_def)

lemma summarizeDays_normal: "normal (fst (summarizeDays ds)) \<and> models_normal (snd (summarizeDays ds))"
proof -
  let ?f = "\<lambda>d (t, ms). (addTotals t (ud_totals d), mergeModels ms (ud_models d))"
  have "normal t \<Longrightarrow> models_normal ms
      \<Longrightarrow> normal (fst (fold ?f ds (t, ms))) \<and> models_normal (snd (fold ?f ds (t, ms)))" for t ms
    by (induction ds arbitrary: t ms) (simp_all add: normal_adds mergeModels_normal)
  then show ?thesis by (simp add: summarizeDays_def normal_empty)
qed

lemma merged_days_normal: "days_normal ds \<Longrightarrow> days_normal (fold (\<lambda>s ds. mergeDay ds s) ss ds)"
  by (induction ss arbitrary: ds) (simp_all add: mergeDay_normal)

lemma merged_days_dates:
  "gd_date ` set (fold (\<lambda>s ds. mergeDay ds s) ss ds) = gd_date ` set ds \<union> ud_date ` set ss"
  by (induction ss arbitrary: ds) (auto simp: mergeDay_dates)

end
