(* ===== verification/Days.thy ===== *)
theory Days
  imports Calendar Aggregate
begin

text \<open>
  Filling the days of a period that have no usage (\<open>internal/dashboard/aggregate.go\<close>, lines 84
  to 128). What the service reads of the clock is its civil date and its weekday in the
  configured location; midnights are taken to exist on every date.
\<close>

record clock =
  clock_date :: date
  clock_weekday :: int        \<comment> \<open>Sunday is 0\<close>

definition maxFilledLifetimeDays :: int where
  "maxFilledLifetimeDays = 366"

text \<open>The earliest date of the slice and a start; \<open>None\<close> when a date cannot be parsed.\<close>

fun earliest :: "date \<Rightarrow> go_day list \<Rightarrow> date option" where
  "earliest start [] = Some start"
| "earliest start (d # ds) = (case parse_date (gd_date d) of None \<Rightarrow> None
     | Some x \<Rightarrow> earliest (if before x start then x else start) ds)"

text \<open>The first date that is filled; \<open>None\<close> when the slice is returned as it is.\<close>

definition fill_start :: "string \<Rightarrow> clock \<Rightarrow> go_day list \<Rightarrow> date option" where
  "fill_start period now ds =
     (let today = clock_date now
      in if period = ''this_week'' then Some (add_days (- ((clock_weekday now + 6) mod 7)) today)
         else if period = ''last_7_days'' then Some (add_days (- 6) today)
         else if period = ''this_month'' then Some (month_start today)
         else if period = ''last_30_days'' then Some (add_days (- 29) today)
         else if period = ''lifetime'' then
           (case earliest (add_days (- 6) today) ds of None \<Rightarrow> None
            | Some start \<Rightarrow> if before (add_days (maxFilledLifetimeDays - 1) start) today then None
                else Some start)
         else None)"

definition unrecorded_day :: "string \<Rightarrow> go_day" where
  "unrecorded_day k = \<lparr>gd_date = k, gd_recorded = False, gd_totals = empty_totals, gd_models = []\<rparr>"

definition fill_from :: "date \<Rightarrow> date \<Rightarrow> go_day list \<Rightarrow> go_day list" where
  "fill_from start today ds = sort_key gd_date (ds @ map unrecorded_day
     (filter (\<lambda>k. k \<notin> gd_date ` set ds) (map date_text (dates_from start today))))"

definition fillDays :: "go_day list option \<Rightarrow> string \<Rightarrow> clock \<Rightarrow> go_day list option" where
  "fillDays days period now = (case days of None \<Rightarrow> None
     | Some ds \<Rightarrow> if period = ''today'' \<or> period = ''lifetime'' \<and> ds = [] then Some ds
         else (case fill_start period now ds of None \<Rightarrow> Some ds
           | Some start \<Rightarrow> Some (fill_from start (clock_date now) ds)))"

section \<open>Years\<close>

text \<open>The dates the service meets have four-digit years, so that their texts identify them.\<close>

definition usual_clock :: "clock \<Rightarrow> bool" where
  "usual_clock now \<longleftrightarrow> valid_date (clock_date now) \<and> 1970 \<le> year_of (clock_date now)
     \<and> year_of (clock_date now) \<le> 9999"

lemma year_prev: "year_of x - 1 \<le> year_of (prev_day x)"
  by (cases x) simp

lemma year_prev_iter: "year_of x - int n \<le> year_of ((prev_day ^^ n) x)"
proof (induction n)
  case (Suc n)
  then show ?case using year_prev [of "(prev_day ^^ n) x"] by simp
qed simp

lemma year_before: "before x y \<Longrightarrow> year_of x \<le> year_of y"
  by (cases x; cases y) auto

lemma year_dates:
  assumes "z \<in> set (dates_from x y)"
  shows "year_of x \<le> year_of z" and "year_of z \<le> year_of y"
proof -
  show "year_of x \<le> year_of z" using dates_from_after [OF assms] year_before by auto
  show "year_of z \<le> year_of y"
    using dates_from_upto [OF assms] before_total [of z y] year_before [of z y] by auto
qed

lemma parse_year: "parse_date s = Some x \<Longrightarrow> valid_date x \<and> 0 \<le> year_of x"
  by (auto simp: parse_date_def Let_def split: if_splits)

lemma earliest_ok:
  "earliest start ds = Some x \<Longrightarrow> valid_date start \<Longrightarrow> 0 \<le> year_of start \<Longrightarrow> valid_date x \<and> 0 \<le> year_of x"
  by (induction start ds rule: earliest.induct) (auto dest: parse_year split: option.splits if_splits)

lemma start_ok:
  assumes "fill_start period now ds = Some start" and ok: "usual_clock now"
  shows "valid_date start \<and> 0 \<le> year_of start"
proof -
  let ?t = "clock_date now"
  have earlier: "valid_date (add_days (- k) ?t) \<and> 0 \<le> year_of (add_days (- k) ?t)" if "0 \<le> k" "k \<le> 31" for k
  proof -
    have "year_of ?t - k \<le> year_of (add_days (- k) ?t)"
      using year_prev_iter [of ?t "nat k"] that by (cases "k = 0") (simp_all add: add_days_def)
    then show ?thesis using ok that by (simp add: usual_clock_def valid_add_days)
  qed
  have "0 \<le> (clock_weekday now + 6) mod 7" "(clock_weekday now + 6) mod 7 < 7" by simp_all
  then have week: "valid_date (add_days (- ((clock_weekday now + 6) mod 7)) ?t)
      \<and> 0 \<le> year_of (add_days (- ((clock_weekday now + 6) mod 7)) ?t)"
    by (intro earlier) simp_all
  have month: "valid_date (month_start ?t) \<and> 0 \<le> year_of (month_start ?t)"
    using ok by (cases ?t) (simp add: usual_clock_def valid_date_def)
  show ?thesis
    using assms(1) week month earlier [of 6] earlier [of 29] earliest_ok [of "add_days (- 6) ?t" ds]
    by (auto simp: fill_start_def Let_def split: if_splits option.splits)
qed

section \<open>What is filled\<close>

lemma texts_distinct:
  assumes "valid_date start" and "0 \<le> year_of start" and "year_of today \<le> 9999"
  shows "distinct (map date_text (dates_from start today))"
  unfolding distinct_map
proof (intro conjI inj_onI dates_from_distinct)
  fix x y
  assume x: "x \<in> set (dates_from start today)" and y: "y \<in> set (dates_from start today)"
    and eq: "date_text x = date_text y"
  show "x = y"
    by (rule date_text_inj [OF dates_from_valid [OF x assms(1)] _ _ dates_from_valid [OF y assms(1)] _ _ eq])
      (use year_dates [OF x] year_dates [OF y] assms(2,3) in linarith)+
qed

lemma fill_from_set:
  "set (fill_from start today ds) = set ds \<union>
     unrecorded_day ` {k \<in> date_text ` set (dates_from start today). k \<notin> gd_date ` set ds}"
  by (auto simp: fill_from_def)

lemma unrecorded_simps [simp]:
  "gd_date (unrecorded_day k) = k" "\<not> gd_recorded (unrecorded_day k)"
  "gd_totals (unrecorded_day k) = empty_totals" "gd_models (unrecorded_day k) = []"
  by (simp_all add: unrecorded_day_def)

lemma fill_from_dates:
  "gd_date ` set (fill_from start today ds) = gd_date ` set ds \<union> date_text ` set (dates_from start today)"
  by (auto simp: fill_from_set image_Un image_image)

lemma fill_from_distinct:
  assumes "valid_date start" and "0 \<le> year_of start" and "year_of today \<le> 9999" and "distinct (map gd_date ds)"
  shows "distinct (map gd_date (fill_from start today ds))"
  using texts_distinct [OF assms(1-3)] assms(4)
  by (auto simp: fill_from_def sort_key_sorted_distinct comp_def)

lemma fill_from_normal:
  assumes "valid_date start" and "0 \<le> year_of start" and "year_of today \<le> 9999" and "days_normal ds"
  shows "days_normal (fill_from start today ds)"
proof -
  have "\<forall>d \<in> set (fill_from start today ds). normal (gd_totals d) \<and> models_normal (gd_models d)"
    using assms(4) by (auto simp: fill_from_set days_normal_def normal_empty)
  moreover have "sorted (map gd_date (fill_from start today ds))" by (simp add: fill_from_def)
  ultimately show ?thesis
    using fill_from_distinct [OF assms(1-3)] assms(4) by (simp add: days_normal_def)
qed

lemma fillDays_some: "\<exists>r. fillDays (Some ds) period now = Some r"
  unfolding fillDays_def option.case by (cases "fill_start period now ds") (simp_all split: if_split)

lemma fillDays_cases:
  assumes "fillDays (Some ds) period now = Some r"
  obtains "r = ds" | start where "fill_start period now ds = Some start" and "r = fill_from start (clock_date now) ds"
proof (cases "period = ''today'' \<or> period = ''lifetime'' \<and> ds = []")
  case True
  then show thesis using assms that(1) by (simp only: fillDays_def option.case if_True option.inject)
next
  case False
  then have r: "(case fill_start period now ds of None \<Rightarrow> Some ds
      | Some start \<Rightarrow> Some (fill_from start (clock_date now) ds)) = Some r"
    using assms by (simp only: fillDays_def option.case if_False)
  show thesis
  proof (cases "fill_start period now ds")
    case None
    then show thesis using r by (intro that(1) [OF sym]) (simp only: option.case option.inject)
  next
    case (Some start)
    then show thesis using r by (intro that(2) [OF _ sym]) (simp_all only: option.case option.inject)
  qed
qed

lemma fillDays_normal:
  "usual_clock now \<Longrightarrow> days_normal ds \<Longrightarrow> fillDays (Some ds) period now = Some r \<Longrightarrow> days_normal r"
  using start_ok fill_from_normal by (elim fillDays_cases) (auto simp: usual_clock_def)

text \<open>Filling adds nothing to a counter.\<close>

context counter
begin

lemma filled:
  assumes "g empty_totals = 0" and "fillDays (Some ds) period now = Some r"
  shows "sum_list (map (\<lambda>d. g (gd_totals d)) r) = sum_list (map (\<lambda>d. g (gd_totals d)) ds)"
proof -
  have "sum_list (map (\<lambda>d. g (gd_totals d)) (map unrecorded_day ks)) = 0" for ks
    by (induction ks) (simp_all add: assms(1))
  then show ?thesis
    using assms(2) by (elim fillDays_cases) (simp_all add: fill_from_def sort_key_sum)
qed

end

end
