(* ===== verification/Endpoints.thy ===== *)
theory Endpoints
  imports Stable_Sort "HOL-Library.Char_ord" "HOL-Library.List_Lexorder"
begin

text \<open>
  Endpoints and their deduplication (\<open>internal/discovery/discovery.go\<close>, lines 24 to 29 and 98
  to 121). Endpoints of the file come before those of Docker, then they are ordered by URL
  and name; of two that share a URL or a name the first is kept.
\<close>

record endpoint =
  ep_name :: string
  ep_url :: string
  ep_source :: string
  ep_key :: string

text \<open>The function \<open>Less\<close>.\<close>

definition endpoint_less :: "endpoint \<Rightarrow> endpoint \<Rightarrow> bool" where
  "endpoint_less a b =
     (if ep_source a \<noteq> ep_source b then ep_source a = ''yaml''
      else if ep_url a \<noteq> ep_url b then ep_url a < ep_url b
      else ep_name a < ep_name b)"

definition endpoint_cmp :: "endpoint \<Rightarrow> endpoint \<Rightarrow> int" where
  "endpoint_cmp a b = (if endpoint_less a b then - 1 else if endpoint_less b a then 1 else 0)"

fun keep_unseen :: "string set \<Rightarrow> string set \<Rightarrow> endpoint list \<Rightarrow> endpoint list" where
  "keep_unseen urls names [] = []"
| "keep_unseen urls names (e # es) =
     (if ep_url e \<notin> urls \<and> ep_name e \<notin> names
      then e # keep_unseen (insert (ep_url e) urls) (insert (ep_name e) names) es
      else keep_unseen urls names es)"

definition Deduplicate :: "endpoint list \<Rightarrow> endpoint list" where
  "Deduplicate es = keep_unseen {} {} (sort_by endpoint_cmp es)"

section \<open>The order\<close>

text \<open>The service makes endpoints of two sources only.\<close>

definition known_sources :: "endpoint set" where
  "known_sources = {e. ep_source e = ''yaml'' \<or> ep_source e = ''docker''}"

definition source_rank :: "endpoint \<Rightarrow> nat" where
  "source_rank e = (if ep_source e = ''yaml'' then 0 else 1)"

lemma endpoint_less_rank:
  assumes "a \<in> known_sources" and "b \<in> known_sources"
  shows "endpoint_less a b \<longleftrightarrow> source_rank a < source_rank b
    \<or> source_rank a = source_rank b \<and> (ep_url a < ep_url b \<or> ep_url a = ep_url b \<and> ep_name a < ep_name b)"
proof (cases "ep_source a = ep_source b")
  case True
  then have "source_rank a = source_rank b" by (simp add: source_rank_def)
  then show ?thesis using True by (cases "ep_url a = ep_url b") (simp_all add: endpoint_less_def)
next
  case False
  then have "(ep_source a = ''yaml'') \<noteq> (ep_source b = ''yaml'')"
    using assms unfolding known_sources_def mem_Collect_eq by metis
  then show ?thesis using False by (cases "ep_source a = ''yaml''") (simp_all add: endpoint_less_def source_rank_def)
qed

lemma endpoint_less_asym:
  assumes "a \<in> known_sources" and "b \<in> known_sources" and "endpoint_less a b"
  shows "\<not> endpoint_less b a"
  using assms(3) unfolding endpoint_less_rank [OF assms(1,2)] endpoint_less_rank [OF assms(2,1)]
  by (metis less_asym less_irrefl)

lemma endpoint_cmp_le:
  assumes "a \<in> known_sources" and "b \<in> known_sources"
  shows "endpoint_cmp a b \<le> 0 \<longleftrightarrow> \<not> endpoint_less b a"
  using endpoint_less_asym [OF assms] by (simp add: endpoint_cmp_def)

lemma endpoint_not_less:
  assumes "a \<in> known_sources" and "b \<in> known_sources"
  shows "\<not> endpoint_less b a \<longleftrightarrow> source_rank a < source_rank b
    \<or> source_rank a = source_rank b \<and> (ep_url a < ep_url b \<or> ep_url a = ep_url b \<and> ep_name a \<le> ep_name b)"
  unfolding endpoint_less_rank [OF assms(2,1)]
  by (cases "source_rank a = source_rank b"; cases "ep_url a = ep_url b") (simp_all add: not_less le_less)

lemma endpoint_not_less_trans:
  assumes "a \<in> known_sources" and "b \<in> known_sources" and "c \<in> known_sources"
    and "\<not> endpoint_less b a" and "\<not> endpoint_less c b"
  shows "\<not> endpoint_less c a"
proof -
  from assms(4) have ab: "source_rank a < source_rank b
      \<or> source_rank a = source_rank b \<and> (ep_url a < ep_url b \<or> ep_url a = ep_url b \<and> ep_name a \<le> ep_name b)"
    unfolding endpoint_not_less [OF assms(1,2)] .
  from assms(5) have bc: "source_rank b < source_rank c
      \<or> source_rank b = source_rank c \<and> (ep_url b < ep_url c \<or> ep_url b = ep_url c \<and> ep_name b \<le> ep_name c)"
    unfolding endpoint_not_less [OF assms(2,3)] .
  show ?thesis
    unfolding endpoint_not_less [OF assms(1,3)]
    using ab bc by (elim disjE conjE) (simp_all, (metis less_trans order_trans)+)
qed

interpretation endpoints: comparator_on endpoint_cmp known_sources
proof
  show "endpoint_cmp x x = 0" for x by (simp add: endpoint_cmp_def endpoint_less_def)
  show "endpoint_cmp x y \<le> 0 \<longleftrightarrow> 0 \<le> endpoint_cmp y x" if "x \<in> known_sources" "y \<in> known_sources" for x y
    unfolding endpoint_cmp_le [OF that] using endpoint_less_asym [OF that] by (simp add: endpoint_cmp_def)
  show "endpoint_cmp x z \<le> 0" if xs: "x \<in> known_sources" "y \<in> known_sources" "z \<in> known_sources"
    and le: "endpoint_cmp x y \<le> 0" "endpoint_cmp y z \<le> 0" for x y z
    using le endpoint_not_less_trans [OF xs]
    unfolding endpoint_cmp_le [OF xs(1,2)] endpoint_cmp_le [OF xs(2,3)] endpoint_cmp_le [OF xs(1,3)] by blast
qed

section \<open>What is kept\<close>

lemma keep_unseen_new:
  "e \<in> set (keep_unseen us ns es) \<Longrightarrow> e \<in> set es \<and> ep_url e \<notin> us \<and> ep_name e \<notin> ns"
  by (induction us ns es rule: keep_unseen.induct) (auto split: if_splits)

lemma keep_unseen_distinct:
  "distinct (map ep_url (keep_unseen us ns es)) \<and> distinct (map ep_name (keep_unseen us ns es))"
  by (induction us ns es rule: keep_unseen.induct) (auto dest: keep_unseen_new)

text \<open>An endpoint that is dropped shares its URL or its name with one that was seen before it.\<close>

lemma keep_unseen_dropped:
  "es = as @ e # bs \<Longrightarrow> e \<notin> set (keep_unseen us ns es) \<Longrightarrow>
     ep_url e \<in> us \<or> ep_name e \<in> ns
     \<or> (\<exists>k \<in> set (keep_unseen us ns es) \<inter> set as. ep_url k = ep_url e \<or> ep_name k = ep_name e)"
proof (induction us ns es arbitrary: as rule: keep_unseen.induct)
  case (2 us ns x es)
  show ?case
  proof (cases as)
    case Nil
    then show ?thesis using 2 by (auto split: if_splits)
  next
    case (Cons a as')
    then have es: "es = as' @ e # bs" "a = x" using 2 by auto
    show ?thesis
    proof (cases "ep_url x \<notin> us \<and> ep_name x \<notin> ns")
      case True
      then have "e \<notin> set (keep_unseen (insert (ep_url x) us) (insert (ep_name x) ns) es)"
        using "2.prems"(2) by simp
      from "2.IH"(1) [OF True es(1) this] show ?thesis using True es Cons by auto
    next
      case False
      then have "e \<notin> set (keep_unseen us ns es)" using "2.prems"(2) by auto
      from "2.IH"(2) [OF False es(1) this] show ?thesis using False es Cons by auto
    qed
  qed
qed simp

lemma keep_unseen_sorted: "sorted_cmp c es \<Longrightarrow> sorted_cmp c (keep_unseen us ns es)"
  by (induction us ns es rule: keep_unseen.induct) (auto simp: sorted_cmp_def dest: keep_unseen_new)

lemma keep_unseen_all:
  assumes "distinct (map ep_url es)" and "distinct (map ep_name es)"
    and "ep_url ` set es \<inter> us = {}" and "ep_name ` set es \<inter> ns = {}"
  shows "keep_unseen us ns es = es"
  using assms by (induction us ns es rule: keep_unseen.induct) auto

lemma sort_by_sorted: "sorted_cmp c es \<Longrightarrow> sort_by c es = es"
proof (induction es)
  case Nil
  then show ?case by (simp add: sort_by_def)
next
  case (Cons e es)
  then have "sort_by c es = es" by (simp add: sorted_cmp_def)
  then show ?case using Cons.prems by (cases es) (simp_all add: sort_by_Cons sorted_cmp_def)
qed

lemma Deduplicate_sorted:
  "set es \<subseteq> known_sources \<Longrightarrow> sorted_cmp endpoint_cmp (Deduplicate es)"
  unfolding Deduplicate_def by (rule keep_unseen_sorted) (rule endpoints.sorted_sort_by)

lemma Deduplicate_subset: "set (Deduplicate es) \<subseteq> set es"
  by (auto simp: Deduplicate_def dest: keep_unseen_new)

lemma Deduplicate_idem:
  assumes "set es \<subseteq> known_sources"
  shows "Deduplicate (Deduplicate es) = Deduplicate es"
proof -
  have "sort_by endpoint_cmp (Deduplicate es) = Deduplicate es"
    by (rule sort_by_sorted) (rule Deduplicate_sorted [OF assms])
  then have "Deduplicate (Deduplicate es) = keep_unseen {} {} (Deduplicate es)"
    by (simp add: Deduplicate_def)
  also have "\<dots> = Deduplicate es"
    using keep_unseen_distinct [of "{}" "{}"] by (intro keep_unseen_all) (simp_all add: Deduplicate_def)
  finally show ?thesis .
qed

text \<open>Every endpoint is represented: by itself or by a kept one with its URL or name, not after it.\<close>

lemma Deduplicate_covers:
  assumes "set es \<subseteq> known_sources" and "e \<in> set es"
  shows "\<exists>k \<in> set (Deduplicate es). (ep_url k = ep_url e \<or> ep_name k = ep_name e) \<and> \<not> endpoint_less e k"
proof (cases "e \<in> set (Deduplicate es)")
  case True
  then show ?thesis by (intro bexI [of _ e]) (simp_all add: endpoint_less_def)
next
  case False
  let ?s = "sort_by endpoint_cmp es"
  obtain as bs where split: "?s = as @ e # bs" using assms(2) by (metis set_sort_by in_set_conv_decomp)
  from keep_unseen_dropped [OF split, of "{}" "{}"] False
  obtain k where k: "k \<in> set (Deduplicate es)" "k \<in> set as" "ep_url k = ep_url e \<or> ep_name k = ep_name e"
    by (auto simp: Deduplicate_def)
  have "sorted_cmp endpoint_cmp ?s" by (rule endpoints.sorted_sort_by [OF assms(1)])
  then have "endpoint_cmp k e \<le> 0" using k(2) by (simp add: split sorted_cmp_def sorted_wrt_append)
  moreover have "k \<in> known_sources" "e \<in> known_sources"
    using k(1) Deduplicate_subset [of es] assms by auto
  ultimately show ?thesis using k endpoint_cmp_le by blast
qed

end
