(* ===== verification/Service.thy ===== *)
theory Service
  imports Days Endpoints Panels
begin

text \<open>
  The service behind the page (\<open>internal/dashboard/service.go\<close>): resolving the accounts of the
  endpoints, and the answers for the dashboard, the events and a synchronization. What the
  instances and the store return is an argument of the functions; the order in which they
  answer does not matter, because every goroutine writes its own element of a slice that is
  read after all have finished. Names are compared ignoring the case of ASCII letters.
\<close>

section \<open>Accounts\<close>

record 'q go_usage =
  gu_login :: string
  gu_plan :: "string option"
  gu_reset :: "string option"
  gu_quotas :: "'q option"

record 'q resolved =
  r_endpoint :: endpoint
  r_usage :: "'q go_usage"

definition endpoint_failure :: "endpoint \<Rightarrow> string \<Rightarrow> string \<Rightarrow> failure" where
  "endpoint_failure e op err = \<lparr>target = ep_name e, operation = op, message = err\<rparr>"

definition login_key :: "'q resolved \<Rightarrow> string" where
  "login_key a = to_lower (gu_login (r_usage a))"

text \<open>The loop over the results: the accounts kept, by lower-case login, and the failures.\<close>

fun collect_accounts ::
  "(endpoint \<Rightarrow> string + 'q go_usage) \<Rightarrow> string set \<Rightarrow> endpoint list \<Rightarrow> 'q resolved list \<times> failure list" where
  "collect_accounts usage seen [] = ([], [])"
| "collect_accounts usage seen (e # es) = (case usage e of
     Inl err \<Rightarrow> (let (accs, fs) = collect_accounts usage seen es in (accs, endpoint_failure e ''usage'' err # fs))
   | Inr u \<Rightarrow> if to_lower (gu_login u) \<in> seen then collect_accounts usage seen es
       else (let (accs, fs) = collect_accounts usage (insert (to_lower (gu_login u)) seen) es
             in (\<lparr>r_endpoint = e, r_usage = u\<rparr> # accs, fs)))"

definition resolve ::
  "(endpoint \<Rightarrow> string + 'q go_usage) \<Rightarrow> endpoint list \<Rightarrow> failure list \<Rightarrow> 'q resolved list \<times> failure list" where
  "resolve usage endpoints failures =
     (let (accs, fs) = collect_accounts usage {} (Deduplicate endpoints)
      in (sort_key login_key accs, failures @ fs))"

section \<open>The dashboard from the store\<close>

record 'q go_account =
  ga_usage :: "'q go_usage"
  ga_display :: string
  ga_totals :: "go_totals option"

record 'q go_data =
  da_period :: string
  da_selected :: "string option"
  da_accounts :: "'q go_account list"
  da_totals :: "go_totals option"
  da_models :: "go_model list option"
  da_days :: "go_day list option"

datatype stored = StoreError string | NoSnapshot | Snapshot "upstream_day list"

definition account_missing :: "string \<Rightarrow> failure" where
  "account_missing who = \<lparr>target = who, operation = ''account'',
     message = ''account unavailable in current discovery''\<rparr>"

definition selects :: "string \<Rightarrow> 'q resolved \<Rightarrow> bool" where
  "selects who a \<longleftrightarrow> who = [] \<or> to_lower who = to_lower (gu_login (r_usage a))"

definition list_account :: "(string \<Rightarrow> string) \<Rightarrow> 'q resolved \<Rightarrow> go_totals option \<Rightarrow> 'q go_account" where
  "list_account aliases a t = \<lparr>ga_usage = r_usage a, ga_display = aliases (login_key a), ga_totals = t\<rparr>"

definition start_data :: "string \<Rightarrow> string \<Rightarrow> 'q go_data" where
  "start_data period who = \<lparr>da_period = period, da_selected = (if who \<noteq> [] then Some who else None),
     da_accounts = [], da_totals = None, da_models = None, da_days = None\<rparr>"

text \<open>What a loaded account contributes to the data; the slices are allocated with the totals.\<close>

definition add_stored :: "upstream_day list \<Rightarrow> go_totals \<Rightarrow> go_model list \<Rightarrow> 'q go_data \<Rightarrow> 'q go_data" where
  "add_stored ds t ms d = d\<lparr>
     da_totals := Some (addTotals (case da_totals d of None \<Rightarrow> empty_totals | Some x \<Rightarrow> x) t),
     da_models := Some (mergeModels (slice (da_models d)) ms),
     da_days := Some (fold (\<lambda>s out. mergeDay out s) ds (slice (da_days d)))\<rparr>"

definition persisted_step ::
  "(string \<Rightarrow> string) \<Rightarrow> ('q resolved \<Rightarrow> stored) \<Rightarrow> string \<Rightarrow> 'q resolved
     \<Rightarrow> 'q go_data \<times> failure list \<times> bool \<Rightarrow> 'q go_data \<times> failure list \<times> bool" where
  "persisted_step aliases load who a st = (case st of (d, errs, found) \<Rightarrow>
     let listed = (\<lambda>t d. d\<lparr>da_accounts := da_accounts d @ [list_account aliases a t]\<rparr>) in
     if \<not> selects who a then (listed None d, errs, found)
     else
       let d1 = (if who \<noteq> [] then d\<lparr>da_selected := Some (gu_login (r_usage a))\<rparr> else d)
       in case load a of
         StoreError e \<Rightarrow> (listed None d1, errs @ [endpoint_failure (r_endpoint a) ''persistence'' e], True)
       | NoSnapshot \<Rightarrow> (listed None d1,
           errs @ [endpoint_failure (r_endpoint a) ''persistence'' ''usage has not been synchronized''], True)
       | Snapshot ds \<Rightarrow>
           let (t, ms) = summarizeDays ds in (add_stored ds t ms (listed (Some t) d1), errs, True))"

definition finish_answer :: "string \<Rightarrow> string \<Rightarrow> clock \<Rightarrow> 'q go_data \<times> failure list \<times> bool
     \<Rightarrow> 'q go_data \<times> failure list \<times> bool" where
  "finish_answer period who now st = (case st of (d, errs, found) \<Rightarrow>
     (d\<lparr>da_days := fillDays (da_days d) period now\<rparr>,
      errs @ (if found then [] else [account_missing who]), found))"

definition persistedDashboard ::
  "(string \<Rightarrow> string) \<Rightarrow> ('q resolved \<Rightarrow> stored) \<Rightarrow> clock \<Rightarrow> 'q resolved list \<Rightarrow> failure list
     \<Rightarrow> string \<Rightarrow> string \<Rightarrow> 'q go_data \<times> failure list \<times> bool" where
  "persistedDashboard aliases load now accs failures period who = finish_answer period who now
     (fold (persisted_step aliases load who) accs (start_data period who, failures, who = []))"

section \<open>The dashboard from the instances\<close>

record summary =
  su_totals :: go_totals
  su_models :: "go_model list"

text \<open>Listing an account, before the instances have answered.\<close>

definition live_list ::
  "(string \<Rightarrow> string) \<Rightarrow> string \<Rightarrow> 'q resolved list \<Rightarrow> 'q go_data \<Rightarrow> 'q go_data" where
  "live_list aliases who accs d = d\<lparr>
     da_accounts := map (\<lambda>a. list_account aliases a None) accs,
     da_selected := (if who \<noteq> [] then
        (case rev (filter (selects who) accs) of [] \<Rightarrow> Some who | a # _ \<Rightarrow> Some (gu_login (r_usage a)))
      else None)\<rparr>"

definition add_summary :: "nat \<Rightarrow> summary \<Rightarrow> 'q go_data \<Rightarrow> 'q go_data" where
  "add_summary i s d = d\<lparr>
     da_accounts := (da_accounts d)[i := (da_accounts d ! i)\<lparr>ga_totals := Some (su_totals s)\<rparr>],
     da_totals := Some (addTotals (case da_totals d of None \<Rightarrow> empty_totals | Some x \<Rightarrow> x) (su_totals s)),
     da_models := Some (mergeModels (slice (da_models d)) (su_models s))\<rparr>"

definition add_daily :: "upstream_day list \<Rightarrow> 'q go_data \<Rightarrow> 'q go_data" where
  "add_daily ds d = d\<lparr>da_days := Some (fold (\<lambda>s out. mergeDay out s) ds (slice (da_days d)))\<rparr>"

definition live_step ::
  "('q resolved \<Rightarrow> string + summary) \<Rightarrow> ('q resolved \<Rightarrow> string + upstream_day list) \<Rightarrow> string
     \<Rightarrow> nat \<times> 'q resolved \<Rightarrow> 'q go_data \<times> failure list \<Rightarrow> 'q go_data \<times> failure list" where
  "live_step summaries dailies who ia st = (case (ia, st) of ((i, a), (d, errs)) \<Rightarrow>
     if \<not> selects who a then (d, errs)
     else
       ((case dailies a of Inl _ \<Rightarrow> \<lambda>d. d | Inr ds \<Rightarrow> add_daily ds)
          ((case summaries a of Inl _ \<Rightarrow> \<lambda>d. d | Inr s \<Rightarrow> add_summary i s) d),
        errs @ (case summaries a of Inl e \<Rightarrow> [endpoint_failure (r_endpoint a) ''token-usage'' e] | Inr _ \<Rightarrow> [])
          @ (case dailies a of Inl e \<Rightarrow> [endpoint_failure (r_endpoint a) ''token-usage/daily'' e] | Inr _ \<Rightarrow> [])))"

definition liveDashboard ::
  "(string \<Rightarrow> string) \<Rightarrow> ('q resolved \<Rightarrow> string + summary) \<Rightarrow> ('q resolved \<Rightarrow> string + upstream_day list)
     \<Rightarrow> clock \<Rightarrow> 'q resolved list \<Rightarrow> failure list \<Rightarrow> string \<Rightarrow> string \<Rightarrow> 'q go_data \<times> failure list \<times> bool" where
  "liveDashboard aliases summaries dailies now accs failures period who =
     (let (d, errs) = fold (live_step summaries dailies who) (enumerate 0 accs)
            (live_list aliases who accs (start_data period who), failures)
      in finish_answer period who now (d, errs, who = [] \<or> list_ex (selects who) accs))"

section \<open>Events and synchronization\<close>

definition serviceEvents ::
  "('q resolved \<Rightarrow> string + 'e) \<Rightarrow> 'q resolved list \<Rightarrow> failure list \<Rightarrow> string
     \<Rightarrow> 'e option \<times> failure list \<times> nat" where
  "serviceEvents fetch accs failures who =
     (case find (\<lambda>a. to_lower who = to_lower (gu_login (r_usage a))) accs of
        None \<Rightarrow> (None, failures @ [account_missing who], 404)
      | Some a \<Rightarrow> (case fetch a of
           Inl e \<Rightarrow> (None, failures @ [endpoint_failure (r_endpoint a) ''token-usage/events'' e], 502)
         | Inr d \<Rightarrow> (Some d, failures, 200)))"

text \<open>With a store; \<open>sync_account\<close> is the failure of one account, if any.\<close>

definition serviceSync ::
  "('q resolved \<Rightarrow> failure option) \<Rightarrow> string + 'q resolved list \<times> failure list \<Rightarrow> string
     \<Rightarrow> failure list \<times> bool" where
  "serviceSync sync_account resolution who = (case resolution of
       Inl e \<Rightarrow> ([\<lparr>target = ''sync'', operation = ''discovery'', message = e\<rparr>], who = [])
     | Inr (accs, failures) \<Rightarrow>
         (let chosen = filter (selects who) accs; found = (who = [] \<or> chosen \<noteq> [])
          in (failures @ List.map_filter sync_account chosen @ (if found then [] else [account_missing who]), found)))"

section \<open>Resolved accounts\<close>

lemma login_key_simps [simp]: "login_key \<lparr>r_endpoint = e, r_usage = u\<rparr> = to_lower (gu_login u)"
  by (simp add: login_key_def)

lemma collect_accounts_keys:
  "distinct (map login_key (fst (collect_accounts usage seen es)))
   \<and> (\<forall>a \<in> set (fst (collect_accounts usage seen es)). login_key a \<notin> seen)"
proof (induction usage seen es rule: collect_accounts.induct)
  case (2 usage seen e es)
  show ?case
  proof (cases "usage e")
    case (Inl err)
    then show ?thesis using "2.IH"(1) [OF Inl] by (auto split: prod.split)
  next
    case (Inr u)
    show ?thesis
    proof (cases "to_lower (gu_login u) \<in> seen")
      case True
      then show ?thesis using "2.IH"(2) [OF Inr True] Inr by simp
    next
      case False
      then show ?thesis using "2.IH"(3) [OF Inr False] Inr by (auto split: prod.split)
    qed
  qed
qed simp

lemma collect_accounts_from:
  "a \<in> set (fst (collect_accounts usage seen es)) \<Longrightarrow> r_endpoint a \<in> set es \<and> usage (r_endpoint a) = Inr (r_usage a)"
  by (induction usage seen es rule: collect_accounts.induct)
    (auto simp: Let_def split: sum.splits prod.splits if_splits)

lemma collect_accounts_covers:
  "e \<in> set es \<Longrightarrow> usage e = Inr u \<Longrightarrow>
     to_lower (gu_login u) \<in> seen \<union> login_key ` set (fst (collect_accounts usage seen es))"
proof (induction usage seen es rule: collect_accounts.induct)
  case (2 usage seen x es)
  then show ?case
    by (cases "usage x") (auto simp: login_key_def Let_def split: prod.splits if_splits)
qed simp

lemma collect_accounts_failures:
  "snd (collect_accounts usage seen es) =
     List.map_filter (\<lambda>e. case usage e of Inl err \<Rightarrow> Some (endpoint_failure e ''usage'' err) | Inr _ \<Rightarrow> None) es"
  by (induction usage seen es rule: collect_accounts.induct)
    (auto simp: map_filter_simps Let_def split: sum.splits prod.splits)

lemma resolve_accounts:
  assumes "resolve usage es fs = (accs, errs)"
  shows "sorted (map login_key accs)" and "distinct (map login_key accs)"
    and "a \<in> set accs \<Longrightarrow> r_endpoint a \<in> set es \<and> usage (r_endpoint a) = Inr (r_usage a)"
    and "e \<in> set (Deduplicate es) \<Longrightarrow> usage e = Inr u \<Longrightarrow> to_lower (gu_login u) \<in> login_key ` set accs"
    and "errs = fs @ List.map_filter (\<lambda>e. case usage e of Inl err \<Rightarrow> Some (endpoint_failure e ''usage'' err)
      | Inr _ \<Rightarrow> None) (Deduplicate es)"
proof -
  let ?c = "collect_accounts usage {} (Deduplicate es)"
  have r: "accs = sort_key login_key (fst ?c)" "errs = fs @ snd ?c"
    using assms by (auto simp: resolve_def Let_def split: prod.splits)
  show "sorted (map login_key accs)" by (simp add: r)
  show "distinct (map login_key accs)"
    using collect_accounts_keys [of usage "{}" "Deduplicate es"] by (simp add: r sort_key_sorted_distinct)
  show "r_endpoint a \<in> set es \<and> usage (r_endpoint a) = Inr (r_usage a)" if "a \<in> set accs"
    using that collect_accounts_from [of a usage "{}" "Deduplicate es"] Deduplicate_subset [of es]
    by (auto simp: r)
  show "to_lower (gu_login u) \<in> login_key ` set accs" if "e \<in> set (Deduplicate es)" "usage e = Inr u"
    using collect_accounts_covers [of e "Deduplicate es" usage u "{}"] that by (simp add: r)
  show "errs = fs @ List.map_filter (\<lambda>e. case usage e of Inl err \<Rightarrow> Some (endpoint_failure e ''usage'' err)
      | Inr _ \<Rightarrow> None) (Deduplicate es)"
    by (simp add: r collect_accounts_failures)
qed

end
