(* ===== verification/Service_Facts.thy ===== *)
theory Service_Facts
  imports Service
begin

text \<open>
  The answers of the service add up: the totals of an answer are those of its accounts, of its
  days and, when the models of every day account for its totals, of its models; the slices of
  an answer are in normal form. The counters are those of the locale \<open>counter\<close>.
\<close>

section \<open>Sums over an answer\<close>

context counter
begin

definition totals_sum :: "'q go_data \<Rightarrow> 'm" where
  "totals_sum d = (case da_totals d of None \<Rightarrow> 0 | Some t \<Rightarrow> g t)"

definition accounts_sum :: "'q go_data \<Rightarrow> 'm" where
  "accounts_sum d = sum_list (map (\<lambda>a. case ga_totals a of None \<Rightarrow> 0 | Some t \<Rightarrow> g t) (da_accounts d))"

definition days_sum :: "'q go_data \<Rightarrow> 'm" where
  "days_sum d = sum_list (map (\<lambda>x. g (gd_totals x)) (slice (da_days d)))"

definition models_sum :: "'q go_data \<Rightarrow> 'm" where
  "models_sum d = sum_list (map (\<lambda>m. g (gm_totals m)) (slice (da_models d)))"

definition models_account_for :: "upstream_day list \<Rightarrow> bool" where
  "models_account_for ds \<longleftrightarrow> (\<forall>d \<in> set ds. sum_list (map (\<lambda>m. g (gm_totals m)) (ud_models d)) = g (ud_totals d))"

definition accounted :: "stored \<Rightarrow> bool" where
  "accounted s \<longleftrightarrow> (\<forall>ds. s = Snapshot ds \<longrightarrow> models_account_for ds)"

definition adds_up :: "bool \<Rightarrow> 'q go_data \<Rightarrow> bool" where
  "adds_up models d \<longleftrightarrow> totals_sum d = accounts_sum d \<and> totals_sum d = days_sum d
     \<and> (models \<longrightarrow> totals_sum d = models_sum d)"

lemmas sums = totals_sum_def accounts_sum_def days_sum_def models_sum_def

lemma adds_up_listed:
  "adds_up b (d\<lparr>da_accounts := da_accounts d @ [list_account aliases a None]\<rparr>) = adds_up b d"
  "adds_up b (d\<lparr>da_selected := w\<rparr>) = adds_up b d"
  by (simp_all add: adds_up_def sums list_account_def)

lemma adds_up_start: "adds_up b (start_data period who)"
  by (simp add: adds_up_def sums start_data_def slice_def)

lemma adds_up_stored:
  assumes "g empty_totals = 0" and up: "adds_up b d" and "b \<Longrightarrow> models_account_for ds"
    and s: "summarizeDays ds = (t, ms)"
  shows "adds_up b (add_stored ds t ms (d\<lparr>da_accounts := da_accounts d @ [list_account aliases a (Some t)]\<rparr>))"
proof -
  have t: "g t = sum_list (map (\<lambda>d. g (ud_totals d)) ds)"
    and m: "sum_list (map (\<lambda>m. g (gm_totals m)) ms) = sum_list (map (\<lambda>d. sum_list (map (\<lambda>m. g (gm_totals m)) (ud_models d))) ds)"
    using summarized [OF assms(1), of ds] s by simp_all
  have "b \<Longrightarrow> sum_list (map (\<lambda>m. g (gm_totals m)) ms) = g t"
    unfolding m t using assms(3) by (intro arg_cong [of _ _ sum_list] map_cong) (auto simp: models_account_for_def)
  moreover have "totals_sum (add_stored ds t ms x) = totals_sum x + g t"
    "days_sum (add_stored ds t ms x) = days_sum x + g t"
    "models_sum (add_stored ds t ms x) = models_sum x + sum_list (map (\<lambda>m. g (gm_totals m)) ms)"
    "accounts_sum (add_stored ds t ms x) = accounts_sum x" for x :: "'a go_data"
    using assms(1) t
    by (auto simp: sums add_stored_def adds merged_days merged_models add.commute split: option.split)
  moreover have "accounts_sum (d\<lparr>da_accounts := da_accounts d @ [list_account aliases a (Some t)]\<rparr>) = accounts_sum d + g t"
    "totals_sum (d\<lparr>da_accounts := as\<rparr>) = totals_sum d" "days_sum (d\<lparr>da_accounts := as\<rparr>) = days_sum d"
    "models_sum (d\<lparr>da_accounts := as\<rparr>) = models_sum d" for as
    by (simp_all add: sums list_account_def)
  ultimately show ?thesis using up by (auto simp: adds_up_def)
qed

lemma adds_up_step:
  assumes "g empty_totals = 0" and "adds_up b (fst st)"
    and "b \<longrightarrow> accounted (load a)"
  shows "adds_up b (fst (persisted_step aliases load who a st))"
proof (cases "selects who a \<and> (\<exists>ds. load a = Snapshot ds)")
  case True
  then obtain ds where ds: "load a = Snapshot ds" by blast
  obtain t ms where s: "summarizeDays ds = (t, ms)" by fastforce
  obtain d errs found where st: "st = (d, errs, found)" by (cases st)
  have "adds_up b (if who \<noteq> [] then d\<lparr>da_selected := Some (gu_login (r_usage a))\<rparr> else d)"
    using assms(2) by (simp add: st adds_up_listed)
  moreover have "b \<Longrightarrow> models_account_for ds" using assms(3) ds by (simp add: accounted_def)
  ultimately have "adds_up b (add_stored ds t ms ((if who \<noteq> [] then d\<lparr>da_selected := Some (gu_login (r_usage a))\<rparr> else d)
      \<lparr>da_accounts := da_accounts (if who \<noteq> [] then d\<lparr>da_selected := Some (gu_login (r_usage a))\<rparr> else d)
        @ [list_account aliases a (Some t)]\<rparr>))"
    by (rule adds_up_stored [OF assms(1) _ _ s])
  then show ?thesis using True by (simp add: persisted_step_def st ds s Let_def)
next
  case False
  then show ?thesis
    using assms(2) by (cases st; cases "load a") (auto simp: persisted_step_def adds_up_listed Let_def)
qed

lemma adds_up_fold:
  assumes "g empty_totals = 0" and "b \<longrightarrow> (\<forall>a \<in> set accs. accounted (load a))"
  shows "adds_up b (fst st) \<Longrightarrow> adds_up b (fst (fold (persisted_step aliases load who) accs st))"
  using assms(2)
proof (induction accs arbitrary: st)
  case (Cons a accs)
  have "adds_up b (fst (persisted_step aliases load who a st))"
    by (rule adds_up_step [OF assms(1) Cons.prems(1)]) (use Cons.prems(2) in auto)
  from Cons.IH [OF this] show ?case using Cons.prems(2) by simp
qed simp

lemma adds_up_finish:
  assumes "g empty_totals = 0" and "adds_up b d" and "finish_answer period who now (d, errs, found) = (d', errs', found')"
  shows "adds_up b d'"
proof -
  have d': "d' = d\<lparr>da_days := fillDays (da_days d) period now\<rparr>" using assms(3) by (simp add: finish_answer_def)
  have "sum_list (map (\<lambda>x. g (gd_totals x)) (slice (fillDays (da_days d) period now)))
      = sum_list (map (\<lambda>x. g (gd_totals x)) (slice (da_days d)))"
  proof (cases "da_days d")
    case None
    then show ?thesis by (simp add: fillDays_def)
  next
    case (Some ds)
    obtain r where r: "fillDays (Some ds) period now = Some r"
      using fillDays_some by blast
    show ?thesis using filled [OF assms(1) r] by (simp add: Some r)
  qed
  then show ?thesis using assms(2) by (auto simp: d' adds_up_def sums)
qed

lemma persisted_adds_up:
  assumes "g empty_totals = 0"
    and "b \<longrightarrow> (\<forall>a \<in> set accs. accounted (load a))"
    and "persistedDashboard aliases load now accs failures period who = (d, errs, found)"
  shows "adds_up b d"
proof -
  obtain d0 e0 f0 where f: "fold (persisted_step aliases load who) accs (start_data period who, failures, who = [])
      = (d0, e0, f0)" by (cases "fold (persisted_step aliases load who) accs (start_data period who, failures, who = [])")
  have "adds_up b (fst (start_data period who, failures, who = []))" by (simp add: adds_up_start)
  from adds_up_fold [OF assms(1,2) this, of aliases who] have "adds_up b d0" by (simp add: f)
  moreover have "finish_answer period who now (d0, e0, f0) = (d, errs, found)"
    using assms(3) by (simp add: persistedDashboard_def f)
  ultimately show ?thesis by (rule adds_up_finish [OF assms(1)])
qed

end

section \<open>Normal forms of an answer\<close>

definition data_normal :: "'q go_data \<Rightarrow> bool" where
  "data_normal d \<longleftrightarrow> (case da_totals d of None \<Rightarrow> True | Some t \<Rightarrow> normal t)
     \<and> models_normal (slice (da_models d)) \<and> days_normal (slice (da_days d))"

lemma data_normal_start: "data_normal (start_data period who)"
  by (simp add: data_normal_def start_data_def slice_def days_normal_def)

lemma data_normal_step:
  assumes "data_normal (fst st)"
  shows "data_normal (fst (persisted_step aliases load who a st))"
proof -
  obtain d errs found where st: "st = (d, errs, found)" by (cases st)
  have frame: "data_normal (x\<lparr>da_accounts := as\<rparr>) = data_normal x"
    "data_normal (x\<lparr>da_selected := w\<rparr>) = data_normal x" for x as w
    by (simp_all add: data_normal_def)
  have stored: "data_normal (add_stored ds t ms x)" if "data_normal x" for ds t ms x
    using that by (cases "da_totals x")
      (simp_all add: data_normal_def add_stored_def normal_adds normal_empty mergeModels_normal merged_days_normal)
  show ?thesis
    using assms by (cases "load a")
      (simp_all add: st persisted_step_def frame stored Let_def split: prod.split)
qed

lemma data_normal_finish:
  assumes "usual_clock now" and "data_normal d"
  shows "data_normal (d\<lparr>da_days := fillDays (da_days d) period now\<rparr>)"
proof (cases "da_days d")
  case None
  then show ?thesis using assms by (simp add: data_normal_def fillDays_def)
next
  case (Some ds)
  obtain r where r: "fillDays (Some ds) period now = Some r"
    using fillDays_some by blast
  show ?thesis
    using assms fillDays_normal [OF assms(1) _ r] by (simp add: data_normal_def Some r)
qed

lemma persisted_normal:
  assumes "usual_clock now"
    and "persistedDashboard aliases load now accs failures period who = (d, errs, found)"
  shows "data_normal d"
proof -
  have "data_normal (fst st) \<Longrightarrow> data_normal (fst (fold (persisted_step aliases load who) accs st))" for st
    by (induction accs arbitrary: st) (simp_all add: data_normal_step)
  from this [of "(start_data period who, failures, who = [])"]
  have "data_normal (fst (fold (persisted_step aliases load who) accs (start_data period who, failures, who = [])))"
    by (simp add: data_normal_start)
  then show ?thesis
    using assms(2) data_normal_finish [OF assms(1)]
    by (cases "fold (persisted_step aliases load who) accs (start_data period who, failures, who = [])")
      (auto simp: persistedDashboard_def finish_answer_def)
qed

section \<open>Which accounts an answer lists\<close>

lemma persisted_lists:
  assumes "persistedDashboard aliases load now accs failures period who = (d, errs, found)"
  shows "map ga_usage (da_accounts d) = map r_usage accs"
    and "found \<longleftrightarrow> who = [] \<or> (\<exists>a \<in> set accs. selects who a)"
proof -
  have step: "map ga_usage (da_accounts (fst (persisted_step aliases load who a st)))
      = map ga_usage (da_accounts (fst st)) @ [r_usage a]
    \<and> snd (snd (persisted_step aliases load who a st)) = (snd (snd st) \<or> selects who a)" for a and st :: "'a go_data \<times> failure list \<times> bool"
    by (cases st; cases "load a") (auto simp: persisted_step_def list_account_def add_stored_def Let_def split: prod.split)
  have "map ga_usage (da_accounts (fst (fold (persisted_step aliases load who) accs st)))
      = map ga_usage (da_accounts (fst st)) @ map r_usage accs
    \<and> snd (snd (fold (persisted_step aliases load who) accs st)) = (snd (snd st) \<or> (\<exists>a \<in> set accs. selects who a))" for st
    by (induction accs arbitrary: st) (auto simp: step)
  from this [of "(start_data period who, failures, who = [])"]
  have both: "map ga_usage (da_accounts d) = map r_usage accs \<and> (found \<longleftrightarrow> who = [] \<or> (\<exists>a \<in> set accs. selects who a))"
    using assms
    by (cases "fold (persisted_step aliases load who) accs (start_data period who, failures, who = [])")
      (auto simp: persistedDashboard_def finish_answer_def start_data_def)
  then show "map ga_usage (da_accounts d) = map r_usage accs" by simp
  from both show "found \<longleftrightarrow> who = [] \<or> (\<exists>a \<in> set accs. selects who a)" by simp
qed

end
