(* ===== verification/Dashboard_Paths.thy ===== *)
theory Dashboard_Paths
  imports Service_Facts
begin

text \<open>
  The two ways to answer a dashboard request agree: when the store holds for every selected
  account the days its instance reports, and the instance's summary is that of these days, the
  answer from the store is the answer from the instances. The loops differ: the store's lists
  an account and adds its usage in one pass, the other lists all accounts first and adds the
  usage by index afterwards.
\<close>

definition synchronized ::
  "('q resolved \<Rightarrow> stored) \<Rightarrow> ('q resolved \<Rightarrow> string + summary) \<Rightarrow> ('q resolved \<Rightarrow> string + upstream_day list)
     \<Rightarrow> 'q resolved \<Rightarrow> bool" where
  "synchronized load summaries dailies a \<longleftrightarrow> (\<exists>ds. load a = Snapshot ds \<and> dailies a = Inr ds
     \<and> summaries a = Inr \<lparr>su_totals = fst (summarizeDays ds), su_models = snd (summarizeDays ds)\<rparr>)"

abbreviation listed_all :: "(string \<Rightarrow> string) \<Rightarrow> 'q resolved list \<Rightarrow> 'q go_account list" where
  "listed_all aliases accs \<equiv> map (\<lambda>a. list_account aliases a None) accs"

text \<open>Both states after the same accounts: the live one has the rest listed and the final selection.\<close>

lemma live_step_ahead:
  assumes "selects who a \<Longrightarrow> synchronized load summaries dailies a"
    and "persisted_step aliases load who a (d, errs, f) = (d', errs', f')"
  shows "live_step summaries dailies who (length (da_accounts d), a)
      (d\<lparr>da_accounts := da_accounts d @ list_account aliases a None # rest, da_selected := w\<rparr>, errs)
    = (d'\<lparr>da_accounts := da_accounts d' @ rest, da_selected := w\<rparr>, errs')"
    and "length (da_accounts d') = Suc (length (da_accounts d))"
proof -
  have both: "live_step summaries dailies who (length (da_accounts d), a)
      (d\<lparr>da_accounts := da_accounts d @ list_account aliases a None # rest, da_selected := w\<rparr>, errs)
    = (d'\<lparr>da_accounts := da_accounts d' @ rest, da_selected := w\<rparr>, errs')
    \<and> length (da_accounts d') = Suc (length (da_accounts d))"
  proof (cases "selects who a")
    case False
    then show ?thesis using assms(2) by (auto simp: live_step_def persisted_step_def Let_def)
  next
    case True
    then obtain ds where ds: "load a = Snapshot ds" "dailies a = Inr ds"
      "summaries a = Inr \<lparr>su_totals = fst (summarizeDays ds), su_models = snd (summarizeDays ds)\<rparr>"
      using assms(1) by (auto simp: synchronized_def)
    obtain t ms where s: "summarizeDays ds = (t, ms)" by fastforce
    then show ?thesis
      using assms(2) True ds
      by (auto simp: live_step_def persisted_step_def Let_def add_summary_def add_daily_def add_stored_def
          list_account_def nth_append split: option.split)
  qed
  then show "live_step summaries dailies who (length (da_accounts d), a)
      (d\<lparr>da_accounts := da_accounts d @ list_account aliases a None # rest, da_selected := w\<rparr>, errs)
    = (d'\<lparr>da_accounts := da_accounts d' @ rest, da_selected := w\<rparr>, errs')"
    and "length (da_accounts d') = Suc (length (da_accounts d))" by blast+
qed

lemma live_fold_ahead:
  assumes "\<forall>a \<in> set accs. selects who a \<longrightarrow> synchronized load summaries dailies a"
    and "fold (persisted_step aliases load who) accs (d, errs, f) = (d', errs', f')"
  shows "fold (live_step summaries dailies who) (enumerate (length (da_accounts d)) accs)
      (d\<lparr>da_accounts := da_accounts d @ listed_all aliases accs, da_selected := w\<rparr>, errs)
    = (d'\<lparr>da_selected := w\<rparr>, errs')"
  using assms
proof (induction accs arbitrary: d errs f)
  case (Cons a accs)
  obtain d1 e1 f1 where p: "persisted_step aliases load who a (d, errs, f) = (d1, e1, f1)"
    by (cases "persisted_step aliases load who a (d, errs, f)")
  have sync: "selects who a \<Longrightarrow> synchronized load summaries dailies a" using Cons.prems(1) by simp
  note step = live_step_ahead(1) [OF sync p, where rest = "listed_all aliases accs" and w = w]
    live_step_ahead(2) [OF sync p]
  have "fold (live_step summaries dailies who) (enumerate (length (da_accounts d1)) accs)
      (d1\<lparr>da_accounts := da_accounts d1 @ listed_all aliases accs, da_selected := w\<rparr>, e1)
    = (d'\<lparr>da_selected := w\<rparr>, errs')"
    using Cons.prems by (intro Cons.IH) (simp_all add: p)
  then show ?case using step by simp
qed simp

lemma persisted_selected:
  assumes "fold (persisted_step aliases load who) accs (d, errs, f) = (d', errs', f')"
  shows "da_selected d' = (if who = [] then da_selected d
      else case rev (filter (selects who) accs) of [] \<Rightarrow> da_selected d | a # _ \<Rightarrow> Some (gu_login (r_usage a)))"
  using assms
proof (induction accs arbitrary: d' errs' f' rule: rev_induct)
  case (snoc a accs)
  obtain d1 e1 f1 where f: "fold (persisted_step aliases load who) accs (d, errs, f) = (d1, e1, f1)"
    by (cases "fold (persisted_step aliases load who) accs (d, errs, f)")
  have step: "persisted_step aliases load who a (d1, e1, f1) = (d', errs', f')" using snoc.prems by (simp add: f)
  then have "da_selected d' = (if who \<noteq> [] \<and> selects who a then Some (gu_login (r_usage a)) else da_selected d1)"
    by (cases "load a") (auto simp: persisted_step_def Let_def add_stored_def split: if_splits prod.splits)
  then show ?case using snoc.IH [OF f] by auto
qed simp

lemma persisted_found:
  "fold (persisted_step aliases load who) accs (d, errs, f) = (d', errs', f') \<Longrightarrow>
     f' \<longleftrightarrow> f \<or> list_ex (selects who) accs"
proof (induction accs arbitrary: d errs f)
  case (Cons a accs)
  obtain d1 e1 f1 where p: "persisted_step aliases load who a (d, errs, f) = (d1, e1, f1)"
    by (cases "persisted_step aliases load who a (d, errs, f)")
  then have "f1 \<longleftrightarrow> f \<or> selects who a"
    by (cases "load a") (auto simp: persisted_step_def Let_def split: if_splits prod.splits)
  then show ?case using Cons by (auto simp: p)
qed simp

lemma paths_agree:
  assumes "\<forall>a \<in> set accs. selects who a \<longrightarrow> synchronized load summaries dailies a"
  shows "liveDashboard aliases summaries dailies now accs failures period who
    = persistedDashboard aliases load now accs failures period who"
proof -
  let ?d = "start_data period who"
  obtain d e f where p: "fold (persisted_step aliases load who) accs (?d, failures, who = []) = (d, e, f)"
    by (cases "fold (persisted_step aliases load who) accs (?d, failures, who = [])")
  let ?w = "da_selected (live_list aliases who accs ?d)"
  have "live_list aliases who accs ?d = ?d\<lparr>da_accounts := da_accounts ?d @ listed_all aliases accs, da_selected := ?w\<rparr>"
    by (simp add: live_list_def start_data_def)
  moreover have "length (da_accounts ?d) = 0" by (simp add: start_data_def)
  ultimately have "fold (live_step summaries dailies who) (enumerate 0 accs) (live_list aliases who accs ?d, failures)
      = (d\<lparr>da_selected := ?w\<rparr>, e)"
    using live_fold_ahead [OF assms p, of ?w] by metis
  moreover have "da_selected d = ?w"
    using persisted_selected [OF p] by (auto simp: live_list_def start_data_def split: list.split)
  then have "d\<lparr>da_selected := ?w\<rparr> = d" by simp
  ultimately show ?thesis
    using persisted_found [OF p] by (simp add: liveDashboard_def persistedDashboard_def p)
qed

end
