(* ===== verification/Wire.thy ===== *)
theory Wire
  imports Exchange Dashboard_Paths
begin

text \<open>
  The answers on the wire: what the handler writes (\<open>internal/httpserver/handler.go\<close>, lines 24
  to 29, 152 to 161 and 182 to 192) for what the service returns, with the field names of
  \<open>internal/upstream/types.go\<close> and \<open>internal/dashboard/service.go\<close>, and what the page reads
  of it. JSON carries strings unchanged; a number is read as the nearest binary64 value; a nil
  pointer or slice is null.
\<close>

section \<open>Encoding\<close>

definition json_int :: "int64 \<Rightarrow> jsval" where
  "json_int n = Num (num_of False (of_int (sint n)))"

definition json_text :: "string option \<Rightarrow> jsval" where
  "json_text t = (case t of None \<Rightarrow> Null | Some s \<Rightarrow> Str s)"

definition json_cost :: "go_cost \<Rightarrow> cost" where
  "json_cost c = \<lparr>currency = gc_currency c, total_cost_nanos = json_int (gc_nanos c)\<rparr>"

definition json_totals :: "go_totals \<Rightarrow> totals" where
  "json_totals t = \<lparr>input_tokens = json_int (gt_input t), output_tokens = json_int (gt_output t),
     cache_read_input_tokens = json_int (gt_cache_read t),
     cache_creation_input_tokens = json_int (gt_cache_creation t),
     request_count = json_int (gt_requests t), total_tokens = json_int (gt_tokens t),
     costs = map_option (map json_cost) (gt_costs t)\<rparr>"

definition json_model :: "go_model \<Rightarrow> model_usage" where
  "json_model m = totals.extend (json_totals (gm_totals m)) \<lparr>model_name = gm_name m\<rparr>"

definition json_day :: "go_day \<Rightarrow> day" where
  "json_day d = \<lparr>date = gd_date d, recorded = Bool (gd_recorded d),
     totals_of_day = Some (json_totals (gd_totals d))\<rparr>"

text \<open>The quotas are passed on as the instance gave them.\<close>

definition json_account :: "quotas go_account \<Rightarrow> account" where
  "json_account a = \<lparr>login = gu_login (ga_usage a), display_name = ga_display a,
     copilot_plan = json_text (gu_plan (ga_usage a)), quota_reset_date = json_text (gu_reset (ga_usage a)),
     quota_snapshots = gu_quotas (ga_usage a), account_totals = map_option json_totals (ga_totals a)\<rparr>"

definition json_dashboard :: "quotas go_data \<Rightarrow> dashboard" where
  "json_dashboard d = \<lparr>accounts = Some (map json_account (da_accounts d)),
     dash_totals = map_option json_totals (da_totals d),
     days = map_option (map json_day) (da_days d), by_model = map_option (map json_model) (da_models d)\<rparr>"

section \<open>Responses\<close>

definition response :: "nat \<Rightarrow> 'd option \<Rightarrow> failure list \<Rightarrow> 'd fetched" where
  "response status d es = Parsed status (Some \<lparr>body_errors = Some es, body_data = Some d\<rparr>)"

definition dashboard_response :: "quotas go_data \<times> failure list \<times> bool \<Rightarrow> dashboard fetched" where
  "dashboard_response a = (case a of (d, es, found) \<Rightarrow>
     response (if found then 200 else 404) (Some (json_dashboard d)) es)"

definition events_response :: "events_page option \<times> failure list \<times> nat \<Rightarrow> events_page fetched" where
  "events_response a = (case a of (d, es, status) \<Rightarrow> response status d es)"

definition sync_response :: "failure list \<times> bool \<Rightarrow> unit fetched" where
  "sync_response a = (case a of (es, found) \<Rightarrow> response (if found then 200 else 404) (Some ()) es)"

definition refusal :: "string \<Rightarrow> 'd fetched" where
  "refusal m = response 400 None [\<lparr>target = ''request'', operation = ''validation'', message = m\<rparr>]"

section \<open>What the page reads\<close>

text \<open>The page takes a response as it is when it reports an error or its status is a success.\<close>

lemma request_response:
  "ok_status n \<or> es \<noteq> [] \<Longrightarrow> request who path ab (response n d es) = Some \<lparr>result_data = d, result_errors = es\<rparr>"
  by (auto simp: request_def response_def Let_def)

lemma finish_answer_reports:
  "finish_answer period who now st = (d, es, found) \<Longrightarrow> found \<or> es \<noteq> []"
  by (cases st) (auto simp: finish_answer_def)

lemma dashboard_reports:
  "persistedDashboard aliases load now accs fs period who = (d, es, found) \<Longrightarrow> found \<or> es \<noteq> []"
  "liveDashboard aliases summaries dailies now accs fs period who = (d, es, found) \<Longrightarrow> found \<or> es \<noteq> []"
  by (auto simp: persistedDashboard_def liveDashboard_def dest: finish_answer_reports split: prod.splits)

lemma dashboard_response_read:
  "found \<or> es \<noteq> [] \<Longrightarrow> request who path ab (dashboard_response (d, es, found))
     = Some \<lparr>result_data = Some (json_dashboard d), result_errors = es\<rparr>"
  by (auto simp: dashboard_response_def request_response ok_status_def)

lemma events_response_read:
  "serviceEvents fetch accs fs who = a \<Longrightarrow>
     request name path ab (events_response a) = Some \<lparr>result_data = fst a, result_errors = fst (snd a)\<rparr>"
  by (auto simp: serviceEvents_def events_response_def ok_status_def intro!: request_response
      split: option.splits sum.splits)

lemma sync_response_read:
  "serviceSync sync_account resolution who = a \<Longrightarrow>
     request name path ab (sync_response a) = Some \<lparr>result_data = Some (), result_errors = fst a\<rparr>"
  by (auto simp: serviceSync_def sync_response_def ok_status_def Let_def intro!: request_response
      split: sum.splits prod.splits)

lemma refusal_read:
  "request who path ab (refusal m)
     = Some \<lparr>result_data = None, result_errors = [\<lparr>target = ''request'', operation = ''validation'', message = m\<rparr>]\<rparr>"
  by (simp add: refusal_def request_response)

section \<open>The selected account\<close>

lemma distinct_key_filter:
  "distinct (map k xs) \<Longrightarrow> x \<in> set xs \<Longrightarrow> filter (\<lambda>y. k y = k x) xs = [x]"
proof (induction xs)
  case (Cons y xs)
  show ?case
  proof (cases "x = y")
    case True
    then show ?thesis using Cons.prems(1) by (auto simp: filter_empty_conv image_iff)
  next
    case False
    then have "x \<in> set xs" using Cons.prems(2) by simp
    then have "k y \<noteq> k x" using Cons.prems(1) by (auto simp: image_iff)
    then show ?thesis using Cons \<open>x \<in> set xs\<close> by simp
  qed
qed simp

lemma find_in: "find P xs = (case filter P xs of [] \<Rightarrow> None | x # _ \<Rightarrow> Some x)"
  by (induction xs) auto

text \<open>
  For accounts with different logins, the account the service says is selected is the one the
  page selects from the answer.
\<close>

lemma selection_agrees:
  assumes "persistedDashboard aliases load now accs fs period (cur_account p) = (d, es, found)"
    and "distinct (map login_key accs)" and "cur_account p \<noteq> []" and "found"
  shows "da_selected d = Some (cur_account (updateAccounts (map json_account (da_accounts d)) p))"
proof -
  let ?who = "cur_account p"
  obtain d0 e0 f0 where f: "fold (persisted_step aliases load ?who) accs (start_data period ?who, fs, ?who = []) = (d0, e0, f0)"
    by (cases "fold (persisted_step aliases load ?who) accs (start_data period ?who, fs, ?who = [])")
  have sel: "da_selected d = da_selected d0"
    using assms(1) by (auto simp: persistedDashboard_def f finish_answer_def)
  have lists: "map ga_usage (da_accounts d) = map r_usage accs" and "\<exists>a \<in> set accs. selects ?who a"
    using persisted_lists [OF assms(1)] assms(3,4) by auto
  then obtain a where a: "a \<in> set accs" "selects ?who a" by blast
  then have key: "to_lower ?who = login_key a" using assms(3) by (simp add: selects_def login_key_def)
  have who: "selects ?who = (\<lambda>y. login_key y = login_key a)"
    using assms(3) key by (intro ext) (auto simp: selects_def login_key_def)
  have "filter (selects ?who) accs = [a]" unfolding who by (rule distinct_key_filter [OF assms(2) a(1)])
  then have one: "da_selected d = Some (gu_login (r_usage a))"
    using persisted_selected [OF f] assms(3) by (simp add: sel)
  have logins: "map (login \<circ> json_account) (da_accounts d) = map (\<lambda>a. gu_login (r_usage a)) accs"
    using arg_cong [OF lists, of "map gu_login"] by (simp add: json_account_def comp_def)
  let ?as = "map json_account (da_accounts d)"
  have "map (\<lambda>x. to_lower (login x)) ?as = map login_key accs"
    using arg_cong [OF logins, of "map to_lower"] by (simp add: login_key_def comp_def)
  then have dist: "distinct (map (\<lambda>x. to_lower (login x)) ?as)" using assms(2) by simp
  have "gu_login (r_usage a) \<in> login ` set ?as"
    using a(1) arg_cong [OF logins, of set] by (auto simp: image_image)
  then obtain x where x: "x \<in> set ?as" "login x = gu_login (r_usage a)" by (metis imageE)
  have "filter (\<lambda>y. to_lower (login y) = to_lower (login x)) ?as = [x]"
    by (rule distinct_key_filter [OF dist x(1)])
  then have "find (\<lambda>y. to_lower (login y) = to_lower ?who) ?as = Some x"
    unfolding find_in using key x(2) by (simp add: login_key_def)
  then show ?thesis by (simp add: updateAccounts_def one x(2) Let_def)
qed

lemma logins_distinct:
  assumes "persistedDashboard aliases load now accs fs period who = (d, es, found)"
    and "distinct (map login_key accs)"
  shows "distinct (map login (map json_account (da_accounts d)))"
proof -
  have "map login (map json_account (da_accounts d)) = map gu_login (map r_usage accs)"
    unfolding persisted_lists(1) [OF assms(1), symmetric] by (simp add: json_account_def)
  moreover have "map login_key accs = map to_lower (map gu_login (map r_usage accs))"
    by (simp add: login_key_def)
  ultimately show ?thesis using assms(2) by (metis distinct_map)
qed

section \<open>From the service to the page\<close>

lemma answer_selects:
  assumes "live s t" and "answer_of t s f = Some \<lparr>result_data = Some (json_dashboard d), result_errors = errs\<rparr>"
  shows "cur_account (pg (resume_dashboard h cw t es f s))
    = cur_account (updateAccounts (map json_account (da_accounts d)) (pg s))"
proof -
  let ?p = "(pg s)\<lparr>dashboard_errors := es @ errs, event_errors := [], table_views := Map.empty\<rparr>"
  have "cur_account (pg (resume_dashboard h cw t es f s)) = cur_account (fst (renderDashboard h cw (Some (json_dashboard d)) ?p))"
    using resume_dashboard_view [OF assms, of h cw es] by (simp add: data_view_def)
  also have "\<dots> = cur_account (updateAccounts (map json_account (da_accounts d)) ?p)"
    by (simp add: renderDashboard_def Let_def json_dashboard_def)
  also have "\<dots> = cur_account (updateAccounts (map json_account (da_accounts d)) (pg s))"
    by (simp add: updateAccounts_def Let_def split: option.split)
  finally show ?thesis .
qed

end
