(* ===== verification/Base_Path.thy ===== *)
theory Base_Path
  imports Server
begin

text \<open>
  The base path the service is configured with (\<open>internal/config/config.go\<close>, lines 89 to 106):
  what is accepted, and that the handler's redirect to it stays on the host, and the health check finds its endpoint.
\<close>

section \<open>Operations\<close>

text \<open>\<open>path.Clean\<close> of a path that begins with a slash: its elements, without empty ones and dots.\<close>

fun clean_steps :: "string list \<Rightarrow> string list \<Rightarrow> string list" where
  "clean_steps out [] = rev out"
| "clean_steps out (e # es) =
     (if e = [] \<or> e = ''.'' then clean_steps out es
      else if e = ''..'' then clean_steps (tl out) es
      else clean_steps (e # out) es)"

definition join_path :: "string list \<Rightarrow> string" where
  "join_path es = concat (map (\<lambda>e. CHR ''/'' # e) es)"

definition clean_rooted :: "string \<Rightarrow> string" where
  "clean_rooted s = (let es = clean_steps [] (split_on (CHR ''/'') s) in if es = [] then ''/'' else join_path es)"

definition base_char :: "char \<Rightarrow> bool" where
  "base_char c \<longleftrightarrow> c \<in> set ''abcdefghijklmnopqrstuvwxyzABCDEFGHIJKLMNOPQRSTUVWXYZ0123456789/-._~''"

definition trim_slash :: "string \<Rightarrow> string" where
  "trim_slash s = (if suffix ''/'' s then butlast s else s)"

definition basePath :: "string \<Rightarrow> string option" where
  "basePath value =
     (if value = [] \<or> \<not> is_trimmed value \<or> \<not> prefix ''/'' value \<or> prefix ''//'' value \<or> prefix [CHR ''/'', CHR 0x5C] value
         \<or> list_ex (\<lambda>c. c \<in> set [CHR ''?'', CHR ''#'', CHR 0x5C, CHR ''%'']) value
      then None
      else (let v = if value \<noteq> ''/'' then trim_slash value else value
        in if clean_rooted v \<noteq> v then None else if list_all base_char v then Some v else None))"

section \<open>Canonical paths\<close>

definition plain_element :: "string \<Rightarrow> bool" where
  "plain_element e \<longleftrightarrow> e \<noteq> [] \<and> e \<noteq> ''.'' \<and> e \<noteq> ''..'' \<and> list_all (\<lambda>c. base_char c \<and> c \<noteq> CHR ''/'') e"

definition canonical :: "string \<Rightarrow> bool" where
  "canonical b \<longleftrightarrow> b = ''/'' \<or> (\<exists>es. es \<noteq> [] \<and> list_all plain_element es \<and> b = join_path es)"

lemma split_elements: "x \<in> set (split_on d s) \<Longrightarrow> d \<notin> set x \<and> set x \<subseteq> set s"
proof (induction d s arbitrary: x rule: split_on.induct)
  case (2 d c s)
  then show ?case by (cases "split_on d s") (fastforce split: if_splits)+
qed simp

lemma join_Cons [simp]: "join_path [] = []" "join_path (e # es) = CHR ''/'' # e @ join_path es"
  by (simp_all add: join_path_def)

lemma split_joined:
  "list_all (\<lambda>e. CHR ''/'' \<notin> set e) es \<Longrightarrow> CHR ''/'' \<notin> set e \<Longrightarrow> split_on (CHR ''/'') (e @ join_path es) = e # es"
proof (induction es arbitrary: e)
  case (Cons f es)
  then show ?case by (simp add: split_on_sep)
qed (simp add: split_on_no)

lemma clean_plain: "list_all (\<lambda>e. e \<noteq> [] \<and> e \<noteq> ''.'' \<and> e \<noteq> ''..'') es \<Longrightarrow> clean_steps out es = rev out @ es"
  by (induction es arbitrary: out) simp_all

lemma plain_no_slash: "plain_element e \<Longrightarrow> CHR ''/'' \<notin> set e"
  by (auto simp: plain_element_def list_all_iff)

text \<open>The elements that are left are none of the special ones, and come from the path.\<close>

lemma clean_elements:
  "x \<in> set (clean_steps out es) \<Longrightarrow> x \<in> set out \<or> x \<in> set es \<and> x \<noteq> [] \<and> x \<noteq> ''.'' \<and> x \<noteq> ''..''"
proof (induction out es rule: clean_steps.induct)
  case (2 out e es)
  have "y \<in> set (tl out) \<Longrightarrow> y \<in> set out" for y by (cases out) simp_all
  then show ?case using 2 by (auto split: if_splits)
qed simp

lemma canonical_clean: "canonical b \<Longrightarrow> clean_rooted b = b"
proof -
  assume "canonical b"
  then consider "b = ''/''" | es where "es \<noteq> []" "list_all plain_element es" "b = join_path es"
    by (auto simp: canonical_def)
  then show ?thesis
  proof cases
    case 1
    then show ?thesis by (simp add: clean_rooted_def)
  next
    case 2
    have "split_on (CHR ''/'') b = [] # es"
      using split_joined [of es "[]"] 2(2) plain_no_slash by (simp add: 2(3) list_all_iff)
    moreover have "clean_steps [] es = es" using 2(2) by (simp add: clean_plain plain_element_def list_all_iff)
    ultimately show ?thesis using 2 by (simp add: clean_rooted_def)
  qed
qed

lemma clean_canonical:
  assumes "clean_rooted b = b" and "list_all base_char b"
  shows "canonical b"
proof (cases "clean_steps [] (split_on (CHR ''/'') b) = []")
  case True
  then show ?thesis using assms(1) by (simp add: clean_rooted_def canonical_def)
next
  case False
  let ?es = "clean_steps [] (split_on (CHR ''/'') b)"
  have b: "b = join_path ?es" using assms(1) False by (simp add: clean_rooted_def Let_def)
  have "plain_element e" if "e \<in> set ?es" for e
    using clean_elements [OF that] split_elements [of e "CHR ''/''" b] assms(2)
    by (auto simp: plain_element_def list_all_iff)
  then show ?thesis using False b by (auto simp: canonical_def list_all_iff)
qed

section \<open>What is accepted\<close>

lemma spaces_outside: "\<forall>w \<in> set go_spaces. w \<noteq> [] \<and> hd w \<noteq> CHR ''/'' \<and> \<not> base_char (last w)"
  by code_simp

lemma base_trimmed:
  assumes "prefix ''/'' v" and "list_all base_char v"
  shows "is_trimmed v"
proof -
  have "\<not> prefix w v \<and> \<not> suffix w v" if w: "w \<in> set go_spaces" for w
  proof -
    have n: "w \<noteq> []" "hd w \<noteq> CHR ''/''" "\<not> base_char (last w)" using spaces_outside w by auto
    have "prefix w v \<Longrightarrow> hd w = CHR ''/''" using assms(1) n(1) by (cases w) (auto simp: prefix_def)
    moreover have "suffix w v \<Longrightarrow> last w \<in> set v" using n(1) by (auto simp: suffix_def)
    ultimately show ?thesis using n assms(2) by (auto simp: list_all_iff)
  qed
  then show ?thesis by (auto simp: is_trimmed_def list_ex_iff)
qed

lemma special_outside:
  "\<not> base_char (CHR ''?'')" "\<not> base_char (CHR ''#'')" "\<not> base_char (CHR 0x5C)" "\<not> base_char (CHR ''%'')" "base_char (CHR ''/'')"
  by code_simp+

lemma canonical_chars: "canonical b \<Longrightarrow> list_all base_char b \<and> prefix ''/'' b"
  unfolding canonical_def
proof (elim disjE exE conjE)
  fix es
  assume e: "es \<noteq> []" "list_all plain_element es" "b = join_path es"
  have "list_all plain_element es \<Longrightarrow> list_all base_char (join_path es)" for es
    by (induction es) (auto simp: plain_element_def list_all_iff special_outside)
  from this [of es] show ?thesis using e by (cases es) simp_all
qed (simp add: special_outside)

text \<open>The second character of a canonical path, where it has one, begins an element.\<close>

lemma canonical_second:
  assumes "canonical b" and "b \<noteq> ''/''"
  obtains c s where "b = CHR ''/'' # c # s" and "base_char c" and "c \<noteq> CHR ''/''"
    and "last b \<noteq> CHR ''/''"
proof -
  obtain es where es: "es \<noteq> []" "list_all plain_element es" "b = join_path es" using assms by (auto simp: canonical_def)
  obtain e fs where f: "es = e # fs" using es(1) by (cases es) auto
  obtain gs g where g: "es = gs @ [g]" using es(1) by (cases es rule: rev_cases) auto
  have g': "g \<noteq> []" "\<forall>c \<in> set g. c \<noteq> CHR ''/''" using es(2) g by (auto simp: plain_element_def list_all_iff)
  have "last b = last g" using g'(1) by (simp add: es(3) g join_path_def)
  then have "last b \<noteq> CHR ''/''" using g' last_in_set by metis
  moreover obtain c s where "e = c # s" "base_char c" "c \<noteq> CHR ''/''"
    using es(2) f by (cases e) (auto simp: plain_element_def)
  ultimately show thesis using that [of c "s @ join_path fs"] by (simp add: es(3) f)
qed

lemma trim_slash_back: "trim_slash (b @ ''/'') = b"
  by (simp add: trim_slash_def)

lemma trim_slash_cases: "v = trim_slash v \<or> v = trim_slash v @ ''/''"
  by (auto simp: trim_slash_def suffix_def)

lemma base_path_result:
  "basePath v = Some b \<longleftrightarrow> canonical b \<and> (v = b \<or> b \<noteq> ''/'' \<and> v = b @ ''/'')" (is "_ \<longleftrightarrow> ?ok")
proof
  assume r: "basePath v = Some b"
  let ?v = "if v \<noteq> ''/'' then trim_slash v else v"
  have c: "clean_rooted ?v = ?v" "list_all base_char ?v" "b = ?v" and two: "\<not> prefix ''//'' v" "v \<noteq> []" "prefix ''/'' v"
    using r by (auto simp: basePath_def Let_def split: if_splits)
  have "canonical b" using clean_canonical [OF c(1,2)] c(3) by simp
  moreover have "v = b \<or> b \<noteq> ''/'' \<and> v = b @ ''/''"
    using c(3) two trim_slash_cases [of v] by (auto split: if_splits)
  ultimately show ?ok by simp
next
  assume ok: ?ok
  have chars: "list_all base_char b" "prefix ''/'' b" using canonical_chars ok by auto
  then have v: "list_all base_char v" "prefix ''/'' v" using ok by (auto simp: special_outside)
  have guard: "v \<noteq> []" "is_trimmed v" "\<not> list_ex (\<lambda>c. c \<in> set [CHR ''?'', CHR ''#'', CHR 0x5C, CHR ''%'']) v"
    using v base_trimmed special_outside by (auto simp: list_ex_iff list_all_iff)
  have trim: "(if v \<noteq> ''/'' then trim_slash v else v) = b"
  proof (cases "b = ''/''")
    case False
    then obtain c s where b: "b = CHR ''/'' # c # s" "last b \<noteq> CHR ''/''" using ok canonical_second by metis
    then have "\<not> suffix ''/'' b" by (metis last_snoc suffix_def)
    then have "trim_slash b = b" by (simp add: trim_slash_def)
    then show ?thesis using ok False trim_slash_back [of b] b(1) by auto
  qed (use ok in auto)
  have "\<not> prefix ''//'' v \<and> \<not> prefix [CHR ''/'', CHR 0x5C] v"
  proof (cases "b = ''/''")
    case False
    then obtain c s where "b = CHR ''/'' # c # s" "base_char c" "c \<noteq> CHR ''/''" using ok canonical_second by metis
    then show ?thesis using ok special_outside by auto
  qed (use ok in auto)
  then show "basePath v = Some b"
    using guard v(2) canonical_clean ok chars(1) unfolding basePath_def trim Let_def by simp
qed

section \<open>Redirects\<close>

lemma serve_redirect:
  assumes "serve order base r = Redirected t"
  shows "base \<noteq> ''/'' \<and> rq_path r = base \<and> t = base @ ''/'' @ (if rq_query r \<noteq> [] then ''?'' @ rq_query r else [])"
  using assms
  by (auto simp: serve_def below_base_def serve_path_def split: if_splits option.splits sum.splits prod.splits)

text \<open>
  C37: the configured base path. What an accepted value stands for is a canonical path: the root,
  or non-empty elements of the allowed characters, none of them a dot or two; exactly that path,
  with or without a slash at its end, stands for it. And the redirect to it never leaves the
  host: its target begins with one slash, no other slash or backslash follows, and at the target
  the page itself is served.
\<close>

theorem base_path_safe:
  assumes "basePath v = Some b"
  shows "canonical b \<and> (\<forall>w. basePath w = Some b \<longleftrightarrow> w = b \<or> b \<noteq> ''/'' \<and> w = b @ ''/'')
    \<and> (\<forall>r t. serve order b r = Redirected t \<longrightarrow>
         rq_path r = b \<and> \<not> prefix ''//'' t \<and> \<not> prefix [CHR ''/'', CHR 0x5C] t
         \<and> below_base b (r\<lparr>rq_path := b @ ''/''\<rparr>) = Inr ''/'')"
proof (intro conjI allI impI)
  show c: "canonical b" using assms by (simp add: base_path_result)
  then show "basePath w = Some b \<longleftrightarrow> w = b \<or> b \<noteq> ''/'' \<and> w = b @ ''/''" for w by (simp add: base_path_result)
  fix r t
  assume "serve order b r = Redirected t"
  note r = serve_redirect [OF this]
  then show "rq_path r = b" by simp
  obtain c s where "b = CHR ''/'' # c # s" "base_char c" "c \<noteq> CHR ''/''" using r c canonical_second by metis
  then show "\<not> prefix ''//'' t" "\<not> prefix [CHR ''/'', CHR 0x5C] t" using r special_outside by auto
  show "below_base b (r\<lparr>rq_path := b @ ''/''\<rparr>) = Inr ''/''" using r by (simp add: below_base_def)
qed

theorem base_path_safe_witness:
  "basePath ''/usage'' = Some ''/usage''"
proof -
  have "plain_element ''usage''" by code_simp
  then have "canonical ''/usage''" by (auto simp: canonical_def intro!: exI [of _ "[''usage'']"])
  then have "basePath ''/usage/'' = Some ''/usage''" by (simp add: base_path_result)
  from base_path_safe [OF this] show ?thesis by blast
qed

text \<open>The path the health check asks for (\<open>cmd/dashboard/healthcheck.go\<close>).\<close>

definition health_path :: "string \<Rightarrow> string" where
  "health_path base = (if base \<noteq> ''/'' then base @ ''/healthz'' else ''/healthz'')"

theorem health_found:
  "serve order base \<lparr>rq_method = ''GET'', rq_path = health_path base, rq_query = q\<rparr> = Healthy"
proof -
  have "below_base base \<lparr>rq_method = ''GET'', rq_path = health_path base, rq_query = q\<rparr> = Inr ''/healthz''"
    by (simp add: below_base_def health_path_def)
  then show ?thesis by (simp add: serve_def serve_path_def go_assets_def)
qed

end
