(* ===== verification/Endpoint_URL.thy ===== *)
theory Endpoint_URL
  imports Base_Path
begin

text \<open>
  The normal form of an endpoint's URL (\<open>internal/discovery/discovery.go\<close>, lines 57 to 96). The
  package \<open>net/url\<close> is not modelled: \<open>url.Parse\<close> and \<open>URL.String\<close> are arguments, between texts
  and the parts of a URL the code looks at. A URL with a host has no path or one that begins with
  a slash.
\<close>

record url_parts =
  up_scheme :: string
  up_hostname :: string
  up_port :: string
  up_user :: bool
  up_query :: string
  up_force_query :: bool
  up_opaque :: string
  up_path :: string
  up_raw_path :: string

definition url_path :: "url_parts \<Rightarrow> string option" where
  "url_path u = (if up_path u = [] \<or> up_path u = ''/'' then Some []
     else (let b = trim_slash (up_path u) in if up_raw_path u \<noteq> [] \<or> clean_rooted b \<noteq> b then None else Some b))"

definition url_port :: "string \<Rightarrow> string \<Rightarrow> string option" where
  "url_port scheme port = (if port = [] then Some []
     else if \<not> list_all is_digit port \<or> read_nat port < 1 \<or> 65535 < read_nat port then None
     else (let p = digits (read_nat port)
       in if scheme = ''http'' \<and> p = ''80'' \<or> scheme = ''https'' \<and> p = ''443'' then Some [] else Some p))"

text \<open>The parts of the result; \<open>hash\<close> says whether the text has a number sign.\<close>

definition normal_parts :: "bool \<Rightarrow> url_parts \<Rightarrow> string + url_parts" where
  "normal_parts hash u = (let scheme = to_lower (up_scheme u) in
     if (scheme \<noteq> ''http'' \<and> scheme \<noteq> ''https'') \<or> up_hostname u = [] \<or> up_user u \<or> up_query u \<noteq> []
       \<or> up_force_query u \<or> hash \<or> up_opaque u \<noteq> []
     then Inl ''invalid endpoint URL''
     else (case url_path u of
       None \<Rightarrow> Inl ''invalid endpoint URL''
     | Some p \<Rightarrow> (case url_port scheme (up_port u) of
         None \<Rightarrow> Inl ''invalid endpoint port''
       | Some q \<Rightarrow> Inr (u\<lparr>up_scheme := scheme, up_hostname := to_lower (up_hostname u), up_port := q,
           up_path := p, up_raw_path := []\<rparr>))))"

text \<open>The host with its port, as \<open>net.JoinHostPort\<close> writes it, and the text of the parts.\<close>

definition host_text :: "string \<Rightarrow> string \<Rightarrow> string" where
  "host_text host port = (let h = (if CHR '':'' \<in> set host then ''['' @ host @ '']'' else host)
     in if port \<noteq> [] then h @ '':'' @ port else h)"

definition parts_text :: "(string \<Rightarrow> string \<Rightarrow> string \<Rightarrow> string) \<Rightarrow> url_parts \<Rightarrow> string" where
  "parts_text unparse v = unparse (up_scheme v) (host_text (up_hostname v) (up_port v)) (up_path v)"

definition NormalizeURL :: "(string \<Rightarrow> url_parts option) \<Rightarrow> (string \<Rightarrow> string \<Rightarrow> string \<Rightarrow> string) \<Rightarrow> string \<Rightarrow> string + string" where
  "NormalizeURL url_of unparse raw = (case url_of raw of
     None \<Rightarrow> Inl ''invalid endpoint URL''
   | Some u \<Rightarrow> map_sum id (parts_text unparse) (normal_parts (CHR ''#'' \<in> set raw) u))"

section \<open>The normal form\<close>

lemma normal_parts_result:
  assumes "normal_parts hash u = Inr v"
  shows "up_scheme v = to_lower (up_scheme u)" and "up_scheme v \<in> {''http'', ''https''}"
    and "up_hostname v = to_lower (up_hostname u)" and "up_hostname v \<noteq> []"
    and "url_path u = Some (up_path v)" and "url_port (up_scheme v) (up_port u) = Some (up_port v)"
    and "\<not> hash" and "up_raw_path v = []"
    and "\<not> up_user v" and "up_query v = []" and "\<not> up_force_query v" and "up_opaque v = []"
  using assms by (auto simp: normal_parts_def Let_def split: if_splits option.splits)

lemma url_port_twice: "url_port s q = Some p \<Longrightarrow> url_port s p = Some p"
proof (cases "q = []")
  case False
  assume p: "url_port s q = Some p"
  have d: "list_all is_digit (digits (read_nat q))" by (auto simp: list_all_iff dest: digits_are_digits)
  show ?thesis using p False d by (auto simp: url_port_def Let_def split: if_splits)
qed (simp add: url_port_def)

lemma url_path_twice:
  assumes "url_path u = Some p" and "up_path u \<noteq> ''//''" and "up_path v = p" and "up_raw_path v = []"
  shows "url_path v = Some p"
proof (cases "p = []")
  case False
  let ?b = "trim_slash (up_path u)"
  have b: "p = ?b" "clean_rooted ?b = ?b" using assms(1) False by (auto simp: url_path_def Let_def split: if_splits)
  have "p \<noteq> ''/''"
  proof
    assume "p = ''/''"
    then have "up_path u = ''/'' \<or> up_path u = ''//''" using trim_slash_cases [of "up_path u"] b(1) by auto
    then show False using assms(1,2) False by (auto simp: url_path_def)
  qed
  moreover have "trim_slash p = p"
  proof -
    let ?es = "clean_steps [] (split_on (CHR ''/'') p)"
    have es: "?es \<noteq> []" "p = join_path ?es" using b \<open>p \<noteq> ''/''\<close> by (auto simp: clean_rooted_def Let_def split: if_splits)
    obtain gs g where g: "?es = gs @ [g]" using es(1) by (cases ?es rule: rev_cases) auto
    have "g \<in> set ?es" by (simp add: g)
    then have "g \<noteq> []" "CHR ''/'' \<notin> set g"
      using clean_elements [of g "[]" "split_on (CHR ''/'') p"] split_elements [of g "CHR ''/''" p] by auto
    then have "last g \<noteq> CHR ''/''" "last p = last g" "p \<noteq> []"
      using es(2) last_in_set [of g] by (metis, simp_all add: g join_path_def)
    then show ?thesis by (auto simp: trim_slash_def suffix_def)
  qed
  ultimately show ?thesis using False b assms(3,4) by (simp add: url_path_def)
qed (use assms in \<open>simp add: url_path_def\<close>)

text \<open>
  A normalized URL is in normal form: normalizing it again gives the same, where parsing the text
  of a URL gives its parts back and the text has no number sign, which \<open>net/url\<close> escapes in paths
  and rejects in hosts. The path of two slashes is excepted: it becomes one slash, then none.
\<close>

theorem url_normalized_once:
  assumes "url_of raw = Some u" and "NormalizeURL url_of unparse raw = Inr t" and "up_path u \<noteq> ''//''"
    and "\<And>v. normal_parts False u = Inr v \<Longrightarrow> url_of (parts_text unparse v) = Some v" and "CHR ''#'' \<notin> set t"
  shows "NormalizeURL url_of unparse t = Inr t"
proof -
  obtain v where v: "normal_parts (CHR ''#'' \<in> set raw) u = Inr v" "t = parts_text unparse v"
    using assms(1,2) by (cases "normal_parts (CHR ''#'' \<in> set raw) u") (auto simp: NormalizeURL_def)
  note r = normal_parts_result [OF v(1)]
  have "url_of t = Some v" using assms(4) [of v] v r(7) by simp
  moreover have "normal_parts False v = Inr v"
  proof -
    have "to_lower (up_scheme v) = up_scheme v" "to_lower (up_hostname v) = up_hostname v" by (simp_all add: r(1,3))
    moreover have "url_path v = Some (up_path v)" by (rule url_path_twice [OF r(5) assms(3) refl r(8)])
    moreover have "url_port (up_scheme v) (up_port v) = Some (up_port v)" by (rule url_port_twice [OF r(6)])
    ultimately show ?thesis using r(2,4,8-12) by (auto simp: normal_parts_def Let_def)
  qed
  ultimately show ?thesis using v(2) assms(5) by (simp add: NormalizeURL_def)
qed

definition octo_parts :: "string \<Rightarrow> string \<Rightarrow> string \<Rightarrow> string \<Rightarrow> url_parts" where
  "octo_parts s h q p = \<lparr>up_scheme = s, up_hostname = h, up_port = q, up_user = False, up_query = [],
     up_force_query = False, up_opaque = [], up_path = p, up_raw_path = []\<rparr>"

definition octo_parse :: "string \<Rightarrow> url_parts option" where
  "octo_parse s = map_of [(''HTTP://Octo:080/api/'', octo_parts ''HTTP'' ''Octo'' ''080'' ''/api/''),
     (''http://octo/api'', octo_parts ''http'' ''octo'' [] ''/api''),
     (''http://octo//'', octo_parts ''http'' ''octo'' [] ''//''), (''http://octo/'', octo_parts ''http'' ''octo'' [] ''/'')] s"

definition octo_text :: "string \<Rightarrow> string \<Rightarrow> string \<Rightarrow> string" where
  "octo_text s h p = s @ ''://'' @ h @ p"

theorem url_normalized_once_witness:
  "NormalizeURL octo_parse octo_text ''http://octo/api'' = Inr ''http://octo/api''"
proof -
  have n: "normal_parts False (octo_parts ''HTTP'' ''Octo'' ''080'' ''/api/'') = Inr (octo_parts ''http'' ''octo'' [] ''/api'')"
    by code_simp
  have "NormalizeURL octo_parse octo_text ''HTTP://Octo:080/api/'' = Inr ''http://octo/api''" by code_simp
  moreover have "octo_parse ''HTTP://Octo:080/api/'' = Some (octo_parts ''HTTP'' ''Octo'' ''080'' ''/api/'')" by code_simp
  moreover have "up_path (octo_parts ''HTTP'' ''Octo'' ''080'' ''/api/'') \<noteq> ''//''" by code_simp
  moreover have "octo_parse (parts_text octo_text v) = Some v"
    if "normal_parts False (octo_parts ''HTTP'' ''Octo'' ''080'' ''/api/'') = Inr v" for v
  proof -
    have "v = octo_parts ''http'' ''octo'' [] ''/api''" using that n by simp
    moreover have "octo_parse (parts_text octo_text (octo_parts ''http'' ''octo'' [] ''/api'')) = Some (octo_parts ''http'' ''octo'' [] ''/api'')"
      by code_simp
    ultimately show ?thesis by simp
  qed
  ultimately show ?thesis by (intro url_normalized_once) simp_all
qed

text \<open>With two slashes the result is not in normal form: it has a slash its own normal form lacks.\<close>

theorem double_slash_kept:
  "NormalizeURL octo_parse octo_text ''http://octo//'' = Inr ''http://octo/''
   \<and> NormalizeURL octo_parse octo_text ''http://octo/'' = Inr ''http://octo''"
  by code_simp

end
