(* ===== verification/History.thy ===== *)
theory History
  imports Aggregate "HOL-Library.Product_Lexorder"
begin

text \<open>
  The usage history of an account in the store (\<open>internal/store/sqlite/store.go\<close>, lines 143 to
  229, 324 to 588 and 608 to 840). The rows of an account are a list of segments in the order
  of their ordinals, each with the days it holds_history. A day carries the rows of the detail tables:
  costs without amounts, and models. A SQL statement is the operation on these rows it
  describes; a violated primary key is an error, and an error rolls the transaction back, so
  that only the result of a success matters. Times in milliseconds are integers.
\<close>

record snapshot_day = upstream_day +
  start_ms :: int
  end_ms :: int

record snapshot =
  range_end :: int
  snap_days :: "snapshot_day list"

record stored_day =
  sd_date :: string
  sd_start :: int
  sd_end :: int
  sd_snapshot :: int
  sd_totals :: go_totals
  sd_models :: "go_model list"

record segment =
  sg_start :: string
  sg_days :: "stored_day list"

type_synonym history = "segment list"

section \<open>Regression\<close>

definition totalsRegressed :: "go_totals \<Rightarrow> go_totals \<Rightarrow> bool" where
  "totalsRegressed old cur \<longleftrightarrow>
     sint (gt_input cur) < sint (gt_input old) \<or> sint (gt_output cur) < sint (gt_output old)
     \<or> sint (gt_cache_read cur) < sint (gt_cache_read old)
     \<or> sint (gt_cache_creation cur) < sint (gt_cache_creation old)
     \<or> sint (gt_requests cur) < sint (gt_requests old) \<or> sint (gt_tokens cur) < sint (gt_tokens old)
     \<or> (case (gt_nano_aiu old, gt_nano_aiu cur) of (Some m, Some n) \<Rightarrow> sint n < sint m | _ \<Rightarrow> False)"

text \<open>A Go map filled from a slice: the last value of a key counts.\<close>

definition map_from :: "('a \<Rightarrow> 'k) \<Rightarrow> 'a list \<Rightarrow> 'k \<Rightarrow> 'a option" where
  "map_from key xs k = map_of (rev (map (\<lambda>x. (key x, x)) xs)) k"

definition costsRegressed :: "go_cost list \<Rightarrow> go_cost list \<Rightarrow> bool" where
  "costsRegressed old cur \<longleftrightarrow> list_ex (\<lambda>c. case map_from gc_currency cur (gc_currency c) of
     None \<Rightarrow> True | Some v \<Rightarrow> sint (gc_nanos v) < sint (gc_nanos c)) old"

definition unitsLost :: "go_totals \<Rightarrow> go_totals \<Rightarrow> bool" where
  "unitsLost old cur \<longleftrightarrow> gt_nano_aiu old \<noteq> None \<and> gt_nano_aiu cur = None"

definition detailsRegressed :: "stored_day \<Rightarrow> snapshot_day \<Rightarrow> bool" where
  "detailsRegressed st cur \<longleftrightarrow>
     unitsLost (sd_totals st) (ud_totals cur)
     \<or> costsRegressed (slice (gt_costs (sd_totals st))) (slice (gt_costs (ud_totals cur)))
     \<or> list_ex (\<lambda>m. case map_from gm_name (ud_models cur) (gm_name m) of None \<Rightarrow> True
         | Some v \<Rightarrow> totalsRegressed (gm_totals m) (gm_totals v) \<or> unitsLost (gm_totals m) (gm_totals v)
             \<or> costsRegressed (slice (gt_costs (gm_totals m))) (slice (gt_costs (gm_totals v))))
         (sd_models st)"

definition snapshotReset :: "stored_day \<Rightarrow> snapshot_day \<Rightarrow> bool" where
  "snapshotReset st cur \<longleftrightarrow> totalsRegressed (sd_totals st) (ud_totals cur)
     \<or> sd_start st < start_ms cur \<and> sd_end st \<le> start_ms cur"

section \<open>Saving a snapshot\<close>

definition validateDaily :: "snapshot \<Rightarrow> bool" where
  "validateDaily s \<longleftrightarrow> 0 < range_end s
     \<and> list_all (\<lambda>d. ud_date d \<noteq> [] \<and> 0 \<le> start_ms d \<and> start_ms d < end_ms d \<and> end_ms d \<le> range_end s) (snap_days s)
     \<and> distinct (map ud_date (snap_days s))"

definition day_order :: "snapshot_day list \<Rightarrow> snapshot_day list" where
  "day_order ds = sort_key (\<lambda>d. (start_ms d, ud_date d)) ds"

text \<open>The stored day a snapshot is compared with: one whose end was that of its snapshot.\<close>

definition compared :: "segment \<Rightarrow> int \<Rightarrow> snapshot_day \<Rightarrow> stored_day option" where
  "compared sg e d = (if ud_date d < sg_start sg then None
     else (case find (\<lambda>st. sd_date st = ud_date d \<and> sd_end st = sd_snapshot st) (sg_days sg) of
       None \<Rightarrow> None | Some st \<Rightarrow> if e < sd_snapshot st then None else Some st))"

definition reset_step :: "segment \<Rightarrow> int \<Rightarrow> snapshot_day \<Rightarrow> string \<Rightarrow> string" where
  "reset_step sg e d r = (case compared sg e d of None \<Rightarrow> r
     | Some st \<Rightarrow> if snapshotReset st d \<and> (r = [] \<or> ud_date d < r) then ud_date d else r)"

definition findResetDate :: "segment \<Rightarrow> int \<Rightarrow> snapshot_day list \<Rightarrow> string" where
  "findResetDate sg e ds = fold (reset_step sg e) ds []"

definition incomplete :: "segment \<Rightarrow> int \<Rightarrow> snapshot_day list \<Rightarrow> bool" where
  "incomplete sg e ds \<longleftrightarrow> list_ex (\<lambda>d. case compared sg e d of None \<Rightarrow> False
     | Some st \<Rightarrow> detailsRegressed st d) ds"

text \<open>The rows written for a day, and the first key that occurs twice among them.\<close>

definition forget_amount :: "go_cost \<Rightarrow> go_cost" where
  "forget_amount c = c\<lparr>gc_amount := Fin 0\<rparr>"

definition row_totals :: "go_totals \<Rightarrow> go_totals" where
  "row_totals t = t\<lparr>gt_costs := Some (map forget_amount (slice (gt_costs t)))\<rparr>"

definition row_model :: "go_model \<Rightarrow> go_model" where
  "row_model m = m\<lparr>gm_totals := row_totals (gm_totals m)\<rparr>"

definition stored_row :: "int \<Rightarrow> snapshot_day \<Rightarrow> stored_day" where
  "stored_row e d = \<lparr>sd_date = ud_date d, sd_start = start_ms d, sd_end = end_ms d, sd_snapshot = e,
     sd_totals = row_totals (ud_totals d), sd_models = map row_model (ud_models d)\<rparr>"

definition cost_keys :: "go_totals \<Rightarrow> string list" where
  "cost_keys t = map gc_currency (slice (gt_costs t))"

fun model_error :: "string set \<Rightarrow> go_model list \<Rightarrow> string option" where
  "model_error seen [] = None"
| "model_error seen (m # ms) =
     (if gm_name m \<in> seen then Some ''cannot persist daily model usage''
      else if \<not> distinct (cost_keys (gm_totals m)) then Some ''cannot persist daily model cost''
      else model_error (insert (gm_name m) seen) ms)"

definition row_error :: "snapshot_day \<Rightarrow> string option" where
  "row_error d = (if \<not> distinct (cost_keys (ud_totals d)) then Some ''cannot persist daily cost''
     else model_error {} (ud_models d))"

definition replaceDay :: "int \<Rightarrow> snapshot_day \<Rightarrow> segment \<Rightarrow> string + segment" where
  "replaceDay e d sg =
     (case find (\<lambda>st. sd_date st = ud_date d) (sg_days sg) of
        Some st \<Rightarrow> if e < sd_snapshot st then Inr sg
          else (case row_error d of Some m \<Rightarrow> Inl m
            | None \<Rightarrow> Inr (sg\<lparr>sg_days := map (\<lambda>x. if sd_date x = ud_date d then stored_row e d else x) (sg_days sg)\<rparr>))
      | None \<Rightarrow> (case row_error d of Some m \<Rightarrow> Inl m
            | None \<Rightarrow> Inr (sg\<lparr>sg_days := sg_days sg @ [stored_row e d]\<rparr>)))"

fun write_days :: "int \<Rightarrow> snapshot_day list \<Rightarrow> segment \<Rightarrow> string + segment" where
  "write_days e [] sg = Inr sg"
| "write_days e (d # ds) sg =
     (if ud_date d < sg_start sg then write_days e ds sg
      else (case replaceDay e d sg of Inl m \<Rightarrow> Inl m | Inr sg' \<Rightarrow> write_days e ds sg'))"

definition new_segment :: "string \<Rightarrow> segment" where
  "new_segment start = \<lparr>sg_start = start, sg_days = []\<rparr>"

definition save_history :: "history \<Rightarrow> snapshot \<Rightarrow> string + history" where
  "save_history h s =
     (if \<not> validateDaily s then Inl ''invalid daily usage snapshot''
      else if snap_days s = [] then Inr h
      else
        (let ds = day_order (snap_days s); e = range_end s;
             h1 = (if h = [] then [new_segment (ud_date (hd ds))] else h);
             sg = last h1; reset = findResetDate sg e ds
         in if reset = [] then
              (if incomplete sg e ds then Inl ''daily usage snapshot is incomplete''
               else map_sum id (\<lambda>x. butlast h1 @ [x]) (write_days e ds sg))
            else map_sum id (\<lambda>x. h1 @ [x]) (write_days e ds (new_segment reset))))"

section \<open>Loading\<close>

definition addStoredTotals :: "go_totals \<Rightarrow> go_totals \<Rightarrow> go_totals" where
  "addStoredTotals dst src = dst\<lparr>
     gt_input := gt_input dst + gt_input src,
     gt_output := gt_output dst + gt_output src,
     gt_cache_read := gt_cache_read dst + gt_cache_read src,
     gt_cache_creation := gt_cache_creation dst + gt_cache_creation src,
     gt_requests := gt_requests dst + gt_requests src,
     gt_tokens := gt_tokens dst + gt_tokens src,
     gt_nano_aiu := (case gt_nano_aiu src of None \<Rightarrow> gt_nano_aiu dst
       | Some n \<Rightarrow> Some ((case gt_nano_aiu dst of None \<Rightarrow> 0 | Some m \<Rightarrow> m) + n))\<rparr>"

text \<open>The rows of the period, ordered by date and ordinal.\<close>

definition period_rows :: "int \<Rightarrow> int \<Rightarrow> history \<Rightarrow> stored_day list" where
  "period_rows lo hi h = sort_key sd_date
     (concat (map (\<lambda>sg. filter (\<lambda>d. lo \<le> sd_start d \<and> sd_start d < hi) (sg_days sg)) h))"

definition blank_loaded :: "stored_day \<Rightarrow> snapshot_day" where
  "blank_loaded r = \<lparr>ud_date = sd_date r, ud_totals = empty_totals, ud_models = [],
     start_ms = sd_start r, end_ms = sd_end r\<rparr>"

definition raise_loaded :: "stored_day \<Rightarrow> snapshot_day \<Rightarrow> snapshot_day" where
  "raise_loaded r d = d\<lparr>start_ms := min (sd_start r) (start_ms d), end_ms := max (sd_end r) (end_ms d),
     ud_totals := addStoredTotals (ud_totals d) (sd_totals r)\<rparr>"

text \<open>
  The costs of a date, and its models with their costs. The rows of one currency or model come
  in any order, which does not matter to a sum; here it is that of the segments.
\<close>

definition load_costs :: "go_cost list \<Rightarrow> go_cost list" where
  "load_costs rows = sort_key gc_currency (fold add_cost (sort_key gc_currency rows) [])"

definition load_models :: "go_model list \<Rightarrow> go_model list" where
  "load_models rows = sort_key gm_name
     (map (\<lambda>m. m\<lparr>gm_totals := (gm_totals m)\<lparr>gt_costs := Some (load_costs
          (concat (map (\<lambda>r. slice (gt_costs (gm_totals r))) (filter (\<lambda>r. gm_name r = gm_name m) rows))))\<rparr>\<rparr>)
       (fold (\<lambda>r. upsert gm_name (gm_name r) (blank_model (gm_name r))
           (\<lambda>m. m\<lparr>gm_totals := addStoredTotals (gm_totals m) (gm_totals r)\<rparr>)) (sort_key gm_name rows) []))"

definition load_details :: "stored_day list \<Rightarrow> snapshot_day \<Rightarrow> snapshot_day" where
  "load_details rows d = (let here = filter (\<lambda>r. sd_date r = ud_date d) rows in d\<lparr>
     ud_totals := (ud_totals d)\<lparr>gt_costs := Some (load_costs (concat (map (\<lambda>r. slice (gt_costs (sd_totals r))) here)))\<rparr>,
     ud_models := load_models (concat (map sd_models here))\<rparr>)"

definition loadDays :: "int \<Rightarrow> int \<Rightarrow> history \<Rightarrow> snapshot_day list" where
  "loadDays lo hi h =
     (let rows = period_rows lo hi h
      in map (load_details rows)
           (fold (\<lambda>r. upsert ud_date (sd_date r) (blank_loaded r) (raise_loaded r)) rows []))"

end
