(* ===== verification/History_Facts.thy ===== *)
theory History_Facts
  imports History
begin

text \<open>
  Saving a snapshot, seen through the days of a segment as a map: what is written, what is
  kept, that saving twice is saving once, and that history never regresses where it is checked.
\<close>

section \<open>Days of a segment as a map\<close>

definition lookup_day :: "segment \<Rightarrow> string \<Rightarrow> stored_day option" where
  "lookup_day sg k = find (\<lambda>st. sd_date st = k) (sg_days sg)"

definition segment_ok :: "segment \<Rightarrow> bool" where
  "segment_ok sg \<longleftrightarrow> distinct (map sd_date (sg_days sg))"

definition history_ok :: "history \<Rightarrow> bool" where
  "history_ok h \<longleftrightarrow> list_all segment_ok h"

lemma find_found: "find P xs = Some x \<Longrightarrow> x \<in> set xs \<and> P x"
  by (auto simp: find_Some_iff)

lemma find_key: "distinct (map key xs) \<Longrightarrow> x \<in> set xs \<Longrightarrow> find (\<lambda>y. key y = key x) xs = Some x"
  by (induction xs) auto

lemma lookup_date: "lookup_day sg k = Some st \<Longrightarrow> sd_date st = k \<and> st \<in> set (sg_days sg)"
  by (auto simp: lookup_day_def find_Some_iff)

lemma lookup_in: "segment_ok sg \<Longrightarrow> st \<in> set (sg_days sg) \<Longrightarrow> lookup_day sg (sd_date st) = Some st"
  by (simp add: segment_ok_def lookup_day_def find_key)

lemma lookup_None: "lookup_day sg k = None \<longleftrightarrow> k \<notin> sd_date ` set (sg_days sg)"
  by (auto simp: lookup_day_def find_None_iff)

lemma stored_row_simps [simp]:
  "sd_date (stored_row e d) = ud_date d" "sd_snapshot (stored_row e d) = e" "sd_start (stored_row e d) = start_ms d"
  "sd_end (stored_row e d) = end_ms d" "sd_totals (stored_row e d) = row_totals (ud_totals d)"
  "sd_models (stored_row e d) = map row_model (ud_models d)"
  by (simp_all add: stored_row_def)

text \<open>What a day becomes when it is written.\<close>

definition written_day :: "int \<Rightarrow> snapshot_day \<Rightarrow> stored_day option \<Rightarrow> stored_day" where
  "written_day e d old = (case old of None \<Rightarrow> stored_row e d | Some st \<Rightarrow> if e < sd_snapshot st then st else stored_row e d)"

lemma written_date: "lookup_day sg (ud_date d) = old \<Longrightarrow> sd_date (written_day e d old) = ud_date d"
  by (auto simp: written_day_def dest: lookup_date split: option.split)

lemma replaceDay_result:
  assumes "replaceDay e d sg = Inr sg'" and ok: "segment_ok sg"
  shows "sg_start sg' = sg_start sg" and "segment_ok sg'"
    and "lookup_day sg' k = (if k = ud_date d then Some (written_day e d (lookup_day sg k)) else lookup_day sg k)"
    and "written_day e d (lookup_day sg (ud_date d)) = stored_row e d \<Longrightarrow>
      row_error d = None"
proof -
  have find_map: "find (\<lambda>st. sd_date st = k) (map (\<lambda>x. if sd_date x = c then y else x) xs)
      = (if k = c then (if c \<in> sd_date ` set xs then Some y else None) else find (\<lambda>st. sd_date st = k) xs)"
    if "sd_date y = c" for xs and y :: stored_day and c
    using that by (induction xs) auto
  have find_append: "find P (xs @ [y]) = (case find P xs of None \<Rightarrow> if P y then Some y else None | Some z \<Rightarrow> Some z)"
    for P and xs :: "stored_day list" and y by (induction xs) auto
  have dates: "map sd_date (map (\<lambda>x. if sd_date x = ud_date d then stored_row e d else x) xs) = map sd_date xs" for xs
    by simp
  have all: "sg_start sg' = sg_start sg \<and> segment_ok sg'
    \<and> lookup_day sg' k = (if k = ud_date d then Some (written_day e d (lookup_day sg k)) else lookup_day sg k)
    \<and> (written_day e d (lookup_day sg (ud_date d)) = stored_row e d \<longrightarrow> row_error d = None)"
  proof (cases "lookup_day sg (ud_date d)")
    case None
    then have no: "ud_date d \<notin> sd_date ` set (sg_days sg)" by (simp add: lookup_None)
    have "row_error d = None" "sg' = sg\<lparr>sg_days := sg_days sg @ [stored_row e d]\<rparr>"
      using assms(1) None by (auto simp: replaceDay_def lookup_day_def split: option.splits)
    then show ?thesis
      using no ok None
      by (auto simp: segment_ok_def lookup_day_def find_append written_day_def split: option.split)
  next
    case (Some st)
    show ?thesis
    proof (cases "e < sd_snapshot st")
      case True
      then have "sg' = sg" using assms(1) Some by (simp add: replaceDay_def lookup_day_def)
      moreover have "written_day e d (Some st) = st" "st \<noteq> stored_row e d" using True by (auto simp: written_day_def)
      ultimately show ?thesis using ok Some by auto
    next
      case False
      then have r: "row_error d = None" "sg' = sg\<lparr>sg_days := map (\<lambda>x. if sd_date x = ud_date d then stored_row e d else x) (sg_days sg)\<rparr>"
        using assms(1) Some by (auto simp: replaceDay_def lookup_day_def split: option.splits)
      have "ud_date d \<in> sd_date ` set (sg_days sg)" using lookup_date [OF Some] by (metis imageI)
      then show ?thesis
        using r ok Some False by (simp add: segment_ok_def lookup_day_def find_map dates written_day_def del: map_map)
    qed
  qed
  then show "sg_start sg' = sg_start sg" "segment_ok sg'"
    "lookup_day sg' k = (if k = ud_date d then Some (written_day e d (lookup_day sg k)) else lookup_day sg k)"
    "written_day e d (lookup_day sg (ud_date d)) = stored_row e d \<Longrightarrow>
      row_error d = None"
    by blast+
qed

lemma write_days_result:
  assumes "write_days e ds sg = Inr sg'" and "segment_ok sg" and "distinct (map ud_date ds)"
  shows "sg_start sg' = sg_start sg" and "segment_ok sg'"
    and "lookup_day sg' k = (case find (\<lambda>d. ud_date d = k) ds of None \<Rightarrow> lookup_day sg k
       | Some d \<Rightarrow> if k < sg_start sg then lookup_day sg k else Some (written_day e d (lookup_day sg k)))"
    and "d \<in> set ds \<Longrightarrow> \<not> ud_date d < sg_start sg \<Longrightarrow>
      written_day e d (lookup_day sg (ud_date d)) = stored_row e d \<Longrightarrow> row_error d = None"
proof -
  have "write_days e ds sg = Inr sg' \<Longrightarrow> segment_ok sg \<Longrightarrow> distinct (map ud_date ds) \<Longrightarrow>
    sg_start sg' = sg_start sg \<and> segment_ok sg'
    \<and> (\<forall>k. lookup_day sg' k = (case find (\<lambda>d. ud_date d = k) ds of None \<Rightarrow> lookup_day sg k
         | Some d \<Rightarrow> if k < sg_start sg then lookup_day sg k else Some (written_day e d (lookup_day sg k))))
    \<and> (\<forall>d \<in> set ds. \<not> ud_date d < sg_start sg \<longrightarrow> written_day e d (lookup_day sg (ud_date d)) = stored_row e d
         \<longrightarrow> row_error d = None)"
  proof (induction e ds sg rule: write_days.induct)
    case (2 e d ds sg)
    have fresh: "find (\<lambda>x. ud_date x = ud_date d) ds = None"
      using "2.prems"(3) by (simp add: find_None_iff image_iff) metis
    show ?case
    proof (cases "ud_date d < sg_start sg")
      case True
      then show ?thesis using "2.IH"(1) [OF True] "2.prems" fresh by auto
    next
      case False
      then obtain sg1 where r: "replaceDay e d sg = Inr sg1" and w: "write_days e ds sg1 = Inr sg'"
        using "2.prems"(1) by (auto split: sum.splits)
      note r1 = replaceDay_result [OF r "2.prems"(2)]
      from "2.IH"(2) [OF False r w r1(2)] "2.prems"(3)
      have IH: "sg_start sg' = sg_start sg1" "segment_ok sg'"
        "\<And>k. lookup_day sg' k = (case find (\<lambda>d. ud_date d = k) ds of None \<Rightarrow> lookup_day sg1 k
           | Some d \<Rightarrow> if k < sg_start sg1 then lookup_day sg1 k else Some (written_day e d (lookup_day sg1 k)))"
        "\<And>x. x \<in> set ds \<Longrightarrow> \<not> ud_date x < sg_start sg1 \<Longrightarrow> written_day e x (lookup_day sg1 (ud_date x)) = stored_row e x
           \<Longrightarrow> row_error x = None" by auto
      have other: "x \<in> set ds \<Longrightarrow> ud_date x \<noteq> ud_date d" for x
        using fresh by (auto simp: find_None_iff)
      show ?thesis
      proof (intro conjI allI ballI impI)
        show "sg_start sg' = sg_start sg" "segment_ok sg'" using IH r1 by simp_all
        show "lookup_day sg' k = (case find (\<lambda>d. ud_date d = k) (d # ds) of None \<Rightarrow> lookup_day sg k
           | Some d \<Rightarrow> if k < sg_start sg then lookup_day sg k else Some (written_day e d (lookup_day sg k)))" for k
          using IH(3) [of k] r1(1) r1(3) [of k] fresh False by (auto split: option.split)
        show "row_error x = None" if "x \<in> set (d # ds)" "\<not> ud_date x < sg_start sg"
          "written_day e x (lookup_day sg (ud_date x)) = stored_row e x" for x
        proof (cases "x = d")
          case True
          then show ?thesis using r1(4) that by simp
        next
          case False
          then have "x \<in> set ds" using that(1) by simp
          then show ?thesis using IH(4) [of x] r1(1) r1(3) [of "ud_date x"] other that by simp
        qed
      qed
    qed
  qed simp
  then show "sg_start sg' = sg_start sg" "segment_ok sg'"
    "lookup_day sg' k = (case find (\<lambda>d. ud_date d = k) ds of None \<Rightarrow> lookup_day sg k
       | Some d \<Rightarrow> if k < sg_start sg then lookup_day sg k else Some (written_day e d (lookup_day sg k)))"
    "d \<in> set ds \<Longrightarrow> \<not> ud_date d < sg_start sg \<Longrightarrow>
      written_day e d (lookup_day sg (ud_date d)) = stored_row e d \<Longrightarrow> row_error d = None"
    using assms by blast+
qed

section \<open>Which day a snapshot is compared with\<close>

lemma compared_lookup:
  assumes "segment_ok sg"
  shows "compared sg e d = Some st \<longleftrightarrow> \<not> ud_date d < sg_start sg \<and> lookup_day sg (ud_date d) = Some st
    \<and> sd_end st = sd_snapshot st \<and> sd_snapshot st \<le> e"
proof -
  have "find (\<lambda>x. sd_date x = k \<and> P x) xs = (case find (\<lambda>x. sd_date x = k) xs of None \<Rightarrow> None
      | Some x \<Rightarrow> if P x then Some x else None)" if "distinct (map sd_date xs)" for k P and xs :: "stored_day list"
    using that by (induction xs) (auto simp: find_None_iff find_Some_iff image_iff split: option.split)
  then show ?thesis
    using assms by (auto simp: compared_def lookup_day_def segment_ok_def split: option.splits if_splits)
qed

text \<open>Without a reset date no compared day is reset; otherwise it is the first such date.\<close>

definition resets_day :: "segment \<Rightarrow> int \<Rightarrow> snapshot_day \<Rightarrow> bool" where
  "resets_day sg e d \<longleftrightarrow> (\<exists>st. compared sg e d = Some st \<and> snapshotReset st d)"

lemma reset_fold:
  assumes "\<forall>d \<in> set ds. ud_date d \<noteq> []"
  shows "fold (reset_step sg e) ds r = [] \<longleftrightarrow> r = [] \<and> (\<forall>d \<in> set ds. \<not> resets_day sg e d)"
  using assms
proof (induction ds arbitrary: r)
  case (Cons d ds)
  have "reset_step sg e d r = [] \<longleftrightarrow> r = [] \<and> \<not> resets_day sg e d"
    using Cons.prems by (auto simp: reset_step_def resets_day_def split: option.split)
  then show ?case using Cons by auto
qed simp

lemma reset_first:
  assumes "\<forall>d \<in> set ds. ud_date d \<noteq> []" and "fold (reset_step sg e) ds r = q" and "q \<noteq> []"
  shows "(q = r \<or> (\<exists>d \<in> set ds. resets_day sg e d \<and> q = ud_date d)) \<and> (r \<noteq> [] \<longrightarrow> q \<le> r)
    \<and> (\<forall>d \<in> set ds. resets_day sg e d \<longrightarrow> q \<le> ud_date d)"
  using assms
proof (induction ds arbitrary: r)
  case (Cons d ds)
  let ?r = "reset_step sg e d r"
  have step: "?r = r \<or> resets_day sg e d \<and> ?r = ud_date d" "r \<noteq> [] \<longrightarrow> ?r \<noteq> [] \<and> ?r \<le> r"
    "resets_day sg e d \<longrightarrow> ?r \<noteq> [] \<and> ?r \<le> ud_date d"
    using Cons.prems(1) by (auto simp: reset_step_def resets_day_def not_less split: option.split)
  have IH: "q = ?r \<or> (\<exists>d \<in> set ds. resets_day sg e d \<and> q = ud_date d)" "?r \<noteq> [] \<longrightarrow> q \<le> ?r"
    "\<forall>d \<in> set ds. resets_day sg e d \<longrightarrow> q \<le> ud_date d"
    using Cons.IH [of ?r] Cons.prems by simp_all
  have "q = r \<or> (\<exists>x \<in> set (d # ds). resets_day sg e x \<and> q = ud_date x)" using IH(1) step(1) by auto
  moreover have "r \<noteq> [] \<longrightarrow> q \<le> r" "resets_day sg e d \<longrightarrow> q \<le> ud_date d"
    using IH(2) step(2,3) by (meson order_trans)+
  ultimately show ?case using IH(3) by simp
qed simp

end
