(* ===== verification/History_Kept.thy ===== *)
theory History_Kept
  imports History_Facts
begin

text \<open>
  What saving a snapshot does to the history of an account: the days it keeps, the days it
  replaces, and that saving the same snapshot again changes nothing.
\<close>

section \<open>The segment that is written\<close>

definition opened_history :: "history \<Rightarrow> snapshot_day list \<Rightarrow> history" where
  "opened_history h ds = (if h = [] then [new_segment (ud_date (hd ds))] else h)"

lemma opened_ok: "history_ok h \<Longrightarrow> history_ok (opened_history h ds)" "opened_history h ds \<noteq> []"
  by (simp_all add: opened_history_def history_ok_def segment_ok_def new_segment_def)

lemma last_ok: "history_ok h \<Longrightarrow> h \<noteq> [] \<Longrightarrow> segment_ok (last h)"
  by (simp add: history_ok_def list_all_iff)

lemma butlast_ok: "history_ok h \<Longrightarrow> history_ok (butlast h)"
  by (auto simp: history_ok_def list_all_iff dest: in_set_butlastD)

lemma new_segment_simps [simp]:
  "sg_start (new_segment k) = k" "segment_ok (new_segment k)" "lookup_day (new_segment k) x = None"
  by (simp_all add: new_segment_def segment_ok_def lookup_day_def)

lemma new_segment_compared [simp]: "compared (new_segment k) e d = None"
  by (simp add: compared_def new_segment_def)

lemma day_order_simps [simp]:
  "set (day_order ds) = set ds" "distinct (map ud_date (day_order ds)) = distinct (map ud_date ds)"
  "day_order ds = [] \<longleftrightarrow> ds = []"
proof -
  have m: "mset (day_order ds) = mset ds" by (simp add: day_order_def)
  then show "set (day_order ds) = set ds" by (metis set_mset_mset)
  show "distinct (map ud_date (day_order ds)) = distinct (map ud_date ds)"
    using m by (metis mset_eq_imp_distinct_iff mset_map)
  show "day_order ds = [] \<longleftrightarrow> ds = []" using m by (metis mset_zero_iff)
qed

lemma saved:
  assumes "save_history h s = Inr h'" and "snap_days s \<noteq> []" and "history_ok h"
  obtains pre sg sg' where "h' = pre @ [sg']" and "write_days (range_end s) (day_order (snap_days s)) sg = Inr sg'"
    and "segment_ok sg" and "history_ok pre" and "validateDaily s"
    and "pre = butlast (opened_history h (day_order (snap_days s))) \<and> sg = last (opened_history h (day_order (snap_days s)))
        \<and> (\<forall>d \<in> set (snap_days s). \<not> resets_day sg (range_end s) d) \<and> \<not> incomplete sg (range_end s) (day_order (snap_days s))
      \<or> h \<noteq> [] \<and> pre = h \<and> (\<exists>r. sg = new_segment r \<and> r \<noteq> [] \<and> (\<exists>d \<in> set (snap_days s). resets_day (last h) (range_end s) d \<and> r = ud_date d)
          \<and> (\<forall>d \<in> set (snap_days s). resets_day (last h) (range_end s) d \<longrightarrow> r \<le> ud_date d))"
proof -
  let ?ds = "day_order (snap_days s)" let ?e = "range_end s" let ?h = "opened_history h ?ds"
  let ?r = "findResetDate (last ?h) ?e ?ds"
  have v: "validateDaily s" using assms(1) by (auto simp: save_history_def split: if_splits)
  then have dates: "\<forall>d \<in> set ?ds. ud_date d \<noteq> []" by (simp add: validateDaily_def list_all_iff)
  have ok: "history_ok ?h" "?h \<noteq> []" by (simp_all add: opened_ok assms(3))
  have h': "(if ?r = [] then if incomplete (last ?h) ?e ?ds then Inl ''daily usage snapshot is incomplete''
       else map_sum id (\<lambda>x. butlast ?h @ [x]) (write_days ?e ?ds (last ?h))
     else map_sum id (\<lambda>x. ?h @ [x]) (write_days ?e ?ds (new_segment ?r))) = Inr h'"
    using assms(1,2) v unfolding save_history_def Let_def opened_history_def [symmetric] by simp
  show thesis
  proof (cases "?r = []")
    case True
    then obtain sg' where w: "write_days ?e ?ds (last ?h) = Inr sg'" "h' = butlast ?h @ [sg']"
      and i: "\<not> incomplete (last ?h) ?e ?ds"
      using h' by (cases "write_days ?e ?ds (last ?h)") (simp_all split: if_splits)
    have "\<forall>d \<in> set (snap_days s). \<not> resets_day (last ?h) ?e d"
      using True reset_fold [OF dates, of "last ?h" ?e "[]"] by (simp add: findResetDate_def)
    then show thesis
      using w i v ok by (intro that [of "butlast ?h" sg' "last ?h"]) (simp_all add: last_ok butlast_ok)
  next
    case False
    then obtain sg' where w: "write_days ?e ?ds (new_segment ?r) = Inr sg'" "h' = ?h @ [sg']"
      using h' by (cases "write_days ?e ?ds (new_segment ?r)") simp_all
    have first: "(\<exists>d \<in> set ?ds. resets_day (last ?h) ?e d \<and> ?r = ud_date d) \<and> (\<forall>d \<in> set ?ds. resets_day (last ?h) ?e d \<longrightarrow> ?r \<le> ud_date d)"
      using reset_first [OF dates _ False, of "last ?h" ?e "[]"] False by (simp add: findResetDate_def)
    moreover have ne: "h \<noteq> []" using first by (auto simp: opened_history_def resets_day_def)
    ultimately show thesis
      using w v ok False by (intro that [of ?h sg' "new_segment ?r"]) (auto simp: opened_history_def)
  qed
qed

lemma save_history_ok:
  assumes "save_history h s = Inr h'" and "history_ok h"
  shows "history_ok h'"
proof (cases "snap_days s = []")
  case True
  then show ?thesis using assms by (auto simp: save_history_def split: if_splits)
next
  case False
  obtain pre sg sg' where r: "h' = pre @ [sg']" "write_days (range_end s) (day_order (snap_days s)) sg = Inr sg'"
    "segment_ok sg" "history_ok pre" "validateDaily s"
    using saved [OF assms(1) False assms(2)] by metis
  then show ?thesis
    using write_days_result(2) [OF r(2,3)] by (simp add: history_ok_def validateDaily_def)
qed

section \<open>What a save does\<close>

text \<open>
  A day shows no less than another: no counter, no known number of nano units, no cost of a
  currency and no model has become less or has gone.
\<close>

definition no_less :: "go_totals \<Rightarrow> go_totals \<Rightarrow> bool" where
  "no_less old cur \<longleftrightarrow> sint (gt_input old) \<le> sint (gt_input cur) \<and> sint (gt_output old) \<le> sint (gt_output cur)
     \<and> sint (gt_cache_read old) \<le> sint (gt_cache_read cur) \<and> sint (gt_cache_creation old) \<le> sint (gt_cache_creation cur)
     \<and> sint (gt_requests old) \<le> sint (gt_requests cur) \<and> sint (gt_tokens old) \<le> sint (gt_tokens cur)
     \<and> (\<forall>m. gt_nano_aiu old = Some m \<longrightarrow> (\<exists>n. gt_nano_aiu cur = Some n \<and> sint m \<le> sint n))
     \<and> (\<forall>c \<in> set (slice (gt_costs old)). \<exists>c' \<in> set (slice (gt_costs cur)).
          gc_currency c' = gc_currency c \<and> sint (gc_nanos c) \<le> sint (gc_nanos c'))"

definition shows_no_less :: "stored_day \<Rightarrow> snapshot_day \<Rightarrow> bool" where
  "shows_no_less st d \<longleftrightarrow> no_less (sd_totals st) (ud_totals d)
     \<and> (\<forall>m \<in> set (sd_models st). \<exists>m' \<in> set (ud_models d). gm_name m' = gm_name m \<and> no_less (gm_totals m) (gm_totals m'))"

lemma map_from_in: "map_from key xs k = Some x \<Longrightarrow> x \<in> set xs \<and> key x = k"
  by (auto simp: map_from_def dest!: map_of_SomeD)

lemma not_regressed:
  assumes "\<not> totalsRegressed old cur" and "\<not> unitsLost old cur"
    and "\<not> costsRegressed (slice (gt_costs old)) (slice (gt_costs cur))"
  shows "no_less old cur"
proof -
  have "\<exists>c' \<in> set (slice (gt_costs cur)). gc_currency c' = gc_currency c \<and> sint (gc_nanos c) \<le> sint (gc_nanos c')"
    if c: "c \<in> set (slice (gt_costs old))" for c
  proof -
    have "\<not> (case map_from gc_currency (slice (gt_costs cur)) (gc_currency c) of
        None \<Rightarrow> True | Some v \<Rightarrow> sint (gc_nanos v) < sint (gc_nanos c))"
      using assms(3) c unfolding costsRegressed_def list_ex_iff by blast
    then obtain v where "map_from gc_currency (slice (gt_costs cur)) (gc_currency c) = Some v"
      "\<not> sint (gc_nanos v) < sint (gc_nanos c)"
      by (cases "map_from gc_currency (slice (gt_costs cur)) (gc_currency c)") simp_all
    then show ?thesis using map_from_in [of gc_currency "slice (gt_costs cur)" "gc_currency c" v] leI by blast
  qed
  moreover have "\<exists>n. gt_nano_aiu cur = Some n \<and> sint m \<le> sint n" if "gt_nano_aiu old = Some m" for m
    using assms(1,2) that by (cases "gt_nano_aiu cur") (simp_all add: totalsRegressed_def unitsLost_def not_less)
  moreover have "sint (gt_input old) \<le> sint (gt_input cur)" "sint (gt_output old) \<le> sint (gt_output cur)"
    "sint (gt_cache_read old) \<le> sint (gt_cache_read cur)" "sint (gt_cache_creation old) \<le> sint (gt_cache_creation cur)"
    "sint (gt_requests old) \<le> sint (gt_requests cur)" "sint (gt_tokens old) \<le> sint (gt_tokens cur)"
    using assms(1) unfolding totalsRegressed_def by (simp_all only: de_Morgan_disj not_less)
  ultimately show ?thesis unfolding no_less_def by blast
qed

lemma accepted_no_less:
  assumes "\<not> snapshotReset st d" and "\<not> detailsRegressed st d"
  shows "shows_no_less st d"
proof -
  have "\<exists>m' \<in> set (ud_models d). gm_name m' = gm_name m \<and> no_less (gm_totals m) (gm_totals m')"
    if m: "m \<in> set (sd_models st)" for m
  proof -
    obtain v where v: "map_from gm_name (ud_models d) (gm_name m) = Some v"
      "\<not> totalsRegressed (gm_totals m) (gm_totals v)" "\<not> unitsLost (gm_totals m) (gm_totals v)"
      "\<not> costsRegressed (slice (gt_costs (gm_totals m))) (slice (gt_costs (gm_totals v)))"
      using assms(2) m by (fastforce simp: detailsRegressed_def list_ex_iff split: option.splits)
    then show ?thesis using map_from_in [OF v(1)] not_regressed by blast
  qed
  moreover have "no_less (sd_totals st) (ud_totals d)"
    using assms by (intro not_regressed) (auto simp: snapshotReset_def detailsRegressed_def)
  ultimately show ?thesis by (simp add: shows_no_less_def)
qed

text \<open>
  The days a segment has after a save, by their dates: that of the snapshot, when it is not before
  the start of the segment and what is stored is not newer, and otherwise what is stored.
\<close>

definition day_of :: "snapshot \<Rightarrow> string \<Rightarrow> snapshot_day option" where
  "day_of s k = find (\<lambda>d. ud_date d = k) (snap_days s)"

definition updated_day :: "snapshot \<Rightarrow> string \<Rightarrow> (string \<Rightarrow> stored_day option) \<Rightarrow> string \<Rightarrow> stored_day option" where
  "updated_day s start old k = (case day_of s k of None \<Rightarrow> old k
     | Some d \<Rightarrow> if k < start then old k
         else (case old k of None \<Rightarrow> Some (stored_row (range_end s) d)
           | Some st \<Rightarrow> if range_end s < sd_snapshot st then Some st else Some (stored_row (range_end s) d)))"

definition begins_anew :: "snapshot \<Rightarrow> segment \<Rightarrow> string \<Rightarrow> bool" where
  "begins_anew s sg start \<longleftrightarrow> (\<exists>d \<in> set (snap_days s). resets_day sg (range_end s) d \<and> start = ud_date d)
     \<and> (\<forall>d \<in> set (snap_days s). resets_day sg (range_end s) d \<longrightarrow> start \<le> ud_date d)"

text \<open>The days that were not over when they were stored, and are not stored from a newer snapshot.\<close>

definition open_days :: "int \<Rightarrow> segment \<Rightarrow> stored_day set" where
  "open_days e sg = {st \<in> set (sg_days sg). sd_end st = sd_snapshot st \<and> sd_snapshot st \<le> e \<and> \<not> sd_date st < sg_start sg}"

definition save_effect :: "snapshot \<Rightarrow> history \<Rightarrow> history \<Rightarrow> bool" where
  "save_effect s h h' \<longleftrightarrow>
     (if snap_days s = [] then h' = h
      else if h \<noteq> [] \<and> (\<exists>d \<in> set (snap_days s). resets_day (last h) (range_end s) d)
      then \<exists>sg. h' = h @ [sg] \<and> begins_anew s (last h) (sg_start sg)
        \<and> lookup_day sg = updated_day s (sg_start sg) (\<lambda>_. None)
      else \<exists>sg. h' = butlast h @ [sg]
        \<and> sg_start sg = (if h = [] then ud_date (hd (day_order (snap_days s))) else sg_start (last h))
        \<and> lookup_day sg = updated_day s (sg_start sg) (if h = [] then \<lambda>_. None else lookup_day (last h))
        \<and> (h \<noteq> [] \<longrightarrow> (\<forall>st \<in> open_days (range_end s) (last h). \<forall>d \<in> set (snap_days s).
             ud_date d = sd_date st \<longrightarrow> shows_no_less st d)))"

lemma written_days:
  assumes "write_days (range_end s) (day_order (snap_days s)) sg = Inr sg'" and "segment_ok sg"
    and dist: "distinct (map ud_date (snap_days s))"
  shows "sg_start sg' = sg_start sg" and "lookup_day sg' = updated_day s (sg_start sg) (lookup_day sg)"
proof -
  have d: "distinct (map ud_date (day_order (snap_days s)))" using dist by simp
  note r = write_days_result [OF assms(1,2) d]
  have same: "find (\<lambda>d. ud_date d = k) (day_order (snap_days s)) = day_of s k" for k
  proof (cases "day_of s k")
    case None
    then have "find (\<lambda>d. ud_date d = k) (day_order (snap_days s)) = None" by (simp add: find_None_iff day_of_def)
    then show ?thesis using None by simp
  next
    case (Some x)
    then have "x \<in> set (day_order (snap_days s))" "ud_date x = k" 
      by (auto simp: day_of_def dest: find_found)
    then show ?thesis using find_key [OF d] Some by metis
  qed
  show "sg_start sg' = sg_start sg" by (rule r(1))
  show "lookup_day sg' = updated_day s (sg_start sg) (lookup_day sg)"
    by (rule ext) (simp add: r(3) same updated_day_def written_day_def split: option.split)
qed

lemma save_acts:
  assumes "save_history h s = Inr h'" and "history_ok h"
  shows "save_effect s h h'"
proof (cases "snap_days s = []")
  case True
  then show ?thesis using assms by (auto simp: save_history_def save_effect_def split: if_splits)
next
  case False
  let ?ds = "day_order (snap_days s)" let ?e = "range_end s"
  show ?thesis
  proof (rule saved [OF assms(1) False assms(2)])
    fix pre sg sg'
    assume r: "h' = pre @ [sg']" "write_days ?e ?ds sg = Inr sg'" "segment_ok sg" "validateDaily s"
      and c: "pre = butlast (opened_history h ?ds) \<and> sg = last (opened_history h ?ds)
          \<and> (\<forall>d \<in> set (snap_days s). \<not> resets_day sg ?e d) \<and> \<not> incomplete sg ?e ?ds
        \<or> h \<noteq> [] \<and> pre = h \<and> (\<exists>r. sg = new_segment r \<and> r \<noteq> []
            \<and> (\<exists>d \<in> set (snap_days s). resets_day (last h) ?e d \<and> r = ud_date d)
            \<and> (\<forall>d \<in> set (snap_days s). resets_day (last h) ?e d \<longrightarrow> r \<le> ud_date d))"
    have dist: "distinct (map ud_date (snap_days s))" using r(4) by (simp add: validateDaily_def)
    note w = written_days [OF r(2,3) dist]
    have none: "lookup_day (new_segment k) = (\<lambda>_. None)" for k by (rule ext) simp
    from c show ?thesis
    proof (elim disjE conjE exE)
      assume k: "pre = butlast (opened_history h ?ds)" "sg = last (opened_history h ?ds)"
        "\<forall>d \<in> set (snap_days s). \<not> resets_day sg ?e d" "\<not> incomplete sg ?e ?ds"
      have "shows_no_less st d" if st: "st \<in> open_days ?e sg" and d: "d \<in> set (snap_days s)" "ud_date d = sd_date st" for st d
      proof -
        have "compared sg ?e d = Some st"
          using st d(2) lookup_in [OF r(3), of st] by (simp add: compared_lookup [OF r(3)] open_days_def)
        then show ?thesis using k(3,4) d(1) by (intro accepted_no_less) (auto simp: resets_day_def incomplete_def list_ex_iff)
      qed
      then show ?thesis using r(1) k(1-3) w False
        by (cases "h = []") (auto simp: save_effect_def opened_history_def none)
    next
      fix k
      assume "h \<noteq> []" "pre = h" "sg = new_segment k"
        "\<exists>d \<in> set (snap_days s). resets_day (last h) ?e d \<and> k = ud_date d"
        "\<forall>d \<in> set (snap_days s). resets_day (last h) ?e d \<longrightarrow> k \<le> ud_date d"
      then show ?thesis using \<open>h' = pre @ [sg']\<close> w False by (auto simp: save_effect_def begins_anew_def none)
    qed
  qed
qed

section \<open>Saving twice\<close>

lemma map_from_key: "distinct (map key xs) \<Longrightarrow> x \<in> set xs \<Longrightarrow> map_from key xs (key x) = Some x"
  by (simp add: map_from_def rev_map [symmetric] o_def map_of_eq_Some_iff flip: rev_map)

lemma costs_same: "distinct (map gc_currency cs) \<Longrightarrow> \<not> costsRegressed (map forget_amount cs) cs"
  by (auto simp: costsRegressed_def list_ex_iff forget_amount_def map_from_key)

lemma totals_same: "\<not> totalsRegressed (row_totals t) t" "\<not> unitsLost (row_totals t) t"
  by (auto simp: totalsRegressed_def unitsLost_def row_totals_def split: option.split)

lemma model_error_None:
  "model_error seen ms = None \<longleftrightarrow> distinct (map gm_name ms) \<and> seen \<inter> gm_name ` set ms = {}
     \<and> (\<forall>m \<in> set ms. distinct (cost_keys (gm_totals m)))"
  by (induction seen ms rule: model_error.induct) auto

text \<open>A day is not a reset or a loss of itself.\<close>

lemma row_same:
  assumes "row_error d = None"
  shows "\<not> snapshotReset (stored_row e d) d" and "\<not> detailsRegressed (stored_row e d) d"
proof -
  have e: "distinct (cost_keys (ud_totals d))" "model_error {} (ud_models d) = None"
    using assms by (auto simp: row_error_def split: if_splits)
  then have m: "distinct (map gm_name (ud_models d))" "\<forall>m \<in> set (ud_models d). distinct (cost_keys (gm_totals m))"
    by (simp_all add: model_error_None)
  have rc: "slice (gt_costs (row_totals t)) = map forget_amount (slice (gt_costs t))" for t
    by (simp add: row_totals_def)
  show "\<not> snapshotReset (stored_row e d) d" by (simp add: snapshotReset_def totals_same)
  show "\<not> detailsRegressed (stored_row e d) d"
    using e(1) m by (auto simp: detailsRegressed_def totals_same rc costs_same cost_keys_def list_ex_iff row_model_def map_from_key)
qed

lemma rewrite_same:
  assumes "segment_ok sg" and "\<forall>d \<in> set ds. \<not> ud_date d < sg_start sg \<longrightarrow>
    (\<exists>st. lookup_day sg (ud_date d) = Some st \<and> (e < sd_snapshot st \<or> st = stored_row e d \<and> row_error d = None))"
  shows "write_days e ds sg = Inr sg"
  using assms(2)
proof (induction ds)
  case (Cons d ds)
  have "replaceDay e d sg = Inr sg" if late: "\<not> ud_date d < sg_start sg"
  proof -
    obtain st where st: "lookup_day sg (ud_date d) = Some st" "e < sd_snapshot st \<or> st = stored_row e d \<and> row_error d = None"
      using Cons.prems late by auto
    have "(if sd_date x = ud_date d then stored_row e d else x) = x" if "x \<in> set (sg_days sg)" "st = stored_row e d" for x
      using lookup_in [OF assms(1) that(1)] st(1) that(2) by auto
    then have "st = stored_row e d \<Longrightarrow> map (\<lambda>x. if sd_date x = ud_date d then stored_row e d else x) (sg_days sg) = sg_days sg"
      by (simp cong: map_cong add: map_idI)
    then show ?thesis using st by (auto simp: replaceDay_def lookup_day_def)
  qed
  then show ?case using Cons by simp
qed simp

lemma save_twice:
  assumes "save_history h s = Inr h'" and "history_ok h"
  shows "save_history h' s = Inr h'"
proof (cases "snap_days s = []")
  case True
  then show ?thesis using assms by (auto simp: save_history_def split: if_splits)
next
  case False
  let ?ds = "day_order (snap_days s)" let ?e = "range_end s"
  obtain pre sg sg' where h': "h' = pre @ [sg']" and w: "write_days ?e ?ds sg = Inr sg'"
    and ok: "segment_ok sg" and v: "validateDaily s"
    using saved [OF assms(1) False assms(2)] by metis
  then have dist: "distinct (map ud_date ?ds)" by (simp add: validateDaily_def)
  note r = write_days_result [OF w ok dist]
  have there: "lookup_day sg' (ud_date d) = Some (written_day ?e d (lookup_day sg (ud_date d)))
      \<and> (written_day ?e d (lookup_day sg (ud_date d)) = stored_row ?e d \<longrightarrow> row_error d = None)"
    if d: "d \<in> set ?ds" "\<not> ud_date d < sg_start sg'" for d
  proof -
    have "find (\<lambda>x. ud_date x = ud_date d) ?ds = Some d"
      by (rule find_key [OF dist d(1)])
    then show ?thesis using r(1) r(3) [of "ud_date d"] r(4) [OF d(1)] d(2) by simp
  qed
  have newer: "e < sd_snapshot st \<or> st = stored_row e d" if "st = written_day e d old" for e d st old
    using that by (auto simp: written_day_def split: option.splits)
  have same: "\<exists>st. lookup_day sg' (ud_date d) = Some st \<and> (?e < sd_snapshot st \<or> st = stored_row ?e d \<and> row_error d = None)"
    if "d \<in> set ?ds" "\<not> ud_date d < sg_start sg'" for d
    using there [OF that] newer by metis
  have none: "compared sg' ?e d = Some st \<Longrightarrow> d \<in> set ?ds \<Longrightarrow> st = stored_row ?e d \<and> row_error d = None" for d st
    using same [of d] by (auto simp: compared_lookup [OF r(2)])
  have "\<not> resets_day sg' ?e d" if "d \<in> set ?ds" for d
    using none [of d] that row_same(1) by (auto simp: resets_day_def)
  moreover have "\<forall>d \<in> set ?ds. ud_date d \<noteq> []" using v by (simp add: validateDaily_def list_all_iff)
  ultimately have "findResetDate sg' ?e ?ds = []" by (simp add: findResetDate_def reset_fold)
  moreover have "\<not> incomplete sg' ?e ?ds"
    using none row_same(2) by (auto simp: incomplete_def list_ex_iff split: option.splits)
  moreover have "write_days ?e ?ds sg' = Inr sg'" using same by (intro rewrite_same [OF r(2)]) blast
  ultimately show ?thesis using v False by (simp add: save_history_def Let_def h')
qed

end
