(* ===== verification/History_Load.thy ===== *)
theory History_Load
  imports History_Kept
begin

text \<open>
  Loading what was saved: with an empty history, the days of a snapshot in normal form come
  back as they were, those of the period, in the order of their dates.
\<close>

section \<open>Rows with distinct keys\<close>

lemma upsert_fresh: "k \<notin> key ` set xs \<Longrightarrow> upsert key k b f xs = xs @ [f b]"
  by (induction xs) auto

lemma fold_upsert_fresh:
  assumes "\<And>r. key (f r (b r)) = k r" and "distinct (map k rows)" and "key ` set xs \<inter> k ` set rows = {}"
  shows "fold (\<lambda>r. upsert key (k r) (b r) (f r)) rows xs = xs @ map (\<lambda>r. f r (b r)) rows"
  using assms(2,3)
proof (induction rows arbitrary: xs)
  case (Cons r rows)
  then show ?case by (auto simp: upsert_fresh assms(1) image_iff)
qed simp

lemma filter_key: "distinct (map key xs) \<Longrightarrow> x \<in> set xs \<Longrightarrow> filter (\<lambda>y. key y = key x) xs = [x]"
proof (induction xs)
  case (Cons a xs)
  have "filter (\<lambda>y. key y = key a) xs = []" using Cons.prems(1) by (auto simp: filter_empty_conv image_iff)
  then show ?case using Cons by auto
qed simp

lemma sort_key_map: "sort_key f (map g xs) = map g (sort_key (\<lambda>x. f (g x)) xs)"
proof -
  have "insort_key f (g x) (map g ys) = map g (insort_key (\<lambda>x. f (g x)) x ys)" for x ys
    by (induction ys) simp_all
  then show ?thesis by (induction xs) simp_all
qed

lemma sort_key_id: "sorted (map k xs) \<Longrightarrow> sort_key k xs = xs"
  by (simp add: sort_key_id_if_sorted)

section \<open>Costs\<close>

lemma forget_simps [simp]: "gc_currency (forget_amount c) = gc_currency c" "gc_nanos (forget_amount c) = gc_nanos c"
  by (simp_all add: forget_amount_def)

lemma load_costs_normal:
  assumes "sorted (map gc_currency cs)" and "distinct (map gc_currency cs)" and "\<forall>c \<in> set cs. priced c"
  shows "load_costs (map forget_amount cs) = cs"
proof -
  have c: "map gc_currency (map forget_amount cs) = map gc_currency cs" by simp
  have "fold (\<lambda>c. upsert gc_currency (gc_currency c) (blank_cost (gc_currency c)) (raise_cost (gc_nanos c))) (map forget_amount cs) []
      = map (\<lambda>c. raise_cost (gc_nanos c) (blank_cost (gc_currency c))) (map forget_amount cs)"
    using assms(2) by (subst fold_upsert_fresh) (simp_all add: o_def)
  also have "\<dots> = cs"
    using assms(3) by (auto simp: priced_def raise_cost_def blank_cost_def intro!: map_idI)
  finally have "fold add_cost (map forget_amount cs) [] = cs" by (simp add: add_cost_def [abs_def])
  moreover have "sort_key gc_currency (map forget_amount cs) = map forget_amount cs"
    using assms(1) c by (intro sort_key_id) (simp del: map_map)
  ultimately show ?thesis using assms(1) by (simp add: load_costs_def sort_key_id)
qed

lemma load_costs_totals:
  "normal t \<Longrightarrow> Some (load_costs (slice (gt_costs (row_totals t)))) = gt_costs t"
  by (auto simp: normal_def row_totals_def load_costs_normal)

lemma addStored_blank:
  "gt_costs t \<noteq> None \<Longrightarrow> (addStoredTotals z (row_totals t))\<lparr>gt_costs := gt_costs t\<rparr> = t"
  if "z = zero_totals \<or> z = empty_totals"
  using that by (auto simp: addStoredTotals_def row_totals_def zero_totals_def empty_totals_def split: option.split)

section \<open>Models and days\<close>

lemma row_model_simps [simp]: "gm_name (row_model m) = gm_name m" "gm_totals (row_model m) = row_totals (gm_totals m)"
  by (simp_all add: row_model_def)

lemma load_models_normal:
  assumes "models_normal ms"
  shows "load_models (map row_model ms) = ms"
proof -
  have s: "sorted (map gm_name ms)" "distinct (map gm_name ms)" "\<And>m. m \<in> set ms \<Longrightarrow> normal (gm_totals m)"
    using assms by (simp_all add: models_normal_def)
  let ?add = "\<lambda>r m. m\<lparr>gm_totals := addStoredTotals (gm_totals m) (gm_totals r)\<rparr>"
  let ?costs = "\<lambda>rows m. m\<lparr>gm_totals := (gm_totals m)\<lparr>gt_costs := Some (load_costs
          (concat (map (\<lambda>r. slice (gt_costs (gm_totals r))) (filter (\<lambda>r. gm_name r = gm_name m) rows))))\<rparr>\<rparr>"
  have "map gm_name (map row_model ms) = map gm_name ms" by simp
  then have "sort_key gm_name (map row_model ms) = map row_model ms"
    using s(1) by (intro sort_key_id) (simp del: map_map)
  moreover have "fold (\<lambda>r. upsert gm_name (gm_name r) (blank_model (gm_name r)) (?add r)) (map row_model ms) []
      = map (\<lambda>m. ?add (row_model m) (blank_model (gm_name m))) ms"
    using s(2) by (subst fold_upsert_fresh) (simp_all add: o_def)
  moreover have "?costs (map row_model ms) (?add (row_model m) (blank_model (gm_name m))) = m" if m: "m \<in> set ms" for m
  proof -
    have "filter (\<lambda>r. gm_name r = gm_name m) (map row_model ms) = [row_model m]"
      using filter_key [OF s(2) m] by (simp add: filter_map o_def)
    then show ?thesis
      using load_costs_totals [OF s(3) [OF m]] addStored_blank [of zero_totals "gm_totals m"] s(3) [OF m]
      by (simp add: blank_model_def normal_def)
  qed
  ultimately have "load_models (map row_model ms) = sort_key gm_name ms"
    by (simp add: load_models_def map_idI del: map_map) (simp add: map_idI)
  then show ?thesis using s(1) by (simp add: sort_key_id)
qed

definition day_normal :: "snapshot_day \<Rightarrow> bool" where
  "day_normal d \<longleftrightarrow> normal (ud_totals d) \<and> models_normal (ud_models d)"

lemma load_details_row:
  assumes "day_normal d" and "filter (\<lambda>r. sd_date r = ud_date d) rows = [stored_row e d]"
  shows "load_details rows (raise_loaded (stored_row e d) (blank_loaded (stored_row e d))) = d"
proof -
  have n: "normal (ud_totals d)" "models_normal (ud_models d)" using assms(1) by (simp_all add: day_normal_def)
  have "filter (\<lambda>r. sd_date r = ud_date (raise_loaded (stored_row e d) (blank_loaded (stored_row e d)))) rows = [stored_row e d]"
    using assms(2) by (simp add: raise_loaded_def blank_loaded_def)
  then show ?thesis
    using load_costs_totals [OF n(1)] load_models_normal [OF n(2)] addStored_blank [of empty_totals "ud_totals d"] n(1)
    by (simp add: load_details_def Let_def raise_loaded_def blank_loaded_def normal_def)
qed

section \<open>Saving into an empty history\<close>

lemma row_error_normal: "day_normal d \<Longrightarrow> row_error d = None"
  by (simp add: day_normal_def models_normal_def normal_def row_error_def model_error_None cost_keys_def)

lemma write_all:
  assumes "\<forall>d \<in> set ds. row_error d = None \<and> \<not> ud_date d < sg_start sg" and "distinct (map ud_date ds)"
    and "ud_date ` set ds \<inter> sd_date ` set (sg_days sg) = {}"
  shows "write_days e ds sg = Inr (sg\<lparr>sg_days := sg_days sg @ map (stored_row e) ds\<rparr>)"
  using assms
proof (induction ds arbitrary: sg)
  case (Cons d ds)
  have "find (\<lambda>st. sd_date st = ud_date d) (sg_days sg) = None"
    using Cons.prems(3) by (simp add: find_None_iff) (metis image_eqI)
  then have "replaceDay e d sg = Inr (sg\<lparr>sg_days := sg_days sg @ [stored_row e d]\<rparr>)"
    using Cons.prems(1) by (simp add: replaceDay_def)
  moreover have "write_days e ds (sg\<lparr>sg_days := sg_days sg @ [stored_row e d]\<rparr>)
      = Inr (sg\<lparr>sg_days := sg_days sg @ map (stored_row e) (d # ds)\<rparr>)"
    using Cons.prems by (subst Cons.IH) auto
  ultimately show ?case using Cons.prems(1) by simp
qed simp

lemma save_first:
  assumes "validateDaily s" and "snap_days s \<noteq> []" and "\<forall>d \<in> set (snap_days s). day_normal d"
    and "\<forall>d \<in> set (snap_days s). ud_date (hd (day_order (snap_days s))) \<le> ud_date d"
  shows "save_history [] s = Inr [\<lparr>sg_start = ud_date (hd (day_order (snap_days s))),
    sg_days = map (stored_row (range_end s)) (day_order (snap_days s))\<rparr>]"
proof -
  let ?ds = "day_order (snap_days s)" let ?sg = "new_segment (ud_date (hd (day_order (snap_days s))))"
  have "fold (reset_step ?sg (range_end s)) ds [] = []" for ds
    by (induction ds) (simp_all add: reset_step_def)
  then have "findResetDate ?sg (range_end s) ?ds = []" by (simp add: findResetDate_def)
  moreover have "\<not> incomplete ?sg (range_end s) ?ds" by (simp add: incomplete_def list_ex_iff)
  moreover have "write_days (range_end s) ?ds ?sg = Inr (?sg\<lparr>sg_days := map (stored_row (range_end s)) ?ds\<rparr>)"
    using assms(1,3,4)
    by (subst write_all) (auto simp: row_error_normal validateDaily_def not_less new_segment_def)
  ultimately show ?thesis using assms(1,2) by (simp add: save_history_def Let_def new_segment_def)
qed

text \<open>Loading a segment of written days.\<close>

lemma load_written:
  assumes "\<forall>d \<in> set ds. day_normal d" and "distinct (map ud_date ds)"
  shows "loadDays lo hi [\<lparr>sg_start = k, sg_days = map (stored_row e) ds\<rparr>]
    = filter (\<lambda>d. lo \<le> start_ms d \<and> start_ms d < hi) (sort_key ud_date ds)"
proof -
  let ?in = "\<lambda>d. lo \<le> start_ms d \<and> start_ms d < hi"
  let ?ds = "filter ?in (sort_key ud_date ds)"
  have map_sort: "sort_key sd_date (map (stored_row e) xs) = map (stored_row e) (sort_key ud_date xs)" for xs
    by (simp add: sort_key_map)
  have dist: "distinct (map ud_date ?ds)"
    using assms(2) by (simp add: distinct_map_filter sort_key_sorted_distinct)
  have rows: "period_rows lo hi [\<lparr>sg_start = k, sg_days = map (stored_row e) ds\<rparr>] = map (stored_row e) ?ds"
    by (simp add: period_rows_def filter_map o_def map_sort filter_sort)
  have "fold (\<lambda>r. upsert ud_date (sd_date r) (blank_loaded r) (raise_loaded r)) (map (stored_row e) ?ds) []
      = map (\<lambda>d. raise_loaded (stored_row e d) (blank_loaded (stored_row e d))) ?ds"
    using dist by (subst fold_upsert_fresh) (simp_all add: o_def raise_loaded_def blank_loaded_def)
  moreover have "load_details (map (stored_row e) ?ds) (raise_loaded (stored_row e d) (blank_loaded (stored_row e d))) = d"
    if d: "d \<in> set ?ds" for d
    using assms(1) d filter_key [OF dist d] by (intro load_details_row) (auto simp: filter_map o_def)
  ultimately show ?thesis
    unfolding loadDays_def rows Let_def by (simp add: o_def) (rule map_idI, simp)
qed

lemma load_saved:
  assumes "validateDaily s" and "\<forall>d \<in> set (snap_days s). day_normal d"
    and "\<forall>d \<in> set (snap_days s). ud_date (hd (day_order (snap_days s))) \<le> ud_date d"
  shows "\<exists>h. save_history [] s = Inr h
    \<and> (\<forall>lo hi. loadDays lo hi h = filter (\<lambda>d. lo \<le> start_ms d \<and> start_ms d < hi) (sort_key ud_date (snap_days s)))"
proof (cases "snap_days s = []")
  case True
  then show ?thesis using assms(1) by (simp add: save_history_def loadDays_def period_rows_def)
next
  case False
  have dist: "distinct (map ud_date (snap_days s))" using assms(1) by (simp add: validateDaily_def)
  have "sort_key ud_date (day_order (snap_days s)) = sort_key ud_date (snap_days s)"
    using dist by (intro sorted_key_unique [of ud_date]) (simp_all add: sort_key_sorted_distinct)
  then show ?thesis
    using save_first [OF assms(1) False assms(2,3)] load_written [of "day_order (snap_days s)"] assms(2) dist
    by simp
qed

end
