(* ===== verification/Store.thy ===== *)
theory Store
  imports History_Load Days
begin

text \<open>
  The store of the usage of all accounts (\<open>internal/store/sqlite/store.go\<close>): which source and
  account a name, an address and a login belong to, and saving and loading their history. Rows
  of a table are a list in the order of their ids; columns no code reads (the key of a source and
  the times rows were seen) are left out. The database itself never fails here.
\<close>

record source_row =
  so_id :: nat
  so_type :: string
  so_name :: string
  so_url :: string

record stored_account =
  ac_source :: nat
  ac_key :: string
  ac_login :: string
  ac_history :: history

record database =
  db_sources :: "source_row list"
  db_accounts :: "stored_account list"

section \<open>Accounts\<close>

definition ambiguous :: string where
  "ambiguous = ''persisted source identity is ambiguous''"

definition other_than :: "nat option \<Rightarrow> nat \<Rightarrow> bool" where
  "other_than found i \<longleftrightarrow> (case found of None \<Rightarrow> False | Some j \<Rightarrow> j \<noteq> i)"

text \<open>The loop over the rows with the name or the address, and what it has found of each.\<close>

fun scan_sources :: "string \<Rightarrow> string \<Rightarrow> source_row list \<Rightarrow> nat option \<Rightarrow> nat option
    \<Rightarrow> string + nat option \<times> nat option" where
  "scan_sources name url [] n u = Inr (n, u)"
| "scan_sources name url (r # rs) n u =
     (if so_name r \<noteq> name \<and> so_url r \<noteq> url then scan_sources name url rs n u
      else if so_name r = name \<and> other_than n (so_id r) then Inl ambiguous
      else if so_url r = url \<and> other_than u (so_id r) then Inl ambiguous
      else scan_sources name url rs (if so_name r = name then Some (so_id r) else n)
        (if so_url r = url then Some (so_id r) else u))"

definition resolveSourceID :: "database \<Rightarrow> string \<Rightarrow> string \<Rightarrow> string + nat option" where
  "resolveSourceID db name url = (case scan_sources name url (db_sources db) None None of
     Inl m \<Rightarrow> Inl m
   | Inr (Some i, Some j) \<Rightarrow> if i \<noteq> j then Inl ambiguous else Inr (Some i)
   | Inr (Some i, None) \<Rightarrow> Inr (Some i)
   | Inr (None, u) \<Rightarrow> Inr u)"

text \<open>SQLite's choice of an id for a new row: one more than the greatest.\<close>

definition fresh_id :: "source_row list \<Rightarrow> nat" where
  "fresh_id rs = Suc (fold (\<lambda>r. max (so_id r)) rs 0)"

definition put_source :: "nat option \<Rightarrow> string \<Rightarrow> string \<Rightarrow> string \<Rightarrow> source_row list \<Rightarrow> nat \<times> source_row list" where
  "put_source found typ name url rs = (case found of
     Some i \<Rightarrow> (i, map (\<lambda>r. if so_id r = i then r\<lparr>so_type := typ, so_name := name, so_url := url\<rparr> else r) rs)
   | None \<Rightarrow> (fresh_id rs, rs @ [\<lparr>so_id = fresh_id rs, so_type = typ, so_name = name, so_url = url\<rparr>]))"

definition account_id :: "stored_account \<Rightarrow> nat \<times> string" where
  "account_id a = (ac_source a, ac_key a)"

definition put_account :: "nat \<Rightarrow> string \<Rightarrow> stored_account list \<Rightarrow> stored_account list" where
  "put_account i login as =
     upsert account_id (i, to_lower login)
       \<lparr>ac_source = i, ac_key = to_lower login, ac_login = login, ac_history = []\<rparr> (\<lambda>a. a\<lparr>ac_login := login\<rparr>) as"

definition persistAccount :: "string \<Rightarrow> string \<Rightarrow> string \<Rightarrow> string \<Rightarrow> database
    \<Rightarrow> string + (nat \<times> string) \<times> database" where
  "persistAccount typ name url login db = (case resolveSourceID db name url of
     Inl m \<Rightarrow> Inl m
   | Inr found \<Rightarrow> (let (i, rs) = put_source found typ name url (db_sources db)
       in Inr ((i, to_lower login), \<lparr>db_sources = rs, db_accounts = put_account i login (db_accounts db)\<rparr>)))"

section \<open>Saving and loading\<close>

definition stored_history :: "database \<Rightarrow> nat \<times> string \<Rightarrow> history option" where
  "stored_history db k = map_option ac_history (find (\<lambda>a. account_id a = k) (db_accounts db))"

definition set_history :: "nat \<times> string \<Rightarrow> history \<Rightarrow> database \<Rightarrow> database" where
  "set_history k h db = db\<lparr>db_accounts := map (\<lambda>a. if account_id a = k then a\<lparr>ac_history := h\<rparr> else a) (db_accounts db)\<rparr>"

definition SaveDaily :: "string \<Rightarrow> string \<Rightarrow> string \<Rightarrow> string \<Rightarrow> snapshot \<Rightarrow> database \<Rightarrow> string + database" where
  "SaveDaily typ name url login s db =
     (if \<not> validateDaily s then Inl ''invalid daily usage snapshot''
      else (case persistAccount typ name url login db of
        Inl m \<Rightarrow> Inl m
      | Inr (k, db1) \<Rightarrow> (case stored_history db1 k of
          None \<Rightarrow> Inl ''cannot resolve persisted account''
        | Some h \<Rightarrow> map_sum id (\<lambda>h'. set_history k h' db1) (save_history h s))))"

text \<open>\<open>midnight\<close> is the time in milliseconds at which a date starts at the service's location.\<close>

definition periodStart :: "(date \<Rightarrow> int) \<Rightarrow> string \<Rightarrow> clock \<Rightarrow> int" where
  "periodStart midnight period now = (let today = clock_date now in
     if period = ''lifetime'' then 0
     else midnight (
       if period = ''this_week'' then add_days (- ((clock_weekday now + 6) mod 7)) today
       else if period = ''last_7_days'' then add_days (- 6) today
       else if period = ''this_month'' then month_start today
       else if period = ''last_30_days'' then add_days (- 29) today
       else today))"

text \<open>The days of a period up to now, or \<open>None\<close> when the account is not in the store.\<close>

definition LoadDaily :: "(date \<Rightarrow> int) \<Rightarrow> clock \<Rightarrow> int \<Rightarrow> string \<Rightarrow> string \<Rightarrow> string \<Rightarrow> string \<Rightarrow> database
    \<Rightarrow> string + snapshot_day list option" where
  "LoadDaily midnight now now_ms name url login period db = (case resolveSourceID db name url of
     Inl m \<Rightarrow> Inl m
   | Inr None \<Rightarrow> Inr None
   | Inr (Some i) \<Rightarrow> Inr (map_option (loadDays (periodStart midnight period now) (now_ms + 1))
       (stored_history db (i, to_lower login))))"

end
