(* ===== verification/Store_Facts.thy ===== *)
theory Store_Facts
  imports Store
begin

text \<open>
  The identities of sources and accounts: saving keeps names, addresses and accounts unique, and
  leaves the other accounts alone.
\<close>

section \<open>A well-formed store\<close>

definition sources_ok :: "source_row list \<Rightarrow> bool" where
  "sources_ok rs \<longleftrightarrow> distinct (map so_id rs) \<and> distinct (map so_name rs) \<and> distinct (map so_url rs)"

definition database_ok :: "database \<Rightarrow> bool" where
  "database_ok db \<longleftrightarrow> sources_ok (db_sources db) \<and> distinct (map account_id (db_accounts db))
     \<and> (\<forall>a \<in> set (db_accounts db). ac_source a \<in> so_id ` set (db_sources db) \<and> history_ok (ac_history a))"

definition id_of :: "(source_row \<Rightarrow> string) \<Rightarrow> string \<Rightarrow> source_row list \<Rightarrow> nat option" where
  "id_of f k rs = map_option so_id (find (\<lambda>r. f r = k) rs)"

lemma id_of_simps [simp]:
  "id_of f k [] = None" "id_of f k (r # rs) = (if f r = k then Some (so_id r) else id_of f k rs)"
  by (simp_all add: id_of_def)

lemma id_of_None: "id_of f k rs = None \<longleftrightarrow> k \<notin> f ` set rs"
  by (induction rs) auto

lemma id_of_Some: "id_of f k rs = Some i \<Longrightarrow> \<exists>r \<in> set rs. f r = k \<and> so_id r = i"
  by (induction rs) (auto split: if_splits)

lemma id_of_in: "distinct (map f rs) \<Longrightarrow> r \<in> set rs \<Longrightarrow> id_of f (f r) rs = Some (so_id r)"
  by (induction rs) (auto simp: image_iff)

text \<open>With unique names and addresses the loop finds the two ids, and is never ambiguous.\<close>

lemma scan_result:
  assumes "distinct (map so_name rs)" and "distinct (map so_url rs)"
    and "n = None \<or> name \<notin> so_name ` set rs" and "u = None \<or> url \<notin> so_url ` set rs"
  shows "scan_sources name url rs n u = Inr (case id_of so_name name rs of None \<Rightarrow> n | s \<Rightarrow> s,
    case id_of so_url url rs of None \<Rightarrow> u | s \<Rightarrow> s)"
  using assms
proof (induction name url rs n u rule: scan_sources.induct)
  case (2 name url r rs n u)
  have "so_name r = name \<Longrightarrow> n = None" "so_url r = url \<Longrightarrow> u = None"
    and no: "so_name r = name \<Longrightarrow> id_of so_name name rs = None" "so_url r = url \<Longrightarrow> id_of so_url url rs = None"
    using "2.prems" by (auto simp: id_of_None)
  then have o: "so_name r = name \<Longrightarrow> \<not> other_than n (so_id r)" "so_url r = url \<Longrightarrow> \<not> other_than u (so_id r)"
    by (simp_all add: other_than_def)
  show ?case
  proof (cases "so_name r \<noteq> name \<and> so_url r \<noteq> url")
    case True
    then show ?thesis using "2.IH"(1) "2.prems" by auto
  next
    case False
    then have "scan_sources name url (r # rs) n u = scan_sources name url rs
        (if so_name r = name then Some (so_id r) else n) (if so_url r = url then Some (so_id r) else u)"
      using o by auto
    also have "\<dots> = Inr (case id_of so_name name rs of None \<Rightarrow> (if so_name r = name then Some (so_id r) else n) | s \<Rightarrow> s,
        case id_of so_url url rs of None \<Rightarrow> (if so_url r = url then Some (so_id r) else u) | s \<Rightarrow> s)"
      using o False "2.prems" by (intro "2.IH"(2)) auto
    finally show ?thesis using no by simp
  qed
qed simp

definition clash :: "source_row list \<Rightarrow> string \<Rightarrow> string \<Rightarrow> bool" where
  "clash rs name url \<longleftrightarrow> (\<exists>r \<in> set rs. \<exists>q \<in> set rs. so_name r = name \<and> so_url q = url \<and> so_id r \<noteq> so_id q)"

lemma resolve_result:
  assumes "sources_ok (db_sources db)"
  shows "resolveSourceID db name url = (if clash (db_sources db) name url then Inl ambiguous
    else Inr (case id_of so_name name (db_sources db) of None \<Rightarrow> id_of so_url url (db_sources db) | s \<Rightarrow> s))"
proof -
  let ?rs = "db_sources db"
  have d: "distinct (map so_name ?rs)" "distinct (map so_url ?rs)" using assms by (simp_all add: sources_ok_def)
  have "clash ?rs name url \<longleftrightarrow> (\<exists>i j. id_of so_name name ?rs = Some i \<and> id_of so_url url ?rs = Some j \<and> i \<noteq> j)"
    using id_of_in [OF d(1)] id_of_in [OF d(2)] by (fastforce simp: clash_def dest: id_of_Some)
  then show ?thesis by (auto simp: resolveSourceID_def scan_result [OF d] split: option.split)
qed

text \<open>What the resolved id means for the rows.\<close>

lemma resolved_id:
  assumes ok: "sources_ok (db_sources db)" and r: "resolveSourceID db name url = Inr found"
  shows "r \<in> set (db_sources db) \<Longrightarrow> so_name r = name \<or> so_url r = url \<Longrightarrow> found = Some (so_id r)"
    and "found = Some i \<Longrightarrow> \<exists>r \<in> set (db_sources db). so_id r = i \<and> (so_name r = name \<or> so_url r = url)"
proof -
  let ?rs = "db_sources db"
  have d: "distinct (map so_name ?rs)" "distinct (map so_url ?rs)" using ok by (simp_all add: sources_ok_def)
  have f: "\<not> clash ?rs name url" "found = (case id_of so_name name ?rs of None \<Rightarrow> id_of so_url url ?rs | s \<Rightarrow> s)"
    using r by (auto simp: resolve_result [OF ok] split: if_splits)
  show "found = Some (so_id r)" if r: "r \<in> set ?rs" and named: "so_name r = name \<or> so_url r = url"
  proof (cases "so_name r = name")
    case True
    then show ?thesis using f(2) id_of_in [OF d(1) r] by simp
  next
    case False
    then have "so_url r = url" "id_of so_url url ?rs = Some (so_id r)" using named id_of_in [OF d(2) r] by auto
    then show ?thesis
      using f r by (auto simp: clash_def split: option.split dest!: id_of_Some)
  qed
  show "found = Some i \<Longrightarrow> \<exists>r \<in> set ?rs. so_id r = i \<and> (so_name r = name \<or> so_url r = url)"
    using f(2) by (auto split: option.splits dest: id_of_Some)
qed

section \<open>Writing a source and an account\<close>

lemma distinct_update:
  assumes "distinct (map g xs)" and "distinct (map key xs)" and "\<forall>x \<in> set xs. g x = v \<longrightarrow> key x = k"
    and "\<And>x. g (f x) = v"
  shows "distinct (map g (map (\<lambda>x. if key x = k then f x else x) xs))"
  using assms(1-3)
proof (induction xs)
  case (Cons x xs)
  have g: "g (if key y = k then f y else y) = (if key y = k then v else g y)" for y by (simp add: assms(4))
  have "key x \<notin> key ` set xs" using Cons.prems(2) by simp
  then have "g (if key x = k then f x else x) \<notin> g ` set (map (\<lambda>x. if key x = k then f x else x) xs)"
    using Cons.prems(1,3) unfolding set_map image_image g by (auto simp: image_iff split: if_splits)
  then show ?case using Cons by auto
qed simp

lemma fresh_above: "r \<in> set rs \<Longrightarrow> so_id r < fresh_id rs"
proof -
  have "m \<le> fold (\<lambda>r. max (so_id r)) rs m \<and> (r \<in> set rs \<longrightarrow> so_id r \<le> fold (\<lambda>r. max (so_id r)) rs m)" for m
  proof (induction rs arbitrary: m)
    case (Cons a rs)
    show ?case using Cons [of "max (so_id a) m"] by auto
  qed simp
  then show "r \<in> set rs \<Longrightarrow> so_id r < fresh_id rs" by (auto simp: fresh_id_def less_Suc_eq_le)
qed

lemma put_source_result:
  assumes ok: "sources_ok (db_sources db)" and r: "resolveSourceID db name url = Inr found"
    and p: "put_source found typ name url (db_sources db) = (i, rs)"
  shows "sources_ok rs" and "so_id ` set rs = insert i (so_id ` set (db_sources db))"
    and "\<exists>r \<in> set rs. so_id r = i \<and> so_type r = typ \<and> so_name r = name \<and> so_url r = url"
    and "\<forall>r. so_id r \<noteq> i \<longrightarrow> r \<in> set rs \<longleftrightarrow> r \<in> set (db_sources db)"
    and "found = Some j \<Longrightarrow> i = j" and "found = None \<Longrightarrow> i \<notin> so_id ` set (db_sources db)"
proof -
  let ?rs = "db_sources db"
  note id = resolved_id [OF ok r]
  have d: "distinct (map so_id ?rs)" "distinct (map so_name ?rs)" "distinct (map so_url ?rs)"
    using ok by (simp_all add: sources_ok_def)
  have all: "sources_ok rs \<and> so_id ` set rs = insert i (so_id ` set ?rs)
    \<and> (\<exists>r \<in> set rs. so_id r = i \<and> so_type r = typ \<and> so_name r = name \<and> so_url r = url)
    \<and> (\<forall>r. so_id r \<noteq> i \<longrightarrow> r \<in> set rs \<longleftrightarrow> r \<in> set ?rs) \<and> (\<forall>j. found = Some j \<longrightarrow> i = j)
    \<and> (found = None \<longrightarrow> i \<notin> so_id ` set ?rs)"
  proof (cases found)
    case None
    have new: "name \<notin> so_name ` set ?rs" "url \<notin> so_url ` set ?rs" using id(1) None by auto
    have "fresh_id ?rs \<notin> so_id ` set ?rs" using fresh_above by fastforce
    then show ?thesis using None p d new by (auto simp: put_source_def sources_ok_def)
  next
    case (Some j)
    let ?f = "\<lambda>r. r\<lparr>so_type := typ, so_name := name, so_url := url\<rparr>"
    have rs: "rs = map (\<lambda>r. if so_id r = j then ?f r else r) ?rs" "i = j"
      using p Some by (auto simp: put_source_def)
    have ids: "map so_id rs = map so_id ?rs" by (simp add: rs)
    have names: "\<forall>r \<in> set ?rs. so_name r = name \<longrightarrow> so_id r = j" "\<forall>r \<in> set ?rs. so_url r = url \<longrightarrow> so_id r = j"
      using id(1) Some by auto
    have "distinct (map so_name rs)" "distinct (map so_url rs)"
      unfolding rs using distinct_update [OF d(2,1) names(1), of ?f] distinct_update [OF d(3,1) names(2), of ?f] by simp_all
    then have "sources_ok rs" unfolding sources_ok_def ids using d(1) by blast
    moreover obtain r where r: "r \<in> set ?rs" "so_id r = j" using id(2) [OF Some] by auto
    moreover have "?f r \<in> set rs" using r by (auto simp: rs intro!: image_eqI [of _ _ r])
    moreover have "so_id ` set rs = so_id ` set ?rs" using ids by (metis set_map)
    moreover have "\<forall>r. so_id r \<noteq> i \<longrightarrow> r \<in> set rs \<longleftrightarrow> r \<in> set ?rs" by (auto simp: rs split: if_splits)
    moreover have "\<exists>r \<in> set rs. so_id r = i \<and> so_type r = typ \<and> so_name r = name \<and> so_url r = url"
      using \<open>?f r \<in> set rs\<close> r(2) rs(2) by (intro bexI [of _ "?f r"]) simp_all
    ultimately show ?thesis using Some rs(2) by (simp add: insert_absorb image_iff) blast
  qed
  then show "sources_ok rs" "so_id ` set rs = insert i (so_id ` set ?rs)"
    "\<exists>r \<in> set rs. so_id r = i \<and> so_type r = typ \<and> so_name r = name \<and> so_url r = url"
    "\<forall>r. so_id r \<noteq> i \<longrightarrow> r \<in> set rs \<longleftrightarrow> r \<in> set ?rs" "found = Some j \<Longrightarrow> i = j"
    "found = None \<Longrightarrow> i \<notin> so_id ` set ?rs" by blast+
qed

end
