(* ===== verification/Store_Save.thy ===== *)
theory Store_Save
  imports Store_Facts
begin

text \<open>
  Saving and loading through the store: a save changes one account, keeps the store well
  formed, and what is saved for a new account is what is loaded for it.
\<close>

section \<open>Accounts\<close>

lemma find_upsert:
  assumes "key b = k" and "\<And>x. key (f x) = key x"
  shows "find (\<lambda>x. key x = q) (upsert key k b f xs) = (if q = k
    then Some (f (case find (\<lambda>x. key x = k) xs of None \<Rightarrow> b | Some x \<Rightarrow> x)) else find (\<lambda>x. key x = q) xs)"
  by (induction xs) (auto simp: assms)

lemma find_update:
  assumes "\<And>x. key (f x) = key x"
  shows "find (\<lambda>x. key x = q) (map (\<lambda>x. if key x = k then f x else x) xs)
    = map_option (\<lambda>x. if key x = k then f x else x) (find (\<lambda>x. key x = q) xs)"
  by (induction xs) (simp_all add: assms)

lemma account_simps [simp]:
  "account_id (a\<lparr>ac_login := l\<rparr>) = account_id a" "account_id (a\<lparr>ac_history := h\<rparr>) = account_id a"
  "account_id \<lparr>ac_source = i, ac_key = q, ac_login = l, ac_history = h\<rparr> = (i, q)"
  by (simp_all add: account_id_def)

definition history_at :: "database \<Rightarrow> nat \<times> string \<Rightarrow> history" where
  "history_at db k = (case stored_history db k of None \<Rightarrow> [] | Some h \<Rightarrow> h)"

lemma persisted_history:
  "stored_history \<lparr>db_sources = rs, db_accounts = put_account i login (db_accounts db)\<rparr> k
     = (if k = (i, to_lower login) then Some (history_at db k) else stored_history db k)"
  by (simp add: stored_history_def put_account_def find_upsert history_at_def split: option.split)

lemma set_history_stored:
  "stored_history (set_history k h db) q = (if q = k then map_option (\<lambda>_. h) (stored_history db k) else stored_history db q)"
  by (auto simp: stored_history_def set_history_def find_update option.map_comp o_def dest: find_found
      split: option.split intro!: map_option_cong)

lemma set_history_simps [simp]:
  "db_sources (set_history k h db) = db_sources db" "map account_id (db_accounts (set_history k h db)) = map account_id (db_accounts db)"
  by (simp_all add: set_history_def)

lemma history_at_ok: "database_ok db \<Longrightarrow> history_ok (history_at db k)"
  by (auto simp: history_at_def stored_history_def database_ok_def history_ok_def split: option.split dest!: find_found)

section \<open>Saving\<close>

lemma saved_store:
  assumes ok: "database_ok db" and s: "SaveDaily typ name url login s db = Inr db'"
  obtains i found h where "resolveSourceID db name url = Inr found"
    and "found = Some i \<or> found = None \<and> i \<notin> so_id ` set (db_sources db)"
    and "save_history (history_at db (i, to_lower login)) s = Inr h"
    and "\<And>k. stored_history db' k = (if k = (i, to_lower login) then Some h else stored_history db k)"
    and "database_ok db'"
    and "\<exists>r \<in> set (db_sources db'). so_id r = i \<and> so_type r = typ \<and> so_name r = name \<and> so_url r = url"
    and "\<forall>r. so_id r \<noteq> i \<longrightarrow> r \<in> set (db_sources db') \<longleftrightarrow> r \<in> set (db_sources db)"
    and "so_id ` set (db_sources db') = insert i (so_id ` set (db_sources db))"
    and "\<exists>a \<in> set (db_accounts db'). account_id a = (i, to_lower login) \<and> ac_login a = login"
proof -
  have sok: "sources_ok (db_sources db)" using ok by (simp add: database_ok_def)
  obtain found where r: "resolveSourceID db name url = Inr found"
    using s by (auto simp: SaveDaily_def persistAccount_def split: if_splits sum.splits)
  obtain i rs where p: "put_source found typ name url (db_sources db) = (i, rs)" by fastforce
  let ?k = "(i, to_lower login)" let ?db = "\<lparr>db_sources = rs, db_accounts = put_account i login (db_accounts db)\<rparr>"
  obtain h where h: "save_history (history_at db ?k) s = Inr h" "db' = set_history ?k h ?db"
    using s by (auto simp: SaveDaily_def persistAccount_def r p persisted_history map_sum_def split: if_splits sum.splits)
  note src = put_source_result [OF sok r p]
  have hok: "history_ok h" by (rule save_history_ok [OF h(1) history_at_ok [OF ok]])
  let ?b = "\<lparr>ac_source = i, ac_key = to_lower login, ac_login = login, ac_history = []\<rparr>"
  let ?P = "\<lambda>a. ac_source a \<in> so_id ` set rs \<and> history_ok (ac_history a)"
  have "\<forall>a \<in> set (put_account i login (db_accounts db)). ?P a"
    unfolding put_account_def
    by (rule upsert_all) (use ok in \<open>auto simp: database_ok_def src(2) history_ok_def\<close>)
  then have "\<forall>a \<in> set (db_accounts db'). ?P a" using hok by (auto simp: h(2) set_history_def)
  moreover have "distinct (map account_id (db_accounts db'))"
    unfolding h(2) using ok by (simp add: put_account_def database_ok_def upsert_distinct)
  ultimately have "database_ok db'" using src(1) by (simp add: database_ok_def h(2))
  moreover have "\<exists>a \<in> set (db_accounts db'). account_id a = ?k \<and> ac_login a = login"
  proof -
    have "find (\<lambda>a. account_id a = ?k) (put_account i login (db_accounts db))
        = Some ((case find (\<lambda>a. account_id a = ?k) (db_accounts db) of None \<Rightarrow> ?b | Some a \<Rightarrow> a)\<lparr>ac_login := login\<rparr>)"
      by (simp add: put_account_def find_upsert)
    from find_found [OF this] obtain x where x: "x \<in> set (put_account i login (db_accounts db))"
      "account_id x = ?k" "ac_login x = login" by auto
    then have "x\<lparr>ac_history := h\<rparr> \<in> set (db_accounts db')"
      by (auto simp: h(2) set_history_def intro!: image_eqI [of _ _ x])
    then show ?thesis using x by (intro bexI [of _ "x\<lparr>ac_history := h\<rparr>"]) simp_all
  qed
  moreover have "found = Some i \<or> found = None \<and> i \<notin> so_id ` set (db_sources db)"
    using src(5,6) by (cases found) auto
  ultimately show thesis
    using src(2-4) r h by (intro that [of found i h]) (auto simp: set_history_stored persisted_history)
qed

section \<open>Loading after saving\<close>

lemma resolve_matching:
  assumes ok: "sources_ok (db_sources db)"
    and all: "\<forall>r \<in> set (db_sources db). so_name r = name \<or> so_url r = url \<longrightarrow> so_id r = i"
    and one: "\<exists>r \<in> set (db_sources db). so_name r = name \<or> so_url r = url"
  shows "resolveSourceID db name url = Inr (Some i)"
proof -
  have "\<not> clash (db_sources db) name url" using all by (auto simp: clash_def)
  then obtain found where "resolveSourceID db name url = Inr found" by (auto simp: resolve_result [OF ok])
  then show ?thesis using resolved_id(1) [OF ok] all one by metis
qed

text \<open>A source is found again under its name or its address, when the other is not another's.\<close>

lemma resolve_saved:
  assumes ok: "database_ok db'" and r: "\<exists>r \<in> set (db_sources db'). so_id r = i \<and> so_name r = name \<and> so_url r = url"
    and "name' = name \<or> url' = url" and "\<not> clash (db_sources db') name' url'"
  shows "resolveSourceID db' name' url' = Inr (Some i)"
proof -
  have sok: "sources_ok (db_sources db')" using ok by (simp add: database_ok_def)
  obtain found where f: "resolveSourceID db' name' url' = Inr found" using assms(4) by (auto simp: resolve_result [OF sok])
  then show ?thesis using resolved_id(1) [OF sok f] r assms(3) by metis
qed

lemma no_clash_saved:
  assumes ok: "database_ok db'" and "\<exists>r \<in> set (db_sources db'). so_name r = name \<and> so_url r = url"
  shows "\<not> clash (db_sources db') name url"
proof -
  obtain r where r: "r \<in> set (db_sources db')" "so_name r = name" "so_url r = url" using assms(2) by auto
  have "x = r" if "x \<in> set (db_sources db')" "so_name x = name \<or> so_url x = url" for x
    using ok that r by (auto simp: database_ok_def sources_ok_def distinct_map inj_on_def)
  then show ?thesis by (metis clash_def)
qed

text \<open>The sources with another name and another address are found as before.\<close>

lemma resolve_other:
  assumes ok: "database_ok db" and ok': "database_ok db'"
    and r: "\<exists>r \<in> set (db_sources db'). so_id r = i \<and> so_name r = name \<and> so_url r = url"
    and same: "\<forall>r. so_id r \<noteq> i \<longrightarrow> r \<in> set (db_sources db') \<longleftrightarrow> r \<in> set (db_sources db)"
    and q: "resolveSourceID db name' url' = Inr (Some j)" "j \<noteq> i" and apart: "name' \<noteq> name" "url' \<noteq> url"
  shows "resolveSourceID db' name' url' = Inr (Some j)"
proof (rule resolve_matching)
  have sok: "sources_ok (db_sources db)" using ok by (simp add: database_ok_def)
  show sok': "sources_ok (db_sources db')" using ok' by (simp add: database_ok_def)
  obtain r where r: "r \<in> set (db_sources db')" "so_id r = i" "so_name r = name" "so_url r = url" using assms(3) by auto
  have not_i: "so_id x \<noteq> i" if "x \<in> set (db_sources db')" "so_name x = name' \<or> so_url x = url'" for x
  proof
    assume "so_id x = i"
    then have "x = r" using sok' that(1) r(1,2) by (auto simp: sources_ok_def distinct_map inj_on_def)
    then show False using that(2) r apart by auto
  qed
  show "\<forall>x \<in> set (db_sources db'). so_name x = name' \<or> so_url x = url' \<longrightarrow> so_id x = j"
  proof (intro ballI impI)
    fix x
    assume x: "x \<in> set (db_sources db')" "so_name x = name' \<or> so_url x = url'"
    then have "x \<in> set (db_sources db)" using not_i [OF x] same by blast
    then show "so_id x = j" using resolved_id(1) [OF sok q(1), of x] x(2) by simp
  qed
  obtain x where "x \<in> set (db_sources db)" "so_id x = j" "so_name x = name' \<or> so_url x = url'"
    using resolved_id(2) [OF sok q(1)] by auto
  then show "\<exists>x \<in> set (db_sources db'). so_name x = name' \<or> so_url x = url'" using same q(2) by metis
qed

section \<open>Saving twice\<close>

lemma upsert_same: "distinct (map key xs) \<Longrightarrow> x \<in> set xs \<Longrightarrow> key x = k \<Longrightarrow> f x = x \<Longrightarrow> upsert key k b f xs = xs"
  by (induction xs) auto

lemma update_same:
  assumes "distinct (map key xs)" and "x \<in> set xs" and "key x = k" and "f x = x"
  shows "map (\<lambda>y. if key y = k then f y else y) xs = xs"
proof (rule map_idI)
  show "(if key y = k then f y else y) = y" if "y \<in> set xs" for y
    using assms that by (auto simp: distinct_map inj_on_def)
qed

lemma saved_again:
  assumes ok: "database_ok db" and s: "SaveDaily typ name url login s db = Inr db'"
  shows "SaveDaily typ name url login s db' = Inr db'"
proof (rule saved_store [OF ok s])
  fix i :: nat and found h
  let ?k = "(i, to_lower login)"
  assume h: "save_history (history_at db ?k) s = Inr h"
    and st: "\<And>k. stored_history db' k = (if k = ?k then Some h else stored_history db k)"
    and ok': "database_ok db'"
    and r: "\<exists>r \<in> set (db_sources db'). so_id r = i \<and> so_type r = typ \<and> so_name r = name \<and> so_url r = url"
    and a: "\<exists>a \<in> set (db_accounts db'). account_id a = ?k \<and> ac_login a = login"
  have v: "validateDaily s" using s by (simp add: SaveDaily_def split: if_splits)
  have row: "\<exists>r \<in> set (db_sources db'). so_id r = i \<and> so_name r = name \<and> so_url r = url" using r by blast
  then have res: "resolveSourceID db' name url = Inr (Some i)"
    using resolve_saved [OF ok' row] no_clash_saved [OF ok'] by blast
  obtain q where q: "q \<in> set (db_sources db')" "so_id q = i" "q\<lparr>so_type := typ, so_name := name, so_url := url\<rparr> = q"
    using r by auto
  have d: "distinct (map so_id (db_sources db'))" "distinct (map account_id (db_accounts db'))"
    using ok' by (simp_all add: database_ok_def sources_ok_def)
  have put: "put_source (Some i) typ name url (db_sources db') = (i, db_sources db')"
    using update_same [where f = "\<lambda>r. r\<lparr>so_type := typ, so_name := name, so_url := url\<rparr>", OF d(1) q]
    by (simp add: put_source_def)
  obtain x where x: "x \<in> set (db_accounts db')" "account_id x = ?k" "x\<lparr>ac_login := login\<rparr> = x"
    using a by auto
  have acc: "put_account i login (db_accounts db') = db_accounts db'"
    unfolding put_account_def by (rule upsert_same [OF d(2) x(1,2)]) (rule x(3))
  have "ac_history x = h"
    using st [of ?k] find_key [OF d(2) x(1)] x(2) by (simp add: stored_history_def)
  then have "x\<lparr>ac_history := h\<rparr> = x" by auto
  then have same: "set_history ?k h db' = db'"
    using update_same [where f = "\<lambda>a. a\<lparr>ac_history := h\<rparr>", OF d(2) x(1,2)] by (simp add: set_history_def)
  have surj: "\<lparr>db_sources = db_sources db', db_accounts = db_accounts db'\<rparr> = db'" by simp
  have "save_history h s = Inr h" by (rule save_twice [OF h history_at_ok [OF ok]])
  then show ?thesis
    using v same st [of ?k] by (simp add: SaveDaily_def persistAccount_def res put acc surj)
qed

section \<open>An account without a history\<close>

lemma no_account:
  assumes "database_ok db" and "i \<notin> so_id ` set (db_sources db)"
  shows "stored_history db (i, q) = None"
proof -
  have "account_id a \<noteq> (i, q)" if "a \<in> set (db_accounts db)" for a
    using assms that by (auto simp: database_ok_def account_id_def)
  then show ?thesis by (auto simp: stored_history_def find_None_iff)
qed

lemma fresh_unused: "fresh_id rs \<notin> so_id ` set rs"
  using fresh_above by fastforce

text \<open>The account a name, an address and a login belong to, where it is in the store.\<close>

lemma load_cases:
  "LoadDaily midnight now now_ms name url login period db = Inr r \<longleftrightarrow>
     (resolveSourceID db name url = Inr None \<and> r = None
      \<or> (\<exists>i. resolveSourceID db name url = Inr (Some i)
          \<and> r = map_option (loadDays (periodStart midnight period now) (now_ms + 1)) (stored_history db (i, to_lower login))))"
  by (auto simp: LoadDaily_def split: sum.splits option.splits)

lemma save_known:
  assumes ok: "database_ok db" and r: "resolveSourceID db name url = Inr found" and v: "validateDaily s"
    and h: "\<And>i. found = Some i \<or> found = None \<and> i \<notin> so_id ` set (db_sources db) \<Longrightarrow>
      \<exists>h. save_history (history_at db (i, to_lower login)) s = Inr h"
  shows "\<exists>db'. SaveDaily typ name url login s db = Inr db'"
proof -
  obtain i rs where p: "put_source found typ name url (db_sources db) = (i, rs)" by fastforce
  have sok: "sources_ok (db_sources db)" using ok by (simp add: database_ok_def)
  have "found = Some i \<or> found = None \<and> i \<notin> so_id ` set (db_sources db)"
    using put_source_result(5,6) [OF sok r p] by (cases found) auto
  then obtain g where "save_history (history_at db (i, to_lower login)) s = Inr g" using h by blast
  then show ?thesis using v by (simp add: SaveDaily_def persistAccount_def r p persisted_history)
qed

text \<open>The first save of an account, and what is loaded for it under its name or its address.\<close>

lemma save_first_load:
  assumes ok: "database_ok db" and none: "LoadDaily midnight now now_ms name url login period db = Inr None"
    and v: "validateDaily s" and h: "save_history [] s = Inr h"
  obtains db' where "SaveDaily typ name url login s db = Inr db'"
    and "\<And>n u w period. n = name \<or> u = url \<Longrightarrow> \<not> clash (db_sources db') n u \<Longrightarrow> to_lower w = to_lower login \<Longrightarrow>
      LoadDaily midnight now now_ms n u w period db' = Inr (Some (loadDays (periodStart midnight period now) (now_ms + 1) h))"
proof -
  obtain found where r: "resolveSourceID db name url = Inr found"
    and f: "\<And>i. found = Some i \<Longrightarrow> stored_history db (i, to_lower login) = None"
    using none by (auto simp: load_cases)
  have none_yet: "history_at db (i, to_lower login) = []"
    if "found = Some i \<or> found = None \<and> i \<notin> so_id ` set (db_sources db)" for i
    using that f no_account [OF ok] by (auto simp: history_at_def)
  obtain db' where s: "SaveDaily typ name url login s db = Inr db'"
  proof -
    have "\<exists>db'. SaveDaily typ name url login s db = Inr db'"
      by (rule save_known [OF ok r v]) (use none_yet h in simp)
    then show thesis using that by blast
  qed
  show thesis
  proof (rule saved_store [OF ok s])
    fix i :: nat and found' h'
    assume a: "resolveSourceID db name url = Inr found'" "found' = Some i \<or> found' = None \<and> i \<notin> so_id ` set (db_sources db)"
      "save_history (history_at db (i, to_lower login)) s = Inr h'"
      "\<And>k. stored_history db' k = (if k = (i, to_lower login) then Some h' else stored_history db k)" "database_ok db'"
      "\<exists>r \<in> set (db_sources db'). so_id r = i \<and> so_type r = typ \<and> so_name r = name \<and> so_url r = url"
    have "h' = h" using none_yet [of i] a(1-3) r h by simp
    have row: "\<exists>r \<in> set (db_sources db'). so_id r = i \<and> so_name r = name \<and> so_url r = url" using a(6) by blast
    show thesis
    proof (rule that [OF s])
      fix n u w period
      assume n: "n = name \<or> u = url" and c: "\<not> clash (db_sources db') n u" and w: "to_lower w = to_lower login"
      show "LoadDaily midnight now now_ms n u w period db' = Inr (Some (loadDays (periodStart midnight period now) (now_ms + 1) h))"
        using resolve_saved [OF a(5) row n c] a(4) w \<open>h' = h\<close> by (simp add: load_cases)
    qed
  qed
qed

section \<open>The other accounts\<close>

lemma load_other:
  assumes ok: "database_ok db" and s: "SaveDaily typ name url login s db = Inr db'"
    and l: "LoadDaily midnight now now_ms n u w period db = Inr (Some ds)"
    and other: "n \<noteq> name \<and> u \<noteq> url \<and> resolveSourceID db n u \<noteq> resolveSourceID db name url
      \<or> n = name \<and> u = url \<and> to_lower w \<noteq> to_lower login"
  shows "LoadDaily midnight now now_ms n u w period db' = Inr (Some ds)"
proof (rule saved_store [OF ok s])
  fix i :: nat and found h
  assume a: "resolveSourceID db name url = Inr found" "found = Some i \<or> found = None \<and> i \<notin> so_id ` set (db_sources db)"
    "\<And>k. stored_history db' k = (if k = (i, to_lower login) then Some h else stored_history db k)" "database_ok db'"
    "\<exists>r \<in> set (db_sources db'). so_id r = i \<and> so_type r = typ \<and> so_name r = name \<and> so_url r = url"
    "\<forall>r. so_id r \<noteq> i \<longrightarrow> r \<in> set (db_sources db') \<longleftrightarrow> r \<in> set (db_sources db)"
  have row: "\<exists>r \<in> set (db_sources db'). so_id r = i \<and> so_name r = name \<and> so_url r = url" using a(5) by blast
  obtain j where j: "resolveSourceID db n u = Inr (Some j)"
    "Some ds = map_option (loadDays (periodStart midnight period now) (now_ms + 1)) (stored_history db (j, to_lower w))"
    using l by (auto simp: load_cases)
  have "resolveSourceID db' n u = Inr (Some j) \<and> (j, to_lower w) \<noteq> (i, to_lower login)"
    using other
  proof (elim disjE conjE)
    assume o: "n \<noteq> name" "u \<noteq> url" "resolveSourceID db n u \<noteq> resolveSourceID db name url"
    have "j \<noteq> i"
    proof
      assume ji: "j = i"
      then have "found = None" using a(1,2) j(1) o(3) by auto
      moreover have "i \<in> so_id ` set (db_sources db)"
        using resolved_id(2) [OF _ j(1)] ok ji by (auto simp: database_ok_def)
      ultimately show False using a(2) by auto
    qed
    then show ?thesis using resolve_other [OF ok a(4) row a(6) j(1) _ o(1,2)] by simp
  next
    assume o: "n = name" "u = url" "to_lower w \<noteq> to_lower login"
    have "found = Some j" using a(1) j(1) o by simp
    then have "j = i" using a(2) by simp
    then show ?thesis using resolve_saved [OF a(4) row] no_clash_saved [OF a(4)] row o by blast
  qed
  then show ?thesis using a(3) j(2) by (auto simp: load_cases)
qed

end
