(* ===== verification/Store_Sync.thy ===== *)
theory Store_Sync
  imports Store_Save Dashboard_Paths
begin

text \<open>
  Synchronizing accounts into the store (\<open>internal/dashboard/service.go\<close>, lines 268 to 306) and
  answering from it (lines 334 to 341). The store works on one connection, so that concurrent
  synchronizations of accounts are some sequence of them.
\<close>

section \<open>Operations\<close>

text \<open>The synchronization of one account; \<open>fetch\<close> is the instance's lifetime usage by day.\<close>

definition sync_account :: "('q resolved \<Rightarrow> string + snapshot) \<Rightarrow> 'q resolved \<Rightarrow> database \<Rightarrow> database \<times> failure option" where
  "sync_account fetch a db = (let e = r_endpoint a in case fetch a of
     Inl m \<Rightarrow> (db, Some (endpoint_failure e ''token-usage/daily'' m))
   | Inr s \<Rightarrow> (case SaveDaily (ep_source e) (ep_name e) (ep_url e) (gu_login (r_usage a)) s db of
       Inl m \<Rightarrow> (db, Some (endpoint_failure e ''persistence'' m))
     | Inr db' \<Rightarrow> (db', None)))"

definition sync_accounts :: "('q resolved \<Rightarrow> string + snapshot) \<Rightarrow> 'q resolved list \<Rightarrow> database \<Rightarrow> database" where
  "sync_accounts fetch as db = fold (\<lambda>a db. fst (sync_account fetch a db)) as db"

definition empty_database :: database where
  "empty_database = \<lparr>db_sources = [], db_accounts = []\<rparr>"

text \<open>What the dashboard loads for an account; it reads the fields of \<open>upstream_day\<close>.\<close>

definition stored_days :: "(date \<Rightarrow> int) \<Rightarrow> clock \<Rightarrow> int \<Rightarrow> string \<Rightarrow> database \<Rightarrow> 'q resolved \<Rightarrow> stored" where
  "stored_days midnight now now_ms period db a =
     (case LoadDaily midnight now now_ms (ep_name (r_endpoint a)) (ep_url (r_endpoint a)) (gu_login (r_usage a)) period db of
        Inl m \<Rightarrow> StoreError m
      | Inr None \<Rightarrow> NoSnapshot
      | Inr (Some ds) \<Rightarrow> Snapshot (map upstream_day.truncate ds))"

section \<open>A new account\<close>

text \<open>A snapshot the store takes in whole: valid, in normal form, and begun on its first date.\<close>

definition whole_snapshot :: "snapshot \<Rightarrow> bool" where
  "whole_snapshot s \<longleftrightarrow> validateDaily s \<and> list_all day_normal (snap_days s)
     \<and> list_all (\<lambda>d. ud_date (hd (day_order (snap_days s))) \<le> ud_date d) (snap_days s)"

definition period_days :: "(date \<Rightarrow> int) \<Rightarrow> clock \<Rightarrow> int \<Rightarrow> string \<Rightarrow> snapshot \<Rightarrow> snapshot_day list" where
  "period_days midnight now now_ms period s = filter (\<lambda>d. periodStart midnight period now \<le> start_ms d \<and> start_ms d < now_ms + 1)
     (sort_key ud_date (snap_days s))"

lemma whole_saved:
  assumes "whole_snapshot s"
  shows "\<exists>h. save_history [] s = Inr h
    \<and> (\<forall>midnight now now_ms period. loadDays (periodStart midnight period now) (now_ms + 1) h = period_days midnight now now_ms period s)"
  using load_saved [of s] assms by (auto simp: whole_snapshot_def list_all_iff period_days_def)

definition unknown_source :: "string \<Rightarrow> string \<Rightarrow> database \<Rightarrow> bool" where
  "unknown_source name url db \<longleftrightarrow> name \<notin> so_name ` set (db_sources db) \<and> url \<notin> so_url ` set (db_sources db)"

lemma save_new:
  assumes ok: "database_ok db" and new: "unknown_source name url db" and s: "whole_snapshot s"
  obtains i h db' where "SaveDaily typ name url who s db = Inr db'" and "database_ok db'"
    and "save_history [] s = Inr h" and "i \<notin> so_id ` set (db_sources db)"
    and "resolveSourceID db' name url = Inr (Some i)"
    and "\<And>k. stored_history db' k = (if k = (i, to_lower who) then Some h else stored_history db k)"
    and "\<And>n u j. n \<noteq> name \<Longrightarrow> u \<noteq> url \<Longrightarrow> resolveSourceID db n u = Inr (Some j) \<Longrightarrow> resolveSourceID db' n u = Inr (Some j)"
    and "\<And>n u. n \<noteq> name \<Longrightarrow> u \<noteq> url \<Longrightarrow> unknown_source n u db \<Longrightarrow> unknown_source n u db'"
proof -
  have sok: "sources_ok (db_sources db)" using ok by (simp add: database_ok_def)
  have nr: "resolveSourceID db name url = Inr None"
    using new resolve_result [OF sok, of name url] by (auto simp: unknown_source_def id_of_None [THEN iffD2] clash_def)
  obtain h where h: "save_history [] s = Inr h" using whole_saved [OF s] by blast
  have "\<exists>db'. SaveDaily typ name url who s db = Inr db'"
  proof -
    let ?k = "(fresh_id (db_sources db), to_lower who)"
    have "stored_history db ?k = None"
      by (rule no_account [OF ok fresh_unused])
    then show ?thesis
      using s h by (simp add: SaveDaily_def whole_snapshot_def persistAccount_def nr put_source_def persisted_history history_at_def)
  qed
  then obtain db' where save: "SaveDaily typ name url who s db = Inr db'" by blast
  obtain i found h' where r: "resolveSourceID db name url = Inr found"
    "found = Some i \<or> found = None \<and> i \<notin> so_id ` set (db_sources db)"
    "save_history (history_at db (i, to_lower who)) s = Inr h'"
    "\<And>k. stored_history db' k = (if k = (i, to_lower who) then Some h' else stored_history db k)"
    "database_ok db'" "\<exists>r \<in> set (db_sources db'). so_id r = i \<and> so_type r = typ \<and> so_name r = name \<and> so_url r = url"
    "\<forall>r. so_id r \<noteq> i \<longrightarrow> r \<in> set (db_sources db') \<longleftrightarrow> r \<in> set (db_sources db)"
    "so_id ` set (db_sources db') = insert i (so_id ` set (db_sources db))"
    by (rule saved_store [OF ok save]) blast
  have i: "i \<notin> so_id ` set (db_sources db)" using r(1,2) nr by auto
  then have "stored_history db (i, to_lower who) = None"
    by (rule no_account [OF ok])
  then have "h' = h" using r(3) h by (simp add: history_at_def)
  have row: "\<exists>r \<in> set (db_sources db'). so_id r = i \<and> so_name r = name \<and> so_url r = url" using r(6) by blast
  have "resolveSourceID db' name url = Inr (Some i)"
    using resolve_saved [OF r(5) row] no_clash_saved [OF r(5)] row by blast
  moreover have "resolveSourceID db' n u = Inr (Some j)"
    if "n \<noteq> name" "u \<noteq> url" "resolveSourceID db n u = Inr (Some j)" for n u j
  proof -
    have "j \<noteq> i" using resolved_id(2) [OF sok that(3)] i by auto
    then show ?thesis by (rule resolve_other [OF ok r(5) row r(7) that(3) _ that(1,2)])
  qed
  moreover have "unknown_source n u db'" if "n \<noteq> name" "u \<noteq> url" "unknown_source n u db" for n u
  proof -
    have one: "so_name x = name \<and> so_url x = url" if "x \<in> set (db_sources db')" "so_id x = i" for x
      using row r(5) that by (auto simp: database_ok_def sources_ok_def distinct_map inj_on_def)
    have "so_name x \<noteq> n \<and> so_url x \<noteq> u" if "x \<in> set (db_sources db')" for x
      using one [OF that] r(7) that \<open>unknown_source n u db\<close> \<open>n \<noteq> name\<close> \<open>u \<noteq> url\<close>
      by (cases "so_id x = i") (auto simp: unknown_source_def)
    then show ?thesis by (auto simp: unknown_source_def)
  qed
  ultimately show thesis using that [OF save r(5) h i] r(4) \<open>h' = h\<close> by simp
qed

text \<open>The store holds a history for a name, an address and a login.\<close>

definition holds_history :: "database \<Rightarrow> string \<Rightarrow> string \<Rightarrow> string \<Rightarrow> history \<Rightarrow> bool" where
  "holds_history db n u q h \<longleftrightarrow> (\<exists>i. resolveSourceID db n u = Inr (Some i) \<and> stored_history db (i, q) = Some h)"

lemma sync_new:
  assumes ok: "database_ok db" and new: "unknown_source (ep_name (r_endpoint a)) (ep_url (r_endpoint a)) db"
    and s: "fetch a = Inr s" "whole_snapshot s"
  obtains h db' where "sync_account fetch a db = (db', None)" and "database_ok db'" and "save_history [] s = Inr h"
    and "holds_history db' (ep_name (r_endpoint a)) (ep_url (r_endpoint a)) (login_key a) h"
    and "\<And>n u q g. n \<noteq> ep_name (r_endpoint a) \<Longrightarrow> u \<noteq> ep_url (r_endpoint a) \<Longrightarrow> holds_history db n u q g \<Longrightarrow> holds_history db' n u q g"
    and "\<And>n u. n \<noteq> ep_name (r_endpoint a) \<Longrightarrow> u \<noteq> ep_url (r_endpoint a) \<Longrightarrow> unknown_source n u db \<Longrightarrow> unknown_source n u db'"
proof (rule save_new [OF ok new s(2), of "ep_source (r_endpoint a)" "gu_login (r_usage a)"])
  fix i h db'
  assume r: "SaveDaily (ep_source (r_endpoint a)) (ep_name (r_endpoint a)) (ep_url (r_endpoint a)) (gu_login (r_usage a)) s db = Inr db'"
    "database_ok db'" "save_history [] s = Inr h" "i \<notin> so_id ` set (db_sources db)"
    "resolveSourceID db' (ep_name (r_endpoint a)) (ep_url (r_endpoint a)) = Inr (Some i)"
    "\<And>k. stored_history db' k = (if k = (i, to_lower (gu_login (r_usage a))) then Some h else stored_history db k)"
    "\<And>n u j. n \<noteq> ep_name (r_endpoint a) \<Longrightarrow> u \<noteq> ep_url (r_endpoint a) \<Longrightarrow> resolveSourceID db n u = Inr (Some j)
       \<Longrightarrow> resolveSourceID db' n u = Inr (Some j)"
    "\<And>n u. n \<noteq> ep_name (r_endpoint a) \<Longrightarrow> u \<noteq> ep_url (r_endpoint a) \<Longrightarrow> unknown_source n u db \<Longrightarrow> unknown_source n u db'"
  have "holds_history db' n u q g" if o: "n \<noteq> ep_name (r_endpoint a)" "u \<noteq> ep_url (r_endpoint a)" "holds_history db n u q g" for n u q g
  proof -
    obtain j where j: "resolveSourceID db n u = Inr (Some j)" "stored_history db (j, q) = Some g"
      using o(3) by (auto simp: holds_history_def)
    then have "stored_history db (i, q) = None" by (intro no_account [OF ok r(4)])
    then have "j \<noteq> i" using j(2) by auto
    then show ?thesis using r(6,7) o j by (auto simp: holds_history_def)
  qed
  moreover have "holds_history db' (ep_name (r_endpoint a)) (ep_url (r_endpoint a)) (login_key a) h"
    using r(5,6) by (simp add: holds_history_def login_key_def)
  ultimately show thesis using r(1-3,8) s(1) by (intro that [of db' h]) (simp_all add: sync_account_def Let_def)
qed

section \<open>Filling a store\<close>

text \<open>
  What the synchronization relies on: putting a new client into the store makes it held, keeps
  what is held for the clients apart from it, and leaves those new that were new.
\<close>

locale client_store =
  fixes ok :: "'db \<Rightarrow> bool" and new :: "'a \<Rightarrow> 'db \<Rightarrow> bool" and held :: "'db \<Rightarrow> 'a \<Rightarrow> 'h \<Rightarrow> bool"
    and put :: "'a \<Rightarrow> 'db \<Rightarrow> 'db" and brings :: "'a \<Rightarrow> 'h \<Rightarrow> bool" and apart :: "'a \<Rightarrow> 'a \<Rightarrow> bool"
  assumes put_ok: "ok db \<Longrightarrow> new a db \<Longrightarrow> brings a h \<Longrightarrow> ok (put a db)"
    and put_held: "ok db \<Longrightarrow> new a db \<Longrightarrow> brings a h \<Longrightarrow> held (put a db) a h"
    and put_keeps: "ok db \<Longrightarrow> new a db \<Longrightarrow> brings a h \<Longrightarrow> apart a b \<Longrightarrow> held db b g \<Longrightarrow> held (put a db) b g"
    and put_new: "ok db \<Longrightarrow> new a db \<Longrightarrow> brings a h \<Longrightarrow> apart a b \<Longrightarrow> new b db \<Longrightarrow> new b (put a db)"
    and apart_sym: "apart a b \<Longrightarrow> apart b a"
begin

lemma fill_keeps:
  assumes "ok db" and "sorted_wrt apart as" and "\<forall>a \<in> set as. new a db \<and> (\<exists>h. brings a h) \<and> apart a b" and "held db b g"
  shows "held (fold put as db) b g"
  using assms
proof (induction as arbitrary: db)
  case (Cons a as)
  then obtain h where a: "ok db" "new a db" "brings a h" by auto
  have "new x (put a db)" if "x \<in> set as" for x using put_new [OF a] Cons.prems(2,3) that by simp
  then show ?case using Cons put_ok [OF a] put_keeps [OF a] by simp
qed simp

lemma filled:
  assumes "ok db" and "sorted_wrt apart as" and "\<forall>a \<in> set as. new a db \<and> (\<exists>h. brings a h)"
    and "a \<in> set as" and "brings a h"
  shows "held (fold put as db) a h"
  using assms
proof (induction as arbitrary: db)
  case (Cons b as)
  then obtain g where b: "ok db" "new b db" "brings b g" by auto
  have new: "new x (put b db)" if "x \<in> set as" for x using put_new [OF b] Cons.prems(2,3) that by simp
  show ?case
  proof (cases "a = b")
    case True
    then have "held (put b db) a h" using put_held b(1,2) Cons.prems(5) by simp
    moreover have "\<forall>x \<in> set as. apart x a" using Cons.prems(2) True apart_sym by simp
    ultimately have "held (fold put as (put b db)) a h"
      using new Cons.prems(2,3) by (intro fill_keeps [OF put_ok [OF b]]) simp_all
    then show ?thesis by simp
  next
    case False
    then show ?thesis using Cons new put_ok [OF b] by simp
  qed
qed simp

end

abbreviation names_of :: "'q resolved list \<Rightarrow> string list" where
  "names_of accs \<equiv> map (\<lambda>a. ep_name (r_endpoint a)) accs"

abbreviation urls_of :: "'q resolved list \<Rightarrow> string list" where
  "urls_of accs \<equiv> map (\<lambda>a. ep_url (r_endpoint a)) accs"

definition new_client :: "'q resolved \<Rightarrow> database \<Rightarrow> bool" where
  "new_client a db \<longleftrightarrow> unknown_source (ep_name (r_endpoint a)) (ep_url (r_endpoint a)) db"

definition held_for :: "database \<Rightarrow> 'q resolved \<Rightarrow> history \<Rightarrow> bool" where
  "held_for db a h \<longleftrightarrow> holds_history db (ep_name (r_endpoint a)) (ep_url (r_endpoint a)) (login_key a) h"

definition brings_history :: "('q resolved \<Rightarrow> string + snapshot) \<Rightarrow> 'q resolved \<Rightarrow> history \<Rightarrow> bool" where
  "brings_history fetch a h \<longleftrightarrow> (\<exists>s. fetch a = Inr s \<and> whole_snapshot s \<and> save_history [] s = Inr h)"

definition endpoints_apart :: "'q resolved \<Rightarrow> 'q resolved \<Rightarrow> bool" where
  "endpoints_apart a b \<longleftrightarrow> ep_name (r_endpoint a) \<noteq> ep_name (r_endpoint b) \<and> ep_url (r_endpoint a) \<noteq> ep_url (r_endpoint b)"

interpretation sync: client_store database_ok new_client held_for "\<lambda>a db. fst (sync_account fetch a db)"
  "brings_history fetch" endpoints_apart for fetch
proof
  fix db a b h g
  assume ok: "database_ok db" and new: "new_client a db" and br: "brings_history fetch a h"
  obtain s where s: "fetch a = Inr s" "whole_snapshot s" "save_history [] s = Inr h"
    using br by (auto simp: brings_history_def)
  note step = sync_new [where fetch = fetch and a = a, OF ok new [unfolded new_client_def] s(1,2)]
  show "database_ok (fst (sync_account fetch a db))" by (rule step) simp
  show "held_for (fst (sync_account fetch a db)) a h" by (rule step) (simp add: held_for_def s(3))
  show "endpoints_apart a b \<Longrightarrow> held_for db b g \<Longrightarrow> held_for (fst (sync_account fetch a db)) b g"
    by (rule step) (metis fst_conv held_for_def endpoints_apart_def)
  show "endpoints_apart a b \<Longrightarrow> new_client b db \<Longrightarrow> new_client b (fst (sync_account fetch a db))"
    by (rule step) (metis fst_conv new_client_def endpoints_apart_def)
qed (auto simp: endpoints_apart_def)

lemma endpoints_apart_list:
  "distinct (names_of accs) \<Longrightarrow> distinct (urls_of accs) \<Longrightarrow> sorted_wrt endpoints_apart accs"
  by (induction accs) (auto simp: endpoints_apart_def)

section \<open>The accounts of an answer\<close>

lemma collected_distinct:
  "distinct (map f es) \<Longrightarrow> distinct (map (\<lambda>a. f (r_endpoint a)) (fst (collect_accounts usage seen es)))
     \<and> r_endpoint ` set (fst (collect_accounts usage seen es)) \<subseteq> set es"
proof (induction usage seen es rule: collect_accounts.induct)
  case (2 usage seen e es)
  then show ?case by (auto simp: Let_def split: sum.split prod.split if_splits) (metis image_eqI subsetD)+
qed simp

lemma resolved_apart:
  assumes "resolve usage es fs = (accs, errs)"
  shows "distinct (names_of accs)" and "distinct (urls_of accs)"
proof -
  obtain cs bad where c: "collect_accounts usage {} (Deduplicate es) = (cs, bad)" by fastforce
  then have accs: "accs = sort_key login_key cs" using assms by (simp add: resolve_def)
  have apart: "distinct (map f (Deduplicate es)) \<Longrightarrow> distinct (map (\<lambda>a. f (r_endpoint a)) accs)" for f :: "endpoint \<Rightarrow> string"
  proof -
    assume "distinct (map f (Deduplicate es))"
    then have "distinct (map (\<lambda>a. f (r_endpoint a)) cs)"
      using collected_distinct [of f "Deduplicate es" usage "{}"] c by simp
    moreover have "mset (map (\<lambda>a. f (r_endpoint a)) accs) = mset (map (\<lambda>a. f (r_endpoint a)) cs)" by (simp add: accs)
    ultimately show ?thesis by (metis mset_eq_imp_distinct_iff)
  qed
  have "distinct (map ep_url (Deduplicate es))" "distinct (map ep_name (Deduplicate es))"
    using keep_unseen_distinct [of "{}" "{}" "sort_by endpoint_cmp es"] by (simp_all add: Deduplicate_def)
  then show "distinct (names_of accs)" "distinct (urls_of accs)" using apart by blast+
qed

lemma synced_days:
  assumes "mset order = mset accs" and "distinct (names_of accs)" and "distinct (urls_of accs)"
    and "\<forall>a \<in> set accs. fetch a = Inr (snap a) \<and> whole_snapshot (snap a)" and a: "a \<in> set accs"
  shows "stored_days midnight now now_ms period (sync_accounts fetch order empty_database) a
    = Snapshot (map upstream_day.truncate (period_days midnight now now_ms period (snap a)))"
proof -
  let ?db = "sync_accounts fetch order empty_database"
  have set: "set order = set accs" using assms(1) by (metis set_mset_mset)
  have d: "distinct (names_of order)" "distinct (urls_of order)"
    using assms(1-3) by (metis mset_eq_imp_distinct_iff mset_map)+
  have ok: "database_ok empty_database" by (simp add: database_ok_def sources_ok_def empty_database_def)
  have new: "\<forall>a \<in> set order. new_client a empty_database \<and> (\<exists>h. brings_history fetch a h)"
    using assms(4) whole_saved by (fastforce simp: set new_client_def unknown_source_def empty_database_def brings_history_def)
  obtain h where h: "save_history [] (snap a) = Inr h" "whole_snapshot (snap a)"
    using whole_saved assms(4) a by blast
  have "held_for ?db a h"
    unfolding sync_accounts_def using assms(4) a h
    by (intro sync.filled [OF ok endpoints_apart_list [OF d] new]) (simp_all add: set brings_history_def)
  moreover have "loadDays (periodStart midnight period now) (now_ms + 1) h = period_days midnight now now_ms period (snap a)"
    using whole_saved [OF h(2)] h(1) by auto
  ultimately show ?thesis
    by (auto simp: stored_days_def LoadDaily_def held_for_def holds_history_def login_key_def)
qed

end
