(* ===== verification/Discover.thy ===== *)
theory Discover
  imports Server Service
begin

text \<open>
  Finding the instances (\<open>internal/discovery/discovery.go\<close>, lines 36 to 55 and 123 to 271): the
  entries of the configuration file and the running containers of the image. What the operating
  system says of the file and of the socket, the YAML decoder, the answers of Docker and
  \<open>NormalizeURL\<close> are arguments. An error of Docker is what \<open>errors.Is\<close> and \<open>errors.As\<close> find in it; the
  errors of the code are their messages.
\<close>

section \<open>Transport errors\<close>

text \<open>What \<open>errors.Is\<close> and \<open>errors.As\<close> find in an error.\<close>

record transport_error =
  te_canceled :: bool
  te_deadline :: bool
  te_timeout :: bool
  te_dns :: bool
  te_network :: bool

definition SafeMessage :: "transport_error \<Rightarrow> string" where
  "SafeMessage e =
     (if te_canceled e then ''request canceled''
      else if te_deadline e \<or> te_timeout e then ''request timed out''
      else if te_dns e then ''hostname resolution failed''
      else if te_network e then ''network connection failed''
      else ''request failed'')"

section \<open>The file\<close>

record yaml_entry =
  ye_name :: string
  ye_url :: string
  ye_key :: "string option"
  ye_key_env :: "string option"

text \<open>\<open>strings.TrimSpace(s) == ""\<close>: nothing is left when spaces are cut off at the start.\<close>

function blank :: "string \<Rightarrow> bool" where
  "blank s = (if s = [] then True
     else (case find (\<lambda>w. prefix w s) go_spaces of None \<Rightarrow> False
       | Some w \<Rightarrow> if w = [] then False else blank (drop (length w) s)))"
  by pat_completeness auto
termination by (relation "Wellfounded.measure length") auto

declare blank.simps [simp del]

definition entry_error :: "nat \<Rightarrow> string \<Rightarrow> string" where
  "entry_error i what = ''invalid endpoint entry '' @ digits (Suc i) @ '': '' @ what"

definition entry_key :: "(string \<Rightarrow> string option) \<Rightarrow> nat \<Rightarrow> yaml_entry \<Rightarrow> string + string" where
  "entry_key lookup i y = (case (ye_key y, ye_key_env y) of
     (Some _, Some _) \<Rightarrow> Inl (entry_error i ''api_key and api_key_env are mutually exclusive'')
   | (Some k, None) \<Rightarrow> if blank k then Inl (entry_error i ''credential is empty'') else Inr k
   | (None, Some v) \<Rightarrow> (case lookup v of
         Some k \<Rightarrow> if blank k \<or> v = [] then Inl (entry_error i ''credential environment variable is empty or missing'') else Inr k
       | None \<Rightarrow> Inl (entry_error i ''credential environment variable is empty or missing''))
   | (None, None) \<Rightarrow> Inr [])"

definition load_entry ::
  "(string \<Rightarrow> string option) \<Rightarrow> (string \<Rightarrow> string option) \<Rightarrow> nat \<Rightarrow> yaml_entry \<Rightarrow> string + endpoint" where
  "load_entry normal_url lookup i y = (case normal_url (ye_url y) of
     None \<Rightarrow> Inl (entry_error i ''name and valid URL required'')
   | Some base \<Rightarrow> if blank (ye_name y) then Inl (entry_error i ''name and valid URL required'')
       else map_sum id (\<lambda>k. \<lparr>ep_name = ye_name y, ep_url = base, ep_source = ''yaml'', ep_key = k\<rparr>) (entry_key lookup i y))"

fun load_entries ::
  "(string \<Rightarrow> string option) \<Rightarrow> (string \<Rightarrow> string option) \<Rightarrow> nat \<Rightarrow> yaml_entry list \<Rightarrow> string + endpoint list" where
  "load_entries normal_url lookup i [] = Inr []"
| "load_entries normal_url lookup i (y # ys) = (case load_entry normal_url lookup i y of
     Inl m \<Rightarrow> Inl m
   | Inr e \<Rightarrow> map_sum id ((#) e) (load_entries normal_url lookup (Suc i) ys))"

text \<open>
  The file: it does not exist, it cannot be opened, or its bytes, where they can be read. The decoder
  gives the entries of the first document and whether the input ends after it, unless it fails.
\<close>

datatype endpoint_file = Missing_File | Closed_File | Open_File "string option"

type_synonym yaml_decoder = "string \<Rightarrow> (yaml_entry list \<times> bool) option"

definition max_file :: nat where
  "max_file = 2 ^ 20"

definition read_file :: "yaml_decoder \<Rightarrow> endpoint_file \<Rightarrow> string + yaml_entry list" where
  "read_file yaml f = (case f of
     Missing_File \<Rightarrow> Inr []
   | Closed_File \<Rightarrow> Inl ''cannot read endpoint file''
   | Open_File None \<Rightarrow> Inl ''cannot read endpoint file''
   | Open_File (Some bytes) \<Rightarrow> (let data = take (max_file + 1) bytes in
       if max_file < length data then Inl ''endpoint YAML exceeds size limit''
       else (case yaml data of
         None \<Rightarrow> Inl ''invalid endpoint YAML''
       | Some (ys, ended) \<Rightarrow> if \<not> ended then Inl ''endpoint YAML must contain one document'' else Inr ys)))"

definition LoadYAML ::
  "(string \<Rightarrow> string option) \<Rightarrow> (string \<Rightarrow> string option) \<Rightarrow> yaml_decoder \<Rightarrow> endpoint_file \<Rightarrow> string + endpoint list" where
  "LoadYAML normal_url lookup yaml f = (case read_file yaml f of
     Inl m \<Rightarrow> Inl m | Inr ys \<Rightarrow> load_entries normal_url lookup 0 ys)"

section \<open>Docker\<close>

record container =
  ct_id :: string
  ct_names :: "string list"
  ct_image :: string
  ct_state :: string

text \<open>An inspected container: its running state and its environment, where they are present.\<close>

record inspected =
  in_name :: string
  in_running :: "bool option"
  in_env :: "string list option"

definition trim_prefix :: "string \<Rightarrow> string \<Rightarrow> string" where
  "trim_prefix p s = (if prefix p s then drop (length p) s else s)"

definition listed_name :: "container \<Rightarrow> string" where
  "listed_name c = (case ct_names c of [] \<Rightarrow> ct_id c | n # _ \<Rightarrow> trim_prefix ''/'' n)"

definition env_key :: "string list \<Rightarrow> string" where
  "env_key env = fold (\<lambda>s k. if prefix ''COPILOT_API_KEY='' s then drop (length ''COPILOT_API_KEY='') s else k) env []"

definition inspect_failure :: "string \<Rightarrow> string \<Rightarrow> failure" where
  "inspect_failure n m = \<lparr>target = n, operation = ''inspect'', message = m\<rparr>"

text \<open>One container: nothing, a failure, or an endpoint.\<close>

definition visit_container ::
  "(string \<Rightarrow> string option) \<Rightarrow> string \<Rightarrow> (string \<Rightarrow> transport_error + inspected) \<Rightarrow> container \<Rightarrow> (failure + endpoint) option" where
  "visit_container normal_url wanted inspect c =
     (if ct_image c \<noteq> wanted \<or> ct_state c \<noteq> ''running'' then None
      else (case inspect (ct_id c) of
        Inl err \<Rightarrow> Some (Inl (inspect_failure (listed_name c) (SafeMessage err)))
      | Inr v \<Rightarrow> (case (in_running v, in_env v) of
          (Some running, Some env) \<Rightarrow>
            if in_name v = [] then Some (Inl (inspect_failure (listed_name c) ''invalid container response''))
            else if \<not> running then None
            else (let name = trim_prefix ''/'' (in_name v) in case normal_url (''http://'' @ name @ '':4141'') of
                None \<Rightarrow> Some (Inl (inspect_failure name ''invalid container name''))
              | Some base \<Rightarrow> Some (Inr \<lparr>ep_name = name, ep_url = base, ep_source = ''docker'', ep_key = env_key env\<rparr>))
        | _ \<Rightarrow> Some (Inl (inspect_failure (listed_name c) ''invalid container response'')))))"

definition docker_failure :: "string \<Rightarrow> string \<Rightarrow> failure" where
  "docker_failure op m = \<lparr>target = ''docker'', operation = op, message = m\<rparr>"

text \<open>The socket is there or not, or cannot be accessed; there may be no client.\<close>

definition Discover ::
  "(string \<Rightarrow> string option) \<Rightarrow> (string \<Rightarrow> string option) \<Rightarrow> string \<Rightarrow> yaml_decoder \<Rightarrow> endpoint_file \<Rightarrow> bool option
     \<Rightarrow> (transport_error + container list) option \<Rightarrow> (string \<Rightarrow> transport_error + inspected)
     \<Rightarrow> endpoint list \<times> failure list" where
  "Discover normal_url lookup wanted yaml f socket containers inspect =
     (let (items, failures) = (case LoadYAML normal_url lookup yaml f of
            Inl m \<Rightarrow> ([], [\<lparr>target = ''yaml'', operation = ''discovery'', message = m\<rparr>])
          | Inr es \<Rightarrow> (es, []))
      in case socket of
           None \<Rightarrow> (Deduplicate items, failures @ [docker_failure ''discovery'' ''cannot access Docker socket''])
         | Some False \<Rightarrow> (Deduplicate items, failures)
         | Some True \<Rightarrow> (case containers of
             None \<Rightarrow> (Deduplicate items, failures @ [docker_failure ''discovery'' ''Docker client unavailable''])
           | Some (Inl err) \<Rightarrow> (Deduplicate items, failures @ [docker_failure ''list'' (SafeMessage err)])
           | Some (Inr cs) \<Rightarrow>
               (let found = List.map_filter (visit_container normal_url wanted inspect) cs
                in (Deduplicate (items @ List.map_filter (\<lambda>x. case x of Inl _ \<Rightarrow> None | Inr e \<Rightarrow> Some e) found),
                    failures @ List.map_filter (\<lambda>x. case x of Inl f \<Rightarrow> Some f | Inr _ \<Rightarrow> None) found))))"

section \<open>What there is to find\<close>

text \<open>
  An entry of the file stands for an endpoint when its name is not blank, its URL has a normal form
  and it gives a credential in at most one way, directly or by the name of a variable, that is not
  blank. Otherwise something is wrong with it.
\<close>

definition entry_endpoint :: "(string \<Rightarrow> string option) \<Rightarrow> (string \<Rightarrow> string option) \<Rightarrow> yaml_entry \<Rightarrow> endpoint \<Rightarrow> bool" where
  "entry_endpoint normal_url lookup y e \<longleftrightarrow> ep_source e = ''yaml'' \<and> ep_name e = ye_name y \<and> \<not> blank (ye_name y)
     \<and> normal_url (ye_url y) = Some (ep_url e)
     \<and> (ye_key y = None \<and> ye_key_env y = None \<and> ep_key e = []
      \<or> ye_key y = Some (ep_key e) \<and> ye_key_env y = None \<and> \<not> blank (ep_key e)
      \<or> ye_key y = None \<and> (\<exists>v. ye_key_env y = Some v \<and> v \<noteq> [] \<and> lookup v = Some (ep_key e)) \<and> \<not> blank (ep_key e))"

definition entry_wrong :: "(string \<Rightarrow> string option) \<Rightarrow> (string \<Rightarrow> string option) \<Rightarrow> yaml_entry \<Rightarrow> string \<Rightarrow> bool" where
  "entry_wrong normal_url lookup y w \<longleftrightarrow>
     w = ''name and valid URL required'' \<and> (blank (ye_name y) \<or> normal_url (ye_url y) = None)
   \<or> w = ''api_key and api_key_env are mutually exclusive'' \<and> ye_key y \<noteq> None \<and> ye_key_env y \<noteq> None
   \<or> w = ''credential is empty'' \<and> (\<exists>k. ye_key y = Some k \<and> blank k)
   \<or> w = ''credential environment variable is empty or missing''
     \<and> (\<exists>v. ye_key_env y = Some v \<and> (v = [] \<or> (\<forall>k. lookup v = Some k \<longrightarrow> blank k)))"

text \<open>What can be wrong with the file before its entries are looked at.\<close>

definition file_wrong :: "yaml_decoder \<Rightarrow> endpoint_file \<Rightarrow> string \<Rightarrow> bool" where
  "file_wrong yaml f m \<longleftrightarrow>
     m = ''cannot read endpoint file'' \<and> (f = Closed_File \<or> f = Open_File None)
   \<or> (\<exists>bytes. f = Open_File (Some bytes)
     \<and> (if 1048576 < length bytes then m = ''endpoint YAML exceeds size limit''
        else m = ''invalid endpoint YAML'' \<and> yaml bytes = None
        \<or> m = ''endpoint YAML must contain one document'' \<and> (\<exists>ys. yaml bytes = Some (ys, False))))"

text \<open>The entries of a file: none when it is missing.\<close>

definition file_entries :: "yaml_decoder \<Rightarrow> endpoint_file \<Rightarrow> yaml_entry list \<Rightarrow> bool" where
  "file_entries yaml f ys \<longleftrightarrow> f = Missing_File \<and> ys = []
   \<or> (\<exists>bytes. f = Open_File (Some bytes) \<and> length bytes \<le> 1048576 \<and> yaml bytes = Some (ys, True))"

text \<open>
  The endpoint of a running container: its name, without a slash in front, is the host, and the key
  is that of the last variable \<open>COPILOT_API_KEY\<close>, if there is one.
\<close>

definition container_endpoint :: "(string \<Rightarrow> string option) \<Rightarrow> inspected \<Rightarrow> endpoint \<Rightarrow> bool" where
  "container_endpoint normal_url v e \<longleftrightarrow> ep_source e = ''docker'' \<and> in_running v = Some True
     \<and> in_name v \<noteq> [] \<and> (in_name v = ''/'' @ ep_name e \<or> in_name v = ep_name e \<and> \<not> prefix ''/'' (in_name v))
     \<and> normal_url (''http://'' @ ep_name e @ '':4141'') = Some (ep_url e)
     \<and> (\<exists>env. in_env v = Some env
       \<and> ((\<forall>s \<in> set env. \<not> prefix ''COPILOT_API_KEY='' s) \<and> ep_key e = []
        \<or> (\<exists>as bs. env = as @ (''COPILOT_API_KEY='' @ ep_key e) # bs \<and> (\<forall>s \<in> set bs. \<not> prefix ''COPILOT_API_KEY='' s))))"

definition represented :: "endpoint list \<Rightarrow> endpoint \<Rightarrow> bool" where
  "represented es e \<longleftrightarrow> (\<exists>k \<in> set es. (ep_url k = ep_url e \<or> ep_name k = ep_name e) \<and> \<not> endpoint_less e k)"

text \<open>A container of the image that is listed as running is represented or reported.\<close>

definition container_found ::
  "(string \<Rightarrow> string option) \<Rightarrow> (string \<Rightarrow> transport_error + inspected) \<Rightarrow> endpoint list \<Rightarrow> failure list \<Rightarrow> container \<Rightarrow> bool" where
  "container_found normal_url inspect es fs c \<longleftrightarrow> (case inspect (ct_id c) of
     Inl err \<Rightarrow> inspect_failure (listed_name c) (SafeMessage err) \<in> set fs
   | Inr v \<Rightarrow>
       if in_running v = None \<or> in_env v = None \<or> in_name v = []
       then inspect_failure (listed_name c) ''invalid container response'' \<in> set fs
       else in_running v = Some False
         \<or> (\<exists>e. container_endpoint normal_url v e \<and> represented es e)
         \<or> normal_url (''http://'' @ trim_prefix ''/'' (in_name v) @ '':4141'') = None
           \<and> inspect_failure (trim_prefix ''/'' (in_name v)) ''invalid container name'' \<in> set fs)"

section \<open>The entries\<close>

lemma load_entry_right: "load_entry normal_url lookup i y = Inr e \<Longrightarrow> entry_endpoint normal_url lookup y e"
  by (auto simp: load_entry_def entry_key_def entry_endpoint_def map_sum_def split: option.splits if_splits sum.splits)

lemma load_entry_wrong: "load_entry normal_url lookup i y = Inl m \<Longrightarrow> \<exists>w. m = entry_error i w \<and> entry_wrong normal_url lookup y w"
  by (auto simp: load_entry_def entry_key_def entry_wrong_def map_sum_def split: option.splits if_splits sum.splits)

lemma load_entries_right:
  "load_entries normal_url lookup i ys = Inr es \<Longrightarrow> list_all2 (entry_endpoint normal_url lookup) ys es"
proof (induction normal_url lookup i ys arbitrary: es rule: load_entries.induct)
  case (2 normal_url lookup i y ys)
  then show ?case
    by (cases "load_entries normal_url lookup (Suc i) ys") (auto split: sum.splits dest: load_entry_right)
qed simp

lemma load_entries_wrong:
  "load_entries normal_url lookup i ys = Inl m \<Longrightarrow> \<exists>j < length ys. \<exists>w. m = entry_error (i + j) w
     \<and> entry_wrong normal_url lookup (ys ! j) w \<and> (\<forall>k < j. \<exists>e. entry_endpoint normal_url lookup (ys ! k) e)"
proof (induction normal_url lookup i ys rule: load_entries.induct)
  case (2 normal_url lookup i y ys)
  show ?case
  proof (cases "load_entry normal_url lookup i y")
    case (Inl x)
    then have "m = x" using "2.prems" by simp
    then show ?thesis using load_entry_wrong [OF Inl] by (intro exI [of _ 0]) simp
  next
    case (Inr e)
    then have "load_entries normal_url lookup (Suc i) ys = Inl m"
      using "2.prems" by (cases "load_entries normal_url lookup (Suc i) ys") simp_all
    from "2.IH" [OF Inr this] obtain j w where j: "j < length ys" "m = entry_error (Suc i + j) w"
      "entry_wrong normal_url lookup (ys ! j) w" "\<forall>k < j. \<exists>e. entry_endpoint normal_url lookup (ys ! k) e"
      by blast
    have "\<exists>e. entry_endpoint normal_url lookup ((y # ys) ! k) e" if "k < Suc j" for k
      using that j(4) load_entry_right [OF Inr] by (cases k) auto
    then show ?thesis using j(1-3) by (intro exI [of _ "Suc j"]) auto
  qed
qed simp

lemma read_file_wrong: "read_file yaml f = Inl m \<longleftrightarrow> file_wrong yaml f m"
  by (cases f rule: endpoint_file.exhaust)
    (auto simp: read_file_def file_wrong_def max_file_def Let_def split: option.splits)

lemma read_file_entries: "read_file yaml f = Inr ys \<longleftrightarrow> file_entries yaml f ys"
  by (cases f rule: endpoint_file.exhaust)
    (auto simp: read_file_def file_entries_def max_file_def Let_def split: option.splits)

section \<open>What is found\<close>

lemma map_filter_set: "x \<in> set (List.map_filter f xs) \<longleftrightarrow> (\<exists>y \<in> set xs. f y = Some x)"
  by (induction xs) (auto simp: map_filter_simps split: option.split)

lemma last_with_prefix:
  fixes p :: string
  assumes "k = fold (\<lambda>s k. if prefix p s then drop (length p) s else k) env []"
  shows "(\<forall>s \<in> set env. \<not> prefix p s) \<and> k = [] \<or> (\<exists>as bs. env = as @ (p @ k) # bs \<and> (\<forall>s \<in> set bs. \<not> prefix p s))"
  using assms
proof (induction env arbitrary: k rule: rev_induct)
  case (snoc s env)
  show ?case
  proof (cases "prefix p s")
    case True
    then have "s = p @ k" using snoc.prems by (auto simp: prefix_def)
    then have "env @ [s] = env @ (p @ k) # [] \<and> (\<forall>s \<in> set []. \<not> prefix p s)" by simp
    then show ?thesis by blast
  next
    case False
    then have "(\<forall>s \<in> set env. \<not> prefix p s) \<and> k = [] \<or> (\<exists>as bs. env = as @ (p @ k) # bs \<and> (\<forall>s \<in> set bs. \<not> prefix p s))"
      using snoc by simp
    then show ?thesis
    proof (elim disjE exE conjE)
      fix as bs
      assume "env = as @ (p @ k) # bs" "\<forall>s \<in> set bs. \<not> prefix p s"
      then have "env @ [s] = as @ (p @ k) # (bs @ [s]) \<and> (\<forall>x \<in> set (bs @ [s]). \<not> prefix p x)" using False by simp
      then show ?thesis by blast
    qed (use False in simp)
  qed
qed simp

lemmas env_key_last = last_with_prefix [OF env_key_def]

lemma visit_right:
  assumes "visit_container normal_url wanted inspect c = Some (Inr e)"
  shows "ct_image c = wanted \<and> ct_state c = ''running'' \<and> (\<exists>v. inspect (ct_id c) = Inr v \<and> container_endpoint normal_url v e)"
proof -
  obtain v env base where v: "ct_image c = wanted" "ct_state c = ''running''" "inspect (ct_id c) = Inr v" "in_running v = Some True"
    "in_env v = Some env" "in_name v \<noteq> []" "normal_url (''http://'' @ trim_prefix ''/'' (in_name v) @ '':4141'') = Some base"
    "e = \<lparr>ep_name = trim_prefix ''/'' (in_name v), ep_url = base, ep_source = ''docker'', ep_key = env_key env\<rparr>"
    using assms by (auto simp: visit_container_def Let_def split: if_splits sum.splits option.splits)
  moreover have "in_name v = ''/'' @ trim_prefix ''/'' (in_name v)
      \<or> in_name v = trim_prefix ''/'' (in_name v) \<and> \<not> prefix ''/'' (in_name v)"
    by (auto simp: trim_prefix_def prefix_def)
  ultimately show ?thesis using env_key_last [of env] by (simp add: container_endpoint_def)
qed

text \<open>The endpoints before they are deduplicated.\<close>

definition file_endpoints :: "(string \<Rightarrow> string option) \<Rightarrow> (string \<Rightarrow> string option) \<Rightarrow> yaml_decoder \<Rightarrow> endpoint_file \<Rightarrow> endpoint list" where
  "file_endpoints normal_url lookup yaml f = (case LoadYAML normal_url lookup yaml f of Inl _ \<Rightarrow> [] | Inr es \<Rightarrow> es)"

definition visited :: "(string \<Rightarrow> string option) \<Rightarrow> string \<Rightarrow> bool option \<Rightarrow> (transport_error + container list) option
    \<Rightarrow> (string \<Rightarrow> transport_error + inspected) \<Rightarrow> (failure + endpoint) list" where
  "visited normal_url wanted socket containers inspect = (case (socket, containers) of
     (Some True, Some (Inr cs)) \<Rightarrow> List.map_filter (visit_container normal_url wanted inspect) cs | _ \<Rightarrow> [])"

lemma visited_in: "x \<in> set (visited normal_url wanted socket containers inspect) \<longleftrightarrow>
    socket = Some True \<and> (\<exists>cs. containers = Some (Inr cs) \<and> (\<exists>c \<in> set cs. visit_container normal_url wanted inspect c = Some x))"
  by (cases containers) (auto simp: visited_def map_filter_set split: sum.split option.split bool.split)

lemma discover_endpoints:
  "fst (Discover normal_url lookup wanted yaml f socket containers inspect) = Deduplicate (file_endpoints normal_url lookup yaml f
     @ List.map_filter (\<lambda>x. case x of Inl _ \<Rightarrow> None | Inr e \<Rightarrow> Some e) (visited normal_url wanted socket containers inspect))"
  by (auto simp: Discover_def file_endpoints_def visited_def Let_def map_filter_simps split: sum.split option.split bool.split)

lemma failures_of: "f \<in> set (List.map_filter (\<lambda>x. case x of Inl f \<Rightarrow> Some f | Inr _ \<Rightarrow> None) vs) \<longleftrightarrow> Inl f \<in> set vs"
proof -
  have "(case x of Inl f \<Rightarrow> Some f | Inr _ \<Rightarrow> None) = Some f \<longleftrightarrow> x = Inl f" for x :: "'a + 'b"
    by (cases x) simp_all
  then show ?thesis by (simp add: map_filter_set)
qed

lemma endpoints_of: "e \<in> set (List.map_filter (\<lambda>x. case x of Inl _ \<Rightarrow> None | Inr e \<Rightarrow> Some e) vs) \<longleftrightarrow> Inr e \<in> set vs"
proof -
  have "(case x of Inl _ \<Rightarrow> None | Inr e \<Rightarrow> Some e) = Some e \<longleftrightarrow> x = Inr e" for x :: "'b + 'a"
    by (cases x) simp_all
  then show ?thesis by (simp add: map_filter_set)
qed

lemma file_endpoints_right:
  "e \<in> set (file_endpoints normal_url lookup yaml f)
     \<Longrightarrow> \<exists>ys. file_entries yaml f ys \<and> (\<exists>y \<in> set ys. entry_endpoint normal_url lookup y e)"
proof -
  assume e: "e \<in> set (file_endpoints normal_url lookup yaml f)"
  obtain ys es where r: "read_file yaml f = Inr ys" "load_entries normal_url lookup 0 ys = Inr es" "e \<in> set es"
    using e by (cases "read_file yaml f"; cases "load_entries normal_url lookup 0 (projr (read_file yaml f))")
      (auto simp: file_endpoints_def LoadYAML_def)
  then obtain i where "i < length es" "es ! i = e" by (auto simp: in_set_conv_nth)
  then have "i < length ys" "entry_endpoint normal_url lookup (ys ! i) e"
    using load_entries_right [OF r(2)] by (auto simp: list_all2_conv_all_nth)
  then show ?thesis using r(1) nth_mem unfolding read_file_entries by blast
qed

lemma file_endpoints_all:
  assumes "file_entries yaml f ys" and "\<forall>y \<in> set ys. \<exists>e. entry_endpoint normal_url lookup y e"
    and "y \<in> set ys" and "entry_endpoint normal_url lookup y e"
  shows "e \<in> set (file_endpoints normal_url lookup yaml f)"
proof -
  have r: "read_file yaml f = Inr ys" using assms(1) by (simp add: read_file_entries)
  have excl: "entry_wrong normal_url lookup x w \<Longrightarrow> \<not> entry_endpoint normal_url lookup x d" for x w d
    by (auto simp: entry_wrong_def entry_endpoint_def)
  obtain es where es: "load_entries normal_url lookup 0 ys = Inr es"
  proof (cases "load_entries normal_url lookup 0 ys")
    case (Inl m)
    then show ?thesis using load_entries_wrong [OF Inl] excl assms(2) nth_mem by metis
  qed
  obtain i where i: "i < length ys" "ys ! i = y" using assms(3) by (auto simp: in_set_conv_nth)
  have "length es = length ys" "entry_endpoint normal_url lookup y (es ! i)"
    using load_entries_right [OF es] i by (auto simp: list_all2_conv_all_nth)
  moreover have "e = es ! i"
    using assms(4) calculation(2) by (cases e; cases "es ! i") (auto simp: entry_endpoint_def)
  ultimately show ?thesis using r es i by (simp add: file_endpoints_def LoadYAML_def)
qed

lemma discover_failures:
  "Inl x \<in> set (visited normal_url wanted socket containers inspect)
     \<Longrightarrow> x \<in> set (snd (Discover normal_url lookup wanted yaml f socket containers inspect))"
  by (auto simp: Discover_def visited_def Let_def failures_of split: sum.split option.splits bool.splits sum.splits)

lemma discover_known:
  "set (file_endpoints normal_url lookup yaml f
     @ List.map_filter (\<lambda>x. case x of Inl _ \<Rightarrow> None | Inr e \<Rightarrow> Some e) (visited normal_url wanted socket containers inspect))
     \<subseteq> known_sources"
proof -
  have "ep_source e = ''yaml''" if "e \<in> set (file_endpoints normal_url lookup yaml f)" for e
    using file_endpoints_right [OF that] by (auto simp: entry_endpoint_def)
  moreover have "ep_source e = ''docker''" if "Inr e \<in> set (visited normal_url wanted socket containers inspect)" for e
    using that unfolding visited_in by (auto simp: container_endpoint_def dest!: visit_right)
  ultimately show ?thesis by (auto simp: known_sources_def endpoints_of)
qed

lemma yaml_reported:
  "LoadYAML normal_url lookup yaml f = Inl m \<Longrightarrow> \<lparr>target = ''yaml'', operation = ''discovery'', message = m\<rparr>
     \<in> set (snd (Discover normal_url lookup wanted yaml f socket containers inspect))"
  by (auto simp: Discover_def Let_def split: option.split bool.split sum.split)

lemma container_visited:
  assumes "socket = Some True" and "containers = Some (Inr cs)" and "c \<in> set cs" and "ct_image c = wanted" and "ct_state c = ''running''"
    and "\<And>x. Inl x \<in> set (visited normal_url wanted socket containers inspect) \<Longrightarrow> x \<in> set fs"
    and "\<And>e. Inr e \<in> set (visited normal_url wanted socket containers inspect) \<Longrightarrow> represented es e"
  shows "container_found normal_url inspect es fs c"
proof -
  have v: "x \<in> set (visited normal_url wanted socket containers inspect)" if "visit_container normal_url wanted inspect c = Some x" for x
    using that assms(1-3) unfolding visited_in by blast
  show ?thesis
  proof (cases "visit_container normal_url wanted inspect c")
    case None
    then show ?thesis using assms(4,5)
      by (auto simp: container_found_def visit_container_def Let_def split: sum.splits option.splits if_splits)
  next
    case (Some x)
    show ?thesis
    proof (cases x)
      case (Inl y)
      then have y: "visit_container normal_url wanted inspect c = Some (Inl y)" "y \<in> set fs" using Some v assms(6) by simp_all
      then show ?thesis using assms(4,5)
        by (auto simp: container_found_def visit_container_def Let_def split: sum.splits option.splits if_splits)
    next
      case (Inr e)
      then have e: "visit_container normal_url wanted inspect c = Some (Inr e)" "represented es e" using Some v assms(7) by simp_all
      then obtain u where u: "inspect (ct_id c) = Inr u" "container_endpoint normal_url u e" using visit_right by blast
      then have "in_running u = Some True" "in_env u \<noteq> None" "in_name u \<noteq> []" by (auto simp: container_endpoint_def)
      then show ?thesis using u e(2) by (auto simp: container_found_def)
    qed
  qed
qed

text \<open>
  C34: every instance is found or reported. The endpoints that are found are those of entries of the
  file and of running containers of the image, no two with the same URL or name. When the file
  can be read and all its entries are right, each is represented by an endpoint of the file with
  its URL or name, so that the file takes precedence over Docker; what is wrong with the file, or
  with the first entry that is not right, is reported. A socket that cannot be accessed, a missing
  client and containers that cannot be listed are reported. And each container of the image that
  is listed as running, unless it has stopped since, is represented by an endpoint with its URL or
  name that does not come after it, or reported: when it cannot be inspected, when the answer is
  not complete, and when its name gives no URL.
\<close>

theorem instances_found:
  assumes "Discover normal_url lookup wanted yaml f socket containers inspect = (es, fs)"
  shows "distinct (map ep_url es) \<and> distinct (map ep_name es)
    \<and> (\<forall>e \<in> set es. (\<exists>ys. file_entries yaml f ys \<and> (\<exists>y \<in> set ys. entry_endpoint normal_url lookup y e))
       \<or> (\<exists>cs. socket = Some True \<and> containers = Some (Inr cs) \<and> (\<exists>c \<in> set cs. ct_image c = wanted \<and> ct_state c = ''running''
          \<and> (\<exists>v. inspect (ct_id c) = Inr v \<and> container_endpoint normal_url v e))))
    \<and> (\<forall>m. file_wrong yaml f m \<longrightarrow> \<lparr>target = ''yaml'', operation = ''discovery'', message = m\<rparr> \<in> set fs)
    \<and> (\<forall>ys. file_entries yaml f ys \<longrightarrow>
        (if \<forall>y \<in> set ys. \<exists>e. entry_endpoint normal_url lookup y e
         then \<forall>y \<in> set ys. \<forall>e. entry_endpoint normal_url lookup y e \<longrightarrow>
           (\<exists>k \<in> set es. ep_source k = ''yaml'' \<and> (ep_url k = ep_url e \<or> ep_name k = ep_name e))
         else \<exists>i < length ys. \<exists>w. entry_wrong normal_url lookup (ys ! i) w \<and> (\<forall>j < i. \<exists>e. entry_endpoint normal_url lookup (ys ! j) e)
           \<and> \<lparr>target = ''yaml'', operation = ''discovery'', message = entry_error i w\<rparr> \<in> set fs))
    \<and> (socket = None \<longrightarrow> docker_failure ''discovery'' ''cannot access Docker socket'' \<in> set fs)
    \<and> (socket = Some True \<and> containers = None \<longrightarrow> docker_failure ''discovery'' ''Docker client unavailable'' \<in> set fs)
    \<and> (\<forall>err. socket = Some True \<and> containers = Some (Inl err) \<longrightarrow> docker_failure ''list'' (SafeMessage err) \<in> set fs)
    \<and> (\<forall>cs. socket = Some True \<and> containers = Some (Inr cs) \<longrightarrow>
        (\<forall>c \<in> set cs. ct_image c = wanted \<and> ct_state c = ''running'' \<longrightarrow> container_found normal_url inspect es fs c))"
proof -
  let ?D = "Discover normal_url lookup wanted yaml f socket containers inspect"
  let ?V = "visited normal_url wanted socket containers inspect"
  let ?all = "file_endpoints normal_url lookup yaml f @ List.map_filter (\<lambda>x. case x of Inl _ \<Rightarrow> None | Inr e \<Rightarrow> Some e) ?V"
  have es: "es = Deduplicate ?all" using discover_endpoints [of normal_url lookup wanted yaml f socket containers inspect] assms by simp
  have fs: "fs = snd ?D" using assms by simp
  have known: "set ?all \<subseteq> known_sources" by (rule discover_known)
  have all: "represented es e" if "e \<in> set ?all" for e
    using Deduplicate_covers [OF known that] by (simp add: es represented_def)
  have distinct: "distinct (map ep_url es) \<and> distinct (map ep_name es)"
    using keep_unseen_distinct [of "{}" "{}" "sort_by endpoint_cmp ?all"] by (simp add: es Deduplicate_def)
  have origin: "(\<exists>ys. file_entries yaml f ys \<and> (\<exists>y \<in> set ys. entry_endpoint normal_url lookup y e))
       \<or> (\<exists>cs. socket = Some True \<and> containers = Some (Inr cs) \<and> (\<exists>c \<in> set cs. ct_image c = wanted \<and> ct_state c = ''running''
          \<and> (\<exists>v. inspect (ct_id c) = Inr v \<and> container_endpoint normal_url v e)))" if e: "e \<in> set es" for e
  proof (cases "e \<in> set (file_endpoints normal_url lookup yaml f)")
    case False
    then have "Inr e \<in> set ?V" using e Deduplicate_subset [of ?all] by (auto simp: es endpoints_of)
    then obtain cs c where c: "socket = Some True" "containers = Some (Inr cs)" "c \<in> set cs"
      "visit_container normal_url wanted inspect c = Some (Inr e)"
      unfolding visited_in by blast
    show ?thesis by (intro disjI2 exI [of _ cs] conjI bexI [of _ c] c(1-3) visit_right [OF c(4), THEN conjunct1]
        visit_right [OF c(4), THEN conjunct2, THEN conjunct1] visit_right [OF c(4), THEN conjunct2, THEN conjunct2])
  qed (use file_endpoints_right in blast)
  have wrong: "\<lparr>target = ''yaml'', operation = ''discovery'', message = m\<rparr> \<in> set fs" if "file_wrong yaml f m" for m
    unfolding fs by (rule yaml_reported) (use that in \<open>simp add: LoadYAML_def flip: read_file_wrong\<close>)
  have right: "\<exists>k \<in> set es. ep_source k = ''yaml'' \<and> (ep_url k = ep_url e \<or> ep_name k = ep_name e)"
    if r: "file_entries yaml f ys" "\<forall>y \<in> set ys. \<exists>e. entry_endpoint normal_url lookup y e" "y \<in> set ys" "entry_endpoint normal_url lookup y e"
    for ys y e
  proof -
    obtain k where k: "k \<in> set es" "ep_url k = ep_url e \<or> ep_name k = ep_name e" "\<not> endpoint_less e k"
      using all file_endpoints_all [OF r] by (auto simp: represented_def)
    have "k \<in> known_sources" using k(1) known Deduplicate_subset [of ?all] es by blast
    then have "ep_source k = ''yaml''" using k(3) r(4) by (auto simp: endpoint_less_def known_sources_def entry_endpoint_def split: if_splits)
    then show ?thesis using k by blast
  qed
  have first: "\<exists>i < length ys. \<exists>w. entry_wrong normal_url lookup (ys ! i) w \<and> (\<forall>j < i. \<exists>e. entry_endpoint normal_url lookup (ys ! j) e)
      \<and> \<lparr>target = ''yaml'', operation = ''discovery'', message = entry_error i w\<rparr> \<in> set fs"
    if r: "file_entries yaml f ys" "\<not> (\<forall>y \<in> set ys. \<exists>e. entry_endpoint normal_url lookup y e)" for ys
  proof (cases "load_entries normal_url lookup 0 ys")
    case (Inl m)
    have "\<lparr>target = ''yaml'', operation = ''discovery'', message = m\<rparr> \<in> set fs"
      unfolding fs by (rule yaml_reported) (use r(1) Inl in \<open>simp add: LoadYAML_def flip: read_file_entries\<close>)
    then show ?thesis using load_entries_wrong [OF Inl] by auto
  next
    case (Inr ds)
    then have "\<forall>y \<in> set ys. \<exists>e. entry_endpoint normal_url lookup y e"
      using load_entries_right [OF Inr] by (metis in_set_conv_nth list_all2_conv_all_nth)
    then show ?thesis using r(2) by contradiction
  qed
  have docker: "docker_failure ''discovery'' ''cannot access Docker socket'' \<in> set fs" if "socket = None"
    using that by (auto simp: fs Discover_def Let_def split: sum.split)
  have client: "docker_failure ''discovery'' ''Docker client unavailable'' \<in> set fs" if "socket = Some True" "containers = None"
    using that by (auto simp: fs Discover_def Let_def split: sum.split)
  have listed: "docker_failure ''list'' (SafeMessage err) \<in> set fs" if "socket = Some True" "containers = Some (Inl err)" for err
    using that by (auto simp: fs Discover_def Let_def split: sum.split)
  have found: "container_found normal_url inspect es fs c"
    if "socket = Some True" "containers = Some (Inr cs)" "c \<in> set cs" "ct_image c = wanted" "ct_state c = ''running''" for cs c
    using that by (rule container_visited) (simp_all add: fs discover_failures all endpoints_of)
  show ?thesis using distinct origin wrong right first docker client listed found by simp
qed

theorem instances_found_witness:
  "\<exists>k \<in> set (fst (Discover Some (\<lambda>_. None)
      ''img'' (\<lambda>_. Some ([\<lparr>ye_name = ''octo'', ye_url = ''http://octo:4141'', ye_key = None, ye_key_env = None\<rparr>], True))
      (Open_File (Some ''octo'')) (Some True)
      (Some (Inr [\<lparr>ct_id = ''1'', ct_names = [''/octo''], ct_image = ''img'', ct_state = ''running''\<rparr>]))
      (\<lambda>_. Inr \<lparr>in_name = ''/octo'', in_running = Some True, in_env = Some [''COPILOT_API_KEY=k'']\<rparr>))).
    ep_source k = ''yaml'' \<and> (ep_url k = ''http://octo:4141'' \<or> ep_name k = ''octo'')"
proof -
  let ?y = "\<lparr>ye_name = ''octo'', ye_url = ''http://octo:4141'', ye_key = None, ye_key_env = None\<rparr>"
  let ?e = "\<lparr>ep_name = ''octo'', ep_url = ''http://octo:4141'', ep_source = ''yaml'', ep_key = []\<rparr>"
  let ?yaml = "\<lambda>_. Some ([?y], True)"
  let ?d = "Discover Some (\<lambda>_. None) ''img'' ?yaml (Open_File (Some ''octo'')) (Some True)
      (Some (Inr [\<lparr>ct_id = ''1'', ct_names = [''/octo''], ct_image = ''img'', ct_state = ''running''\<rparr>]))
      (\<lambda>_. Inr \<lparr>in_name = ''/octo'', in_running = Some True, in_env = Some [''COPILOT_API_KEY=k'']\<rparr>)"
  have "\<not> blank ''octo''" by code_simp
  then have e: "entry_endpoint Some (\<lambda>_. None) ?y ?e" by (simp add: entry_endpoint_def)
  have ys: "file_entries ?yaml (Open_File (Some ''octo'')) [?y]" by (simp add: file_entries_def)
  have "?d = (fst ?d, snd ?d)" by simp
  note all = instances_found [OF this, THEN conjunct2, THEN conjunct2, THEN conjunct2, THEN conjunct2, THEN conjunct1, rule_format, OF ys]
  have "\<forall>y \<in> set [?y]. \<exists>e. entry_endpoint Some (\<lambda>_. None) y e" using e by auto
  from all [unfolded if_P [OF this], rule_format, OF _ e] show ?thesis by simp
qed

end
