(* ===== verification/Client.thy ===== *)
theory Client
  imports Endpoint_URL Store_Sync Discover
begin

text \<open>
  The client of the instances (\<open>internal/upstream/client.go\<close>, lines 34 to 129): which request is
  sent to an instance, which answers are let through, and with which messages the others are
  reported. The network is an argument: how far the exchange of a request gets, and the decoded
  answer.
\<close>

section \<open>Transport\<close>

text \<open>The body: not read to its end, or its size and what it decodes to (\<open>null\<close> to nil).\<close>

datatype 'a answer_body = Unread transport_error | Bytes nat "'a option option"

datatype 'a exchange =
    NoRequest
  | NotSent transport_error
  | Responded nat "'a answer_body"

text \<open>The request, and what the client has to send it: a slot, or the end of the context, and the network.\<close>

record client_request =
  cr_url :: string
  cr_query :: "(string \<times> string) list"
  cr_key :: "string option"

record 'a transport =
  tp_slot :: "transport_error option"
  tp_send :: "client_request \<Rightarrow> 'a exchange"

definition MaxResponseBytes :: nat where
  "MaxResponseBytes = 16 * 2 ^ 20"

definition get_body :: "'a answer_body \<Rightarrow> string + 'a option" where
  "get_body b = (case b of
     Unread e \<Rightarrow> Inl (SafeMessage e)
   | Bytes n d \<Rightarrow> if MaxResponseBytes < n then Inl ''upstream response exceeds size limit''
       else (case d of None \<Rightarrow> Inl ''invalid upstream JSON response'' | Some v \<Rightarrow> Inr v))"

text \<open>\<open>normalized\<close> is \<open>NormalizeURL\<close>; a redirect is an answer like any other.\<close>

definition get :: "(string \<Rightarrow> string + string) \<Rightarrow> endpoint \<Rightarrow> string \<Rightarrow> (string \<times> string) list \<Rightarrow> 'a transport
    \<Rightarrow> string + 'a option" where
  "get normalized e path query tp = (case tp_slot tp of
     Some err \<Rightarrow> Inl (SafeMessage err)
   | None \<Rightarrow> (case normalized (ep_url e) of
       Inl m \<Rightarrow> Inl m
     | Inr base \<Rightarrow> (case tp_send tp \<lparr>cr_url = base @ ''/'' @ path, cr_query = query,
           cr_key = (if ep_key e \<noteq> [] then Some (ep_key e) else None)\<rparr> of
         NoRequest \<Rightarrow> Inl ''cannot construct upstream request''
       | NotSent err \<Rightarrow> Inl (SafeMessage err)
       | Responded status b \<Rightarrow>
           if status < 200 \<or> 300 \<le> status then Inl (''upstream returned HTTP '' @ digits status) else get_body b)))"

section \<open>Answers\<close>

record wire_summary =
  ws_period :: string
  ws_range_end :: int
  ws_totals :: "go_totals option"
  ws_models :: "go_model list option"

record wire_day =
  wd_date :: string
  wd_start :: int
  wd_end :: int
  wd_totals :: "go_totals option"
  wd_models :: "go_model list option"

record wire_daily = wire_summary +
  wy_days :: "wire_day list option"

record 'e wire_events =
  we_items :: "'e list option"
  we_page :: int
  we_page_size :: int
  we_total :: int
  we_total_pages :: int
  we_period :: string

definition valid_login :: "string \<Rightarrow> bool" where
  "valid_login l \<longleftrightarrow> \<not> blank l \<and> is_trimmed l"

text \<open>The four requests; the result has no nil where the code has checked there is none.\<close>

definition client_usage :: "(string \<Rightarrow> string + string) \<Rightarrow> endpoint \<Rightarrow> 'q go_usage transport \<Rightarrow> string + 'q go_usage" where
  "client_usage normalized e tp = (case get normalized e ''usage'' [] tp of
     Inl m \<Rightarrow> Inl m
   | Inr None \<Rightarrow> Inl ''upstream usage has no valid login''
   | Inr (Some v) \<Rightarrow> if valid_login (gu_login v) then Inr v else Inl ''upstream usage has no valid login'')"

definition validSummary :: "('a wire_summary_scheme) \<Rightarrow> string \<Rightarrow> (go_totals \<times> go_model list) option" where
  "validSummary v period = (case (ws_totals v, ws_models v) of
     (Some t, Some ms) \<Rightarrow> if ws_period v = period \<and> gt_costs t \<noteq> None then Some (t, ms) else None
   | _ \<Rightarrow> None)"

definition client_summary :: "(string \<Rightarrow> string + string) \<Rightarrow> endpoint \<Rightarrow> wire_summary transport \<Rightarrow> string \<Rightarrow> string + summary" where
  "client_summary normalized e tp period = (case get normalized e ''token-usage'' [(''period'', period)] tp of
     Inl m \<Rightarrow> Inl m
   | Inr None \<Rightarrow> Inl ''invalid upstream summary response''
   | Inr (Some v) \<Rightarrow> (case validSummary v period of
       None \<Rightarrow> Inl ''invalid upstream summary response''
     | Some (t, ms) \<Rightarrow> Inr \<lparr>su_totals = t, su_models = ms\<rparr>))"

definition checked_day :: "wire_day \<Rightarrow> snapshot_day option" where
  "checked_day d = (case (parse_date (wd_date d), wd_totals d, wd_models d) of
     (Some _, Some t, Some ms) \<Rightarrow> Some \<lparr>ud_date = wd_date d, ud_totals = t, ud_models = ms, start_ms = wd_start d, end_ms = wd_end d\<rparr>
   | _ \<Rightarrow> None)"

fun checked_days :: "wire_day list \<Rightarrow> snapshot_day list option" where
  "checked_days [] = Some []"
| "checked_days (d # ds) = (case checked_day d of None \<Rightarrow> None | Some x \<Rightarrow> map_option ((#) x) (checked_days ds))"

definition client_daily :: "(string \<Rightarrow> string + string) \<Rightarrow> endpoint \<Rightarrow> wire_daily transport \<Rightarrow> string \<Rightarrow> string + snapshot" where
  "client_daily normalized e tp period = (case get normalized e ''token-usage/daily'' [(''period'', period)] tp of
     Inl m \<Rightarrow> Inl m
   | Inr None \<Rightarrow> Inl ''invalid upstream daily response''
   | Inr (Some v) \<Rightarrow> (case (validSummary v period, wy_days v) of
       (Some _, Some ds) \<Rightarrow> (case checked_days ds of
           None \<Rightarrow> Inl ''invalid upstream daily bucket''
         | Some xs \<Rightarrow> Inr \<lparr>range_end = ws_range_end v, snap_days = xs\<rparr>)
     | _ \<Rightarrow> Inl ''invalid upstream daily response''))"

definition client_events :: "(string \<Rightarrow> string + string) \<Rightarrow> endpoint \<Rightarrow> 'e wire_events transport \<Rightarrow> string \<Rightarrow> nat \<Rightarrow> nat \<Rightarrow> string + 'e wire_events" where
  "client_events normalized e tp period page rows = (case get normalized e ''token-usage/events''
       [(''page'', digits page), (''page_size'', digits rows), (''period'', period)] tp of
     Inl m \<Rightarrow> Inl m
   | Inr None \<Rightarrow> Inl ''invalid upstream events response''
   | Inr (Some v) \<Rightarrow> if we_period v \<noteq> period \<or> we_items v = None \<or> we_page v < 1 \<or> we_page_size v < 1
         \<or> 100 < we_page_size v \<or> we_total v < 0 \<or> we_total_pages v < 0
       then Inl ''invalid upstream events response'' else Inr v)"

text \<open>A login the client accepts is not always one the handler accepts as an account.\<close>

theorem tab_login_refused:
  "valid_login (''a'' @ [CHR 0x09] @ ''b'') \<and> \<not> validAccount (''a'' @ [CHR 0x09] @ ''b'')"
  by code_simp

section \<open>Shared synchronizations\<close>

text \<open>
  How a caller comes to the result of a synchronization it shares with others
  (\<open>internal/dashboard/service.go\<close>, lines 235 to 306): its context ends before or while it waits,
  the group's function does not begin because the service is stopping, or it gives a result. Which
  callers share one function is up to \<open>singleflight\<close>.
\<close>

datatype 'a shared = Interrupted transport_error | Stopping | Result 'a

definition canceled :: transport_error where
  "canceled = \<lparr>te_canceled = True, te_deadline = False, te_timeout = False, te_dns = False, te_network = False\<rparr>"

definition shared_result :: "'a shared \<Rightarrow> transport_error + 'a" where
  "shared_result x = (case x of Interrupted e \<Rightarrow> Inl e | Stopping \<Rightarrow> Inl canceled | Result v \<Rightarrow> Inr v)"

text \<open>Resolving for a synchronization, with the message \<open>Sync\<close> reports when it does not resolve.\<close>

definition resolveForSync :: "('q resolved list \<times> failure list) shared \<Rightarrow> string + 'q resolved list \<times> failure list" where
  "resolveForSync x = map_sum SafeMessage id (shared_result x)"

definition wait_account :: "failure option shared \<Rightarrow> 'q resolved \<Rightarrow> failure option" where
  "wait_account x a = (case shared_result x of
     Inl e \<Rightarrow> Some (endpoint_failure (r_endpoint a) ''sync'' (SafeMessage e))
   | Inr f \<Rightarrow> f)"

end
