(* ===== verification/Sync_Tasks.thy ===== *)
theory Sync_Tasks
  imports Systems
begin

text \<open>
  The lifetime of shared synchronization tasks (\<open>internal/dashboard/service.go\<close>, lines 201 to
  233). Each function holds the mutex from its first to its last statement, only the receive
  of \<open>WaitForSync\<close> happens outside, so a function is one step on the guarded fields. A channel
  is a number, the next unused one when it is made; a nil channel is \<open>None\<close>. Closing a channel
  that is nil or closed panics: the result is \<open>None\<close>. The counter is a Go \<open>int\<close>; it counts
  goroutines and stays far below its bound.
\<close>

record sync_state =
  syncTasks :: int
  syncStopped :: bool
  syncDone :: "nat option"
  made :: nat
  closed_channels :: "nat set"

definition close_done :: "sync_state \<Rightarrow> sync_state option" where
  "close_done s = (case syncDone s of None \<Rightarrow> None
     | Some c \<Rightarrow> if c \<in> closed_channels s then None
         else Some (s\<lparr>closed_channels := insert c (closed_channels s)\<rparr>))"

definition beginSyncTask :: "sync_state \<Rightarrow> bool \<times> sync_state" where
  "beginSyncTask s = (if syncStopped s then (False, s) else (True, s\<lparr>syncTasks := syncTasks s + 1\<rparr>))"

definition finishSyncTask :: "sync_state \<Rightarrow> sync_state option" where
  "finishSyncTask s =
     (let s1 = s\<lparr>syncTasks := syncTasks s - 1\<rparr>
      in if syncStopped s1 \<and> syncTasks s1 = 0 then close_done s1 else Some s1)"

text \<open>Up to the receive: the channel the caller waits on is \<open>syncDone\<close> of the new state.\<close>

definition WaitForSync :: "sync_state \<Rightarrow> sync_state option" where
  "WaitForSync s =
     (if \<not> syncStopped s then
        (let s1 = s\<lparr>syncStopped := True, syncDone := Some (made s), made := Suc (made s)\<rparr>
         in if syncTasks s1 = 0 then close_done s1 else Some s1)
      else Some s)"

text \<open>A receive returns when its channel is closed; on a nil channel it blocks forever.\<close>

definition done_received :: "sync_state \<Rightarrow> nat option \<Rightarrow> bool" where
  "done_received s c \<longleftrightarrow> (case c of None \<Rightarrow> False | Some n \<Rightarrow> n \<in> closed_channels s)"

section \<open>The goroutines that use it\<close>

text \<open>
  Tasks that have begun and not finished, the channels on which callers of \<open>WaitForSync\<close> wait,
  and the number of those that have returned. A task calls \<open>finishSyncTask\<close> once (it is
  deferred after a successful \<open>beginSyncTask\<close>). A step that would panic leads to \<open>None\<close>.
\<close>

record sync_system =
  guarded :: sync_state
  tasks_running :: nat
  waiters :: "nat option list"
  returned :: nat

inductive sync_step :: "sync_system option \<Rightarrow> sync_system option \<Rightarrow> bool" where
  begun: "beginSyncTask (guarded e) = (True, g) \<Longrightarrow>
    sync_step (Some e) (Some (e\<lparr>guarded := g, tasks_running := Suc (tasks_running e)\<rparr>))"
| refused: "beginSyncTask (guarded e) = (False, g) \<Longrightarrow> sync_step (Some e) (Some (e\<lparr>guarded := g\<rparr>))"
| finished: "tasks_running e = Suc n \<Longrightarrow>
    sync_step (Some e) (map_option (\<lambda>g. e\<lparr>guarded := g, tasks_running := n\<rparr>) (finishSyncTask (guarded e)))"
| waited: "sync_step (Some e)
    (map_option (\<lambda>g. e\<lparr>guarded := g, waiters := waiters e @ [syncDone g]\<rparr>) (WaitForSync (guarded e)))"
| released: "waiters e = cs @ c # ds \<Longrightarrow> done_received (guarded e) c \<Longrightarrow>
    sync_step (Some e) (Some (e\<lparr>waiters := cs @ ds, returned := Suc (returned e)\<rparr>))"

inductive_cases sync_stepE: "sync_step (Some e) e'"

definition sync_start :: "sync_system option \<Rightarrow> bool" where
  "sync_start e \<longleftrightarrow> e = Some \<lparr>guarded = \<lparr>syncTasks = 0, syncStopped = False, syncDone = None, made = 0,
     closed_channels = {}\<rparr>, tasks_running = 0, waiters = [], returned = 0\<rparr>"

text \<open>
  The counter counts the running tasks. Before the stop no channel exists; the stop makes the
  only one, on which every caller waits and which is open while tasks run and closed when none does.
\<close>

definition channel_ok :: "sync_state \<Rightarrow> nat \<Rightarrow> bool" where
  "channel_ok s n \<longleftrightarrow>
     (if syncStopped s then syncDone s = Some 0 \<and> made s = 1 \<and> closed_channels s = (if n = 0 then {0} else {})
      else syncDone s = None \<and> made s = 0 \<and> closed_channels s = {})"

definition sync_inv :: "sync_system option \<Rightarrow> bool" where
  "sync_inv x \<longleftrightarrow> (case x of None \<Rightarrow> False | Some e \<Rightarrow>
     syncTasks (guarded e) = int (tasks_running e) \<and> channel_ok (guarded e) (tasks_running e)
     \<and> set (waiters e) \<subseteq> {Some 0}
     \<and> (waiters e \<noteq> [] \<or> 0 < returned e \<longrightarrow> syncStopped (guarded e))
     \<and> (0 < returned e \<longrightarrow> tasks_running e = 0))"

lemmas sync_ops = beginSyncTask_def finishSyncTask_def WaitForSync_def close_done_def
  channel_ok_def done_received_def Let_def

text \<open>Each function on the guarded fields.\<close>

lemma begin_ok:
  assumes "beginSyncTask s = (b, s')" and "channel_ok s n" and "syncTasks s = int n"
  shows "b = (\<not> syncStopped s) \<and> syncStopped s' = syncStopped s \<and> channel_ok s' (if b then Suc n else n)
    \<and> syncTasks s' = int (if b then Suc n else n)"
  using assms by (cases "syncStopped s") (auto simp: beginSyncTask_def channel_ok_def)

lemma finish_ok:
  assumes "channel_ok s (Suc n)" and "syncTasks s = int (Suc n)"
  shows "\<exists>s'. finishSyncTask s = Some s' \<and> syncStopped s' = syncStopped s \<and> channel_ok s' n \<and> syncTasks s' = int n"
  using assms by (cases "syncStopped s"; cases n) (simp_all add: sync_ops)

lemma wait_ok:
  assumes "channel_ok s n" and "syncTasks s = int n"
  shows "\<exists>s'. WaitForSync s = Some s' \<and> syncStopped s' \<and> syncDone s' = Some 0 \<and> channel_ok s' n \<and> syncTasks s' = int n"
  using assms by (cases "syncStopped s"; cases n) (simp_all add: sync_ops)

lemma sync_inv_step: "sync_inv x \<Longrightarrow> sync_step x y \<Longrightarrow> sync_inv y"
proof (cases x)
  case (Some e)
  assume "sync_inv x" and step: "sync_step x y"
  then have inv: "channel_ok (guarded e) (tasks_running e)" "syncTasks (guarded e) = int (tasks_running e)"
    "set (waiters e) \<subseteq> {Some 0}" "waiters e \<noteq> [] \<or> 0 < returned e \<longrightarrow> syncStopped (guarded e)"
    "0 < returned e \<longrightarrow> tasks_running e = 0" by (simp_all add: Some sync_inv_def)
  from step [unfolded Some] show ?thesis
  proof (rule sync_stepE)
    fix g assume "y = Some (e\<lparr>guarded := g, tasks_running := Suc (tasks_running e)\<rparr>)"
      and "beginSyncTask (guarded e) = (True, g)"
    then show ?thesis using begin_ok [OF _ inv(1,2)] inv by (auto simp: sync_inv_def)
  next
    fix g assume "y = Some (e\<lparr>guarded := g\<rparr>)" and "beginSyncTask (guarded e) = (False, g)"
    then show ?thesis using begin_ok [OF _ inv(1,2)] inv by (auto simp: sync_inv_def)
  next
    fix n assume "y = map_option (\<lambda>g. e\<lparr>guarded := g, tasks_running := n\<rparr>) (finishSyncTask (guarded e))"
      and "tasks_running e = Suc n"
    then show ?thesis using finish_ok [of "guarded e" n] inv by (auto simp: sync_inv_def)
  next
    assume "y = map_option (\<lambda>g. e\<lparr>guarded := g, waiters := waiters e @ [syncDone g]\<rparr>) (WaitForSync (guarded e))"
    then show ?thesis using wait_ok [OF inv(1,2)] inv by (auto simp: sync_inv_def)
  next
    fix cs c ds assume "y = Some (e\<lparr>waiters := cs @ ds, returned := Suc (returned e)\<rparr>)"
      and "waiters e = cs @ c # ds" and "done_received (guarded e) c"
    then show ?thesis
      using inv by (auto simp: sync_inv_def done_received_def channel_ok_def split: if_splits)
  qed
qed (simp add: sync_inv_def)

interpretation sync: invariant sync_start sync_step sync_inv
proof unfold_locales
  show "sync_start x \<Longrightarrow> sync_inv x" for x by (simp add: sync_start_def sync_inv_def channel_ok_def)
qed (rule sync_inv_step)

section \<open>No panic, and every waiter returns\<close>

lemma stop_is_final:
  "sync_step (Some e) (Some e') \<Longrightarrow> syncStopped (guarded e) \<Longrightarrow>
     syncStopped (guarded e') \<and> tasks_running e' \<le> tasks_running e"
  by (elim sync_stepE) (auto simp: sync_ops split: if_splits option.splits)

lemma stop_stays:
  assumes "sync_step\<^sup>*\<^sup>* (Some e) (Some e')" and "syncStopped (guarded e)"
  shows "syncStopped (guarded e') \<and> tasks_running e' \<le> tasks_running e"
proof -
  have none: "sync_step x y \<Longrightarrow> x \<noteq> None" for x y by (auto elim: sync_step.cases)
  have "sync_step\<^sup>*\<^sup>* x y \<Longrightarrow> x = Some e \<Longrightarrow> y = Some e' \<Longrightarrow>
      syncStopped (guarded e') \<and> tasks_running e' \<le> tasks_running e" for x y and e' :: sync_system
  proof (induction arbitrary: e' rule: rtranclp_induct)
    case base
    then show ?case using assms(2) by simp
  next
    case (step y z)
    then obtain b where b: "y = Some b" using none by blast
    from step.IH [OF step.prems(1) b] stop_is_final [of b e'] step.hyps(2) step.prems(2) show ?case
      by (auto simp: b)
  qed
  then show ?thesis using assms(1) by blast
qed

text \<open>When the running tasks finish after a stop, as many steps as there are, the channel is closed.\<close>

lemma finishing_closes:
  "sync_inv (Some e) \<Longrightarrow> syncStopped (guarded e) \<Longrightarrow>
     \<exists>e'. sync_step\<^sup>*\<^sup>* (Some e) (Some e') \<and> tasks_running e' = 0 \<and> waiters e' = waiters e \<and> returned e' = returned e"
proof (induction "tasks_running e" arbitrary: e)
  case 0
  then show ?case by auto
next
  case (Suc n)
  have "finishSyncTask (guarded e) \<noteq> None"
    using Suc.prems Suc.hyps(2) by (auto simp: sync_inv_def sync_ops)
  then obtain g where g: "finishSyncTask (guarded e) = Some g" by blast
  let ?e = "e\<lparr>guarded := g, tasks_running := n\<rparr>"
  have step: "sync_step (Some e) (Some ?e)" using sync_step.finished [of e n] Suc.hyps(2) g by simp
  then have "sync_inv (Some ?e)" "syncStopped (guarded ?e)"
    using sync_inv_step [OF Suc.prems(1)] stop_is_final Suc.prems(2) by blast+
  from Suc.hyps(1) [OF _ this] obtain e' where "sync_step\<^sup>*\<^sup>* (Some ?e) (Some e')"
    "tasks_running e' = 0" "waiters e' = waiters e" "returned e' = returned e"
    by auto
  then show ?case using step by (meson converse_rtranclp_into_rtranclp)
qed

lemma waiters_return:
  "sync_inv (Some e) \<Longrightarrow> tasks_running e = 0 \<Longrightarrow>
     sync_step\<^sup>*\<^sup>* (Some e) (Some (e\<lparr>waiters := [], returned := returned e + length (waiters e)\<rparr>))"
proof (induction "waiters e" arbitrary: e)
  case Nil
  then have "e\<lparr>waiters := [], returned := returned e + length (waiters e)\<rparr> = e" by simp
  then show ?case by (simp only: rtranclp.rtrancl_refl)
next
  case (Cons c cs)
  let ?e = "e\<lparr>waiters := [] @ cs, returned := Suc (returned e)\<rparr>"
  have "done_received (guarded e) c"
    using Cons.prems Cons.hyps(2) [symmetric] by (auto simp: sync_inv_def channel_ok_def done_received_def)
  then have step: "sync_step (Some e) (Some ?e)"
    using Cons.hyps(2) by (intro sync_step.released) simp_all
  have "sync_step\<^sup>*\<^sup>* (Some ?e) (Some (?e\<lparr>waiters := [], returned := returned ?e + length (waiters ?e)\<rparr>))"
    by (rule Cons.hyps(1)) (use Cons.prems sync_inv_step [OF _ step] in simp_all)
  then show ?case using step Cons.hyps(2) [symmetric] by (simp add: converse_rtranclp_into_rtranclp)
qed

end
