(* ===== verification/Service_Properties.thy ===== *)
theory Service_Properties
  imports Dashboard_Paths Sync_Tasks Server
begin

text \<open>
  The properties of the service behind the page, over the theories \<open>Aggregate\<close> to
  \<open>Dashboard_Paths\<close>, \<open>Sync_Tasks\<close> and \<open>Server\<close>, with small data to evaluate them on.
\<close>

section \<open>Data\<close>

definition usage_totals :: "string \<Rightarrow> int64 \<Rightarrow> go_totals" where
  "usage_totals c n = zero_totals\<lparr>gt_tokens := n, gt_requests := 1,
     gt_costs := Some [\<lparr>gc_currency = c, gc_nanos = n, gc_amount = nanos_amount n\<rparr>]\<rparr>"

definition usage_day :: "string \<Rightarrow> int64 \<Rightarrow> upstream_day" where
  "usage_day k n = \<lparr>ud_date = k, ud_totals = usage_totals ''USD'' n,
     ud_models = [\<lparr>gm_name = ''m'', gm_totals = usage_totals ''USD'' n\<rparr>]\<rparr>"

definition usage_endpoint :: "string \<Rightarrow> endpoint" where
  "usage_endpoint n = \<lparr>ep_name = n, ep_url = ''http://'' @ n, ep_source = ''yaml'', ep_key = []\<rparr>"

definition usage_account :: "string \<Rightarrow> unit resolved" where
  "usage_account l = \<lparr>r_endpoint = usage_endpoint l,
     r_usage = \<lparr>gu_login = l, gu_plan = None, gu_reset = None, gu_quotas = None\<rparr>\<rparr>"

definition usage_clock :: clock where
  "usage_clock = \<lparr>clock_date = Date 2026 3 2, clock_weekday = 1\<rparr>"

lemma usage_clock_usual: "usual_clock usage_clock"
  by (simp add: usual_clock_def usage_clock_def valid_date_def month_days_def)

section \<open>Merging\<close>

text \<open>
  C31: the order in which usage arrives does not matter. Adding the same totals in another
  order, starting from totals in normal form, gives the same totals: counters, the optional
  nano units, and the list of costs with its amounts. Sums wrap around at 64 bits.
\<close>

theorem totals_order:
  assumes "mset ss = mset ss'" and "normal d"
  shows "fold (\<lambda>s d. addTotals d s) ss d = fold (\<lambda>s d. addTotals d s) ss' d"
  by (rule totals_permuted [OF assms])

theorem totals_order_witness:
  "addTotals (addTotals empty_totals (usage_totals ''USD'' 1)) (usage_totals ''EUR'' 2)
     = addTotals (addTotals empty_totals (usage_totals ''EUR'' 2)) (usage_totals ''USD'' 1)"
  using totals_order [of "[usage_totals ''USD'' 1, usage_totals ''EUR'' 2]"
      "[usage_totals ''EUR'' 2, usage_totals ''USD'' 1]", OF _ normal_empty] by simp

definition adds_up_to :: "(go_totals \<Rightarrow> int64) \<Rightarrow> 'q go_data \<Rightarrow> bool" where
  "adds_up_to g d \<longleftrightarrow>
     (let total = (case da_totals d of None \<Rightarrow> 0 | Some t \<Rightarrow> g t)
      in sum_list (map (\<lambda>a. case ga_totals a of None \<Rightarrow> 0 | Some t \<Rightarrow> g t) (da_accounts d)) = total
         \<and> sum_list (map (\<lambda>x. g (gd_totals x)) (slice (da_days d))) = total)"

lemma adds_up_to: "counter.adds_up g b d \<Longrightarrow> counter g \<Longrightarrow> adds_up_to g d"
  by (auto simp: adds_up_to_def counter.adds_up_def counter.sums Let_def)






section \<open>Endpoints and accounts\<close>

text \<open>
  Deduplication keeps from the sorted endpoints, YAML before Docker, no two with the same
  URL or name; it is idempotent, and every endpoint is represented by a kept one with its URL
  or name that does not come after it.
\<close>

theorem endpoints_deduplicated:
  assumes "set es \<subseteq> known_sources"
  shows "distinct (map ep_url (Deduplicate es)) \<and> distinct (map ep_name (Deduplicate es))
    \<and> sorted_cmp endpoint_cmp (Deduplicate es) \<and> Deduplicate (Deduplicate es) = Deduplicate es
    \<and> (\<forall>e \<in> set es. \<exists>k \<in> set (Deduplicate es).
         (ep_url k = ep_url e \<or> ep_name k = ep_name e) \<and> \<not> endpoint_less e k)"
  using keep_unseen_distinct [of "{}" "{}" "sort_by endpoint_cmp es"] Deduplicate_sorted [OF assms]
    Deduplicate_idem [OF assms] Deduplicate_covers [OF assms]
  by (simp add: Deduplicate_def)

theorem endpoints_deduplicated_witness:
  "let es = [usage_endpoint ''b'', usage_endpoint ''a'', usage_endpoint ''a'']
   in Deduplicate (Deduplicate es) = Deduplicate es"
  using endpoints_deduplicated [of "[usage_endpoint ''b'', usage_endpoint ''a'', usage_endpoint ''a'']"]
  by (simp add: known_sources_def usage_endpoint_def Let_def)

text \<open>
  C35: the accounts of an answer. They are sorted by login and no two have the same login up
  to case; each is what its endpoint answered; every endpoint that is kept and answered is
  listed under its login; and the failures are those given and one for each kept endpoint
  that did not answer, in order.
\<close>

theorem accounts_resolved:
  assumes "resolve usage es fs = (accs, errs)"
  shows "sorted (map login_key accs) \<and> distinct (map login_key accs)
    \<and> (\<forall>a \<in> set accs. r_endpoint a \<in> set es \<and> usage (r_endpoint a) = Inr (r_usage a))
    \<and> (\<forall>e \<in> set (Deduplicate es). \<forall>u. usage e = Inr u \<longrightarrow> to_lower (gu_login u) \<in> login_key ` set accs)
    \<and> errs = fs @ List.map_filter (\<lambda>e. case usage e of Inl err \<Rightarrow> Some (endpoint_failure e ''usage'' err)
         | Inr _ \<Rightarrow> None) (Deduplicate es)"
  using resolve_accounts(1,2,5) [OF assms] resolve_accounts(3) [OF assms] resolve_accounts(4) [OF assms]
  by blast

theorem accounts_resolved_witness:
  "distinct (map login_key (fst (resolve (\<lambda>e. Inr (r_usage (usage_account (ep_name e))))
     [usage_endpoint ''octo'', usage_endpoint ''mona''] [])))"
proof -
  let ?r = "resolve (\<lambda>e. Inr (r_usage (usage_account (ep_name e)))) [usage_endpoint ''octo'', usage_endpoint ''mona''] []"
  have "?r = (fst ?r, snd ?r)" by simp
  from accounts_resolved [OF this] show ?thesis by blast
qed

section \<open>Requests and tasks\<close>

text \<open>
  C36: only valid requests reach the service. Whatever is sent, in whatever order the handler
  visits the parameters, the service is called with one of the six periods, with an account
  that is not blank or padded, has no line breaks or tabs and at most 256 bytes (none where it
  is optional), and with a page and a page size in range; a synchronization only by POST.
\<close>

theorem requests_checked:
  "case serve order base r of
     CallEvents who period n m \<Rightarrow> rq_method r = ''GET'' \<and> ValidPeriod period \<and> validAccount who
       \<and> 1 \<le> n \<and> n < 2 ^ 63 \<and> 1 \<le> m \<and> m \<le> 100
   | CallDashboard period who \<Rightarrow> rq_method r = ''GET'' \<and> ValidPeriod period \<and> (who = [] \<or> validAccount who)
   | CallSync who \<Rightarrow> rq_method r = ''POST'' \<and> (who = [] \<or> validAccount who)
   | _ \<Rightarrow> True"
  using serve_safe [of order base r] by (cases "serve order base r") simp_all

text \<open>
  C38: synchronization tasks and the shutdown. In every reachable state of the tasks and the
  callers of WaitForSync nothing has panicked, so the channel is closed at most once and never
  while it is nil; it is closed exactly when a stop was asked for and no task runs; and after
  a stop there is a run in which the running tasks finish and every caller returns.
\<close>

theorem sync_tasks_end:
  assumes "reachable sync_start sync_step x"
  shows "\<exists>e. x = Some e
    \<and> (done_received (guarded e) (syncDone (guarded e)) \<longleftrightarrow> syncStopped (guarded e) \<and> tasks_running e = 0)
    \<and> (0 < returned e \<longrightarrow> tasks_running e = 0)
    \<and> (\<forall>e'. sync_step\<^sup>*\<^sup>* x (Some e') \<longrightarrow> syncStopped (guarded e) \<longrightarrow>
         syncStopped (guarded e') \<and> tasks_running e' \<le> tasks_running e)
    \<and> (syncStopped (guarded e) \<longrightarrow> (\<exists>e'. sync_step\<^sup>*\<^sup>* x (Some e') \<and> tasks_running e' = 0
         \<and> waiters e' = [] \<and> returned e' = returned e + length (waiters e)))"
proof -
  obtain e where e: "x = Some e" "sync_inv (Some e)"
    using sync.always [OF assms] by (cases x) (simp_all add: sync_inv_def)
  have "\<exists>e'. sync_step\<^sup>*\<^sup>* (Some e) (Some e') \<and> tasks_running e' = 0 \<and> waiters e' = []
      \<and> returned e' = returned e + length (waiters e)" if stop: "syncStopped (guarded e)"
  proof -
    obtain f where f: "sync_step\<^sup>*\<^sup>* (Some e) (Some f)" "tasks_running f = 0"
      "waiters f = waiters e" "returned f = returned e" using finishing_closes [OF e(2) stop] by blast
    have "sync_inv (Some f)" by (rule sync.along [OF f(1) e(2)])
    then have "sync_step\<^sup>*\<^sup>* (Some e) (Some (f\<lparr>waiters := [], returned := returned f + length (waiters f)\<rparr>))"
      using f(1) waiters_return f(2) by (meson rtranclp_trans)
    then show ?thesis using f by (intro exI [of _ "f\<lparr>waiters := [], returned := returned f + length (waiters f)\<rparr>"]) simp
  qed
  moreover have "done_received (guarded e) (syncDone (guarded e)) \<longleftrightarrow> syncStopped (guarded e) \<and> tasks_running e = 0"
    "0 < returned e \<longrightarrow> tasks_running e = 0"
    using e(2) by (auto simp: sync_inv_def done_received_def channel_ok_def split: if_splits)
  moreover have "\<forall>e'. sync_step\<^sup>*\<^sup>* (Some e) (Some e') \<longrightarrow> syncStopped (guarded e) \<longrightarrow>
      syncStopped (guarded e') \<and> tasks_running e' \<le> tasks_running e"
    using stop_stays by (intro allI impI)
  ultimately show ?thesis unfolding e(1) by - (rule exI [where x = e], simp)
qed

theorem sync_tasks_end_witness:
  "\<not> done_received \<lparr>syncTasks = 0, syncStopped = False, syncDone = None, made = 0, closed_channels = {}\<rparr> None"
  using sync_tasks_end [OF reachable.start, unfolded sync_start_def, OF refl] by auto

end
