(* ===== verification/Errors.thy ===== *)
theory Errors
  imports Client Service_Properties
begin

text \<open>
  What the errors of an answer say: every message is one of the program's own texts, with at most
  a number in it, whatever an instance, Docker or the network answered.
\<close>

section \<open>The messages\<close>

definition transport_messages :: "string list" where
  "transport_messages = [''request canceled'', ''request timed out'', ''hostname resolution failed'',
     ''network connection failed'', ''request failed'']"

definition client_messages :: "string list" where
  "client_messages = transport_messages @ [''invalid endpoint URL'', ''invalid endpoint port'',
     ''cannot construct upstream request'', ''upstream response exceeds size limit'',
     ''invalid upstream JSON response'', ''upstream usage has no valid login'',
     ''invalid upstream summary response'', ''invalid upstream daily response'',
     ''invalid upstream daily bucket'', ''invalid upstream events response'']"

definition file_messages :: "string list" where
  "file_messages = [''cannot read endpoint file'', ''endpoint YAML exceeds size limit'',
     ''invalid endpoint YAML'', ''endpoint YAML must contain one document'']"

definition entry_messages :: "string list" where
  "entry_messages = [''name and valid URL required'', ''api_key and api_key_env are mutually exclusive'',
     ''credential is empty'', ''credential environment variable is empty or missing'']"

definition docker_messages :: "string list" where
  "docker_messages = transport_messages @ [''cannot access Docker socket'', ''Docker client unavailable'',
     ''invalid container response'', ''invalid container name'']"

definition store_messages :: "string list" where
  "store_messages = [''invalid daily usage snapshot'', ''daily usage snapshot is incomplete'', ambiguous,
     ''cannot resolve persisted account'', ''cannot persist daily cost'', ''cannot persist daily model usage'',
     ''cannot persist daily model cost'', ''usage has not been synchronized'',
     ''account unavailable in current discovery'']"

definition own_message :: "string \<Rightarrow> bool" where
  "own_message m \<longleftrightarrow> m \<in> set (client_messages @ file_messages @ docker_messages @ store_messages)
     \<or> (\<exists>n. m = ''upstream returned HTTP '' @ digits n) \<or> (\<exists>i. \<exists>w \<in> set entry_messages. m = entry_error i w)"

definition own_failure :: "failure \<Rightarrow> bool" where
  "own_failure f \<longleftrightarrow> own_message (message f)"

lemma own_lists:
  "m \<in> set client_messages \<Longrightarrow> own_message m" "m \<in> set file_messages \<Longrightarrow> own_message m"
  "m \<in> set docker_messages \<Longrightarrow> own_message m" "m \<in> set store_messages \<Longrightarrow> own_message m"
  "own_message (''upstream returned HTTP '' @ digits n)"
  "w \<in> set entry_messages \<Longrightarrow> own_message (entry_error i w)"
  by (auto simp: own_message_def)

lemma own_failure_simps [simp]:
  "own_failure (endpoint_failure e op m) = own_message m" "own_failure (account_missing who)"
  "own_failure \<lparr>target = t, operation = p, message = m\<rparr> = own_message m"
  "own_failure (inspect_failure n m) = own_message m" "own_failure (docker_failure p m) = own_message m"
  by (simp_all add: own_failure_def endpoint_failure_def account_missing_def inspect_failure_def docker_failure_def
      own_message_def store_messages_def)

lemma safe_own: "own_message (SafeMessage e)"
  by (rule own_lists(1)) (simp add: SafeMessage_def client_messages_def transport_messages_def)

section \<open>The client\<close>

lemma normalize_own: "NormalizeURL url_of unparse raw = Inl m \<Longrightarrow> own_message m"
  by (rule own_lists(1))
    (auto simp: NormalizeURL_def normal_parts_def client_messages_def Let_def map_sum_def split: option.splits if_splits sum.splits)

lemma get_own: "get (NormalizeURL url_of unparse) e path query tp = Inl m \<Longrightarrow> own_message m"
proof -
  have "m \<in> set client_messages" if "m = ''cannot construct upstream request'' \<or> m = ''upstream response exceeds size limit''
      \<or> m = ''invalid upstream JSON response''" for m
    using that by (auto simp: client_messages_def)
  then show "get (NormalizeURL url_of unparse) e path query tp = Inl m \<Longrightarrow> own_message m"
    using own_lists(1,5) safe_own normalize_own [of url_of unparse "ep_url e"]
    by (auto simp: get_def get_body_def split: exchange.splits sum.splits answer_body.splits option.splits if_splits)
qed

lemma client_own:
  "client_usage (NormalizeURL url_of unparse) e xu = Inl m \<Longrightarrow> own_message m"
  "client_summary (NormalizeURL url_of unparse) e xs period = Inl m \<Longrightarrow> own_message m"
  "client_daily (NormalizeURL url_of unparse) e xd period = Inl m \<Longrightarrow> own_message m"
  "client_events (NormalizeURL url_of unparse) e xe period page rows = Inl m \<Longrightarrow> own_message m"
proof -
  have own: "own_message ''upstream usage has no valid login''" "own_message ''invalid upstream summary response''"
    "own_message ''invalid upstream daily response''" "own_message ''invalid upstream daily bucket''"
    "own_message ''invalid upstream events response''"
    by (rule own_lists(1), simp add: client_messages_def)+
  show "client_usage (NormalizeURL url_of unparse) e xu = Inl m \<Longrightarrow> own_message m"
    using own get_own by (auto simp: client_usage_def split: sum.splits option.splits if_splits)
  show "client_summary (NormalizeURL url_of unparse) e xs period = Inl m \<Longrightarrow> own_message m"
    using own get_own by (auto simp: client_summary_def split: sum.splits option.splits if_splits)
  show "client_daily (NormalizeURL url_of unparse) e xd period = Inl m \<Longrightarrow> own_message m"
    using own get_own by (auto simp: client_daily_def split: sum.splits option.splits if_splits)
  show "client_events (NormalizeURL url_of unparse) e xe period page rows = Inl m \<Longrightarrow> own_message m"
    using own get_own by (auto simp: client_events_def split: sum.splits option.splits if_splits)
qed

section \<open>Discovery and the accounts\<close>

lemma entry_own: "load_entry normal_url lookup i y = Inl m \<Longrightarrow> own_message m"
proof -
  have "\<exists>w \<in> set entry_messages. m = entry_error i w" if "load_entry normal_url lookup i y = Inl m"
    using that by (auto simp: load_entry_def entry_key_def entry_messages_def map_sum_def split: option.splits if_splits sum.splits)
  then show "load_entry normal_url lookup i y = Inl m \<Longrightarrow> own_message m" using own_lists(6) by blast
qed

lemma yaml_own:
  assumes "LoadYAML normal_url lookup yaml f = Inl m"
  shows "own_message m"
proof (cases "read_file yaml f")
  case (Inl x)
  then have "file_wrong yaml f m" using assms by (simp add: LoadYAML_def flip: read_file_wrong)
  then have "m \<in> set file_messages" by (auto simp: file_wrong_def file_messages_def split: if_splits)
  then show ?thesis by (rule own_lists(2))
next
  case (Inr ys)
  have "load_entries normal_url lookup i ys = Inl m \<Longrightarrow> own_message m" for i
    by (induction ys arbitrary: i) (auto simp: map_sum_def dest: entry_own split: sum.splits)
  then show ?thesis using assms Inr by (simp add: LoadYAML_def)
qed

lemma visit_own:
  assumes "visit_container normal_url wanted inspect c = Some (Inl f)"
  shows "own_failure f"
proof -
  have "own_message ''invalid container response''" "own_message ''invalid container name''"
    by (rule own_lists(3), simp add: docker_messages_def)+
  then show ?thesis
    using assms safe_own
    by (auto simp: visit_container_def Let_def map_sum_def split: if_splits sum.splits option.splits)
qed

lemma discover_own:
  assumes "Discover normal_url lookup wanted yaml f socket containers inspect = (es, fs)"
  shows "\<forall>x \<in> set fs. own_failure x"
proof -
  have d: "own_message ''cannot access Docker socket''" "own_message ''Docker client unavailable''"
    by (rule own_lists(3), simp add: docker_messages_def)+
  have v: "own_failure x" if "Inl x \<in> set (List.map_filter (visit_container normal_url wanted inspect) cs)" for x cs
    using that visit_own by (auto simp: map_filter_set)
  show ?thesis
  proof (cases "containers")
    case None
    then show ?thesis using assms d yaml_own
      by (auto simp: Discover_def Let_def split: sum.splits option.splits bool.splits)
  next
    case (Some c)
    then show ?thesis using assms d yaml_own v safe_own
      by (cases c) (auto simp: Discover_def Let_def failures_of split: sum.splits option.splits bool.splits)
  qed
qed

lemma resolve_own:
  assumes "resolve (\<lambda>e. client_usage (NormalizeURL url_of unparse) e (usages e)) es fs = (accs, errs)"
    and "\<forall>f \<in> set fs. own_failure f"
  shows "\<forall>f \<in> set errs. own_failure f"
proof -
  let ?u = "\<lambda>e. client_usage (NormalizeURL url_of unparse) e (usages e)"
  let ?f = "\<lambda>e. case ?u e of Inl err \<Rightarrow> Some (endpoint_failure e ''usage'' err) | Inr _ \<Rightarrow> None"
  have errs: "errs = fs @ List.map_filter ?f (Deduplicate es)"
    by (rule resolve_accounts(5) [OF assms(1)])
  have "own_failure f" if f: "?f e = Some f" for e f
  proof (cases "?u e")
    case (Inl m)
    then have "f = endpoint_failure e ''usage'' m" using f by simp
    then show ?thesis using client_own(1) [OF Inl] by simp
  qed (use f in simp)
  then have "own_failure f" if "f \<in> set (List.map_filter ?f (Deduplicate es))" for f
    using that unfolding map_filter_set by blast
  then show ?thesis using assms(2) by (auto simp: errs)
qed

section \<open>Answers\<close>

lemma finish_own:
  "\<forall>f \<in> set errs. own_failure f \<Longrightarrow> \<forall>f \<in> set (fst (snd (finish_answer period who now (d, errs, found)))). own_failure f"
  by (auto simp: finish_answer_def)

lemma live_own:
  assumes "\<forall>f \<in> set fs. own_failure f" and "\<And>a m. summaries a = Inl m \<Longrightarrow> own_message m"
    and "\<And>a m. dailies a = Inl m \<Longrightarrow> own_message m"
  shows "\<forall>f \<in> set (fst (snd (liveDashboard aliases summaries dailies now accs fs period who))). own_failure f"
proof -
  have all: "\<forall>f \<in> set (snd (fold (live_step summaries dailies who) ias (d, errs))). own_failure f"
    if "\<forall>f \<in> set errs. own_failure f" for ias d errs
    using that
  proof (induction ias arbitrary: d errs)
    case (Cons ia ias)
    obtain d' errs' where s: "live_step summaries dailies who ia (d, errs) = (d', errs')" by fastforce
    have "\<forall>f \<in> set errs'. own_failure f"
      using s Cons.prems assms(2,3) by (auto simp: live_step_def split: prod.splits if_splits sum.splits)
    then show ?case using Cons.IH by (simp add: s)
  qed simp
  obtain d errs where r: "fold (live_step summaries dailies who) (enumerate 0 accs)
      (live_list aliases who accs (start_data period who), fs) = (d, errs)" by fastforce
  have "\<forall>f \<in> set errs. own_failure f"
    using all [OF assms(1), of "enumerate 0 accs" "live_list aliases who accs (start_data period who)"] by (simp add: r)
  then show ?thesis unfolding liveDashboard_def r Let_def prod.case by (rule finish_own)
qed

lemma persisted_own:
  assumes "\<forall>f \<in> set fs. own_failure f" and "\<And>a m. load a = StoreError m \<Longrightarrow> own_message m"
  shows "\<forall>f \<in> set (fst (snd (persistedDashboard aliases load now accs fs period who))). own_failure f"
proof -
  have none: "own_message ''usage has not been synchronized''" by (rule own_lists(4)) (simp add: store_messages_def)
  have all: "\<forall>f \<in> set (fst (snd (fold (persisted_step aliases load who) as (d, errs, found)))). own_failure f"
    if "\<forall>f \<in> set errs. own_failure f" for as d errs found
    using that
  proof (induction as arbitrary: d errs found)
    case (Cons a as)
    obtain d' errs' found' where s: "persisted_step aliases load who a (d, errs, found) = (d', errs', found')"
      by (cases "persisted_step aliases load who a (d, errs, found)")
    have "\<forall>f \<in> set errs'. own_failure f"
      using s Cons.prems assms(2) none
      by (auto simp: persisted_step_def Let_def split: prod.splits if_splits stored.splits)
    then show ?case using Cons.IH by (simp add: s)
  qed simp
  obtain d errs found where r: "fold (persisted_step aliases load who) accs (start_data period who, fs, who = []) = (d, errs, found)"
    by (cases "fold (persisted_step aliases load who) accs (start_data period who, fs, who = [])")
  have "\<forall>f \<in> set errs. own_failure f"
    using all [OF assms(1), of accs "start_data period who" "who = []"] by (simp add: r)
  then show ?thesis unfolding persistedDashboard_def r by (rule finish_own)
qed

section \<open>The store\<close>

lemma row_own: "row_error d = Some m \<Longrightarrow> m \<in> set store_messages"
proof -
  have "model_error seen ms = Some m \<Longrightarrow> m \<in> set store_messages" for seen ms
    by (induction seen ms rule: model_error.induct) (auto simp: store_messages_def split: if_splits)
  then show "row_error d = Some m \<Longrightarrow> m \<in> set store_messages"
    by (auto simp: row_error_def store_messages_def split: if_splits)
qed

lemma write_own: "write_days e ds sg = Inl m \<Longrightarrow> m \<in> set store_messages"
proof (induction e ds sg rule: write_days.induct)
  case (2 e d ds sg)
  then show ?case
    by (auto simp: replaceDay_def dest: row_own split: if_splits sum.splits option.splits)
qed simp

lemma save_history_own: "save_history h s = Inl m \<Longrightarrow> m \<in> set store_messages"
  using write_own by (auto simp: save_history_def Let_def map_sum_def store_messages_def split: if_splits sum.splits)

lemma resolve_source_own: "resolveSourceID db n u = Inl m \<Longrightarrow> m = ambiguous"
proof -
  have "scan_sources n u rs i j = Inl m \<Longrightarrow> m = ambiguous" for rs i j
    by (induction n u rs i j rule: scan_sources.induct) (auto split: if_splits)
  then show "resolveSourceID db n u = Inl m \<Longrightarrow> m = ambiguous"
    by (auto simp: resolveSourceID_def split: sum.splits prod.splits option.splits if_splits)
qed

lemma save_own: "SaveDaily typ name url who s db = Inl m \<Longrightarrow> own_message m"
proof -
  have "m \<in> set store_messages" if "SaveDaily typ name url who s db = Inl m"
    using that save_history_own resolve_source_own
    by (auto simp: SaveDaily_def persistAccount_def map_sum_def store_messages_def split: if_splits sum.splits option.splits prod.splits)
  then show "SaveDaily typ name url who s db = Inl m \<Longrightarrow> own_message m" by (simp add: own_lists(4))
qed

lemma stored_own: "stored_days midnight now now_ms period db a = StoreError m \<Longrightarrow> own_message m"
  by (auto simp: stored_days_def LoadDaily_def own_lists(4) store_messages_def dest!: resolve_source_own
      split: sum.splits option.splits)

lemma sync_own:
  assumes "snd (sync_account (\<lambda>a. client_daily (NormalizeURL url_of unparse) (r_endpoint a) (dailies a) ''lifetime'') a db) = Some f"
  shows "own_failure f"
  using assms client_own(3) save_own by (auto simp: sync_account_def Let_def split: sum.splits)

lemma wait_own:
  assumes "\<And>f. x = Result (Some f) \<Longrightarrow> own_failure f" and "wait_account x a = Some f"
  shows "own_failure f"
  using assms safe_own by (auto simp: wait_account_def shared_result_def split: shared.splits)

lemma service_sync_own:
  assumes "\<forall>f \<in> set fs. own_failure f" and "\<And>a f. x a = Result (Some f) \<Longrightarrow> own_failure f"
    and "shared = Result (accs, fs) \<or> shared = Stopping \<or> (\<exists>e. shared = Interrupted e)"
  shows "\<forall>f \<in> set (fst (serviceSync (\<lambda>a. wait_account (x a) a) (resolveForSync shared) who)). own_failure f"
proof -
  have "own_failure f" if "wait_account (x a) a = Some f" for a f using wait_own [of "x a" a f] assms(2) that by blast
  then show ?thesis using assms(1,3) safe_own
    by (auto simp: serviceSync_def resolveForSync_def shared_result_def Let_def map_filter_set split: if_splits)
qed

lemma events_own:
  assumes "\<forall>f \<in> set fs. own_failure f" and "\<And>a m. fetch a = Inl m \<Longrightarrow> own_message m"
  shows "\<forall>f \<in> set (fst (snd (serviceEvents fetch accs fs who))). own_failure f"
  using assms by (auto simp: serviceEvents_def split: option.splits sum.splits)

section \<open>The property\<close>

text \<open>What the service is given of the client: only the days of an answer, and the messages.\<close>

definition daily_of :: "string + snapshot \<Rightarrow> string + upstream_day list" where
  "daily_of r = map_sum id (\<lambda>s. map upstream_day.truncate (snap_days s)) r"

definition found_url :: "string + string \<Rightarrow> string option" where
  "found_url r = (case r of Inl _ \<Rightarrow> None | Inr t \<Rightarrow> Some t)"

text \<open>
  C12: what an answer says about failures is the program's own text. Whatever the instances, Docker,
  the network and the environment answer, and whatever is in the store, every error of the
  dashboard from the instances or from the store, of the events and of a synchronization is one of
  finitely many messages, with at most a status code or the number of an entry in it: no text of a
  remote side, of the file or of an error, no credential and no environment variable is repeated.
\<close>

theorem errors_own:
  assumes "Discover (\<lambda>u. found_url (NormalizeURL url_of unparse u)) lookup wanted yaml f socket containers inspect = (es, fs)"
    and "resolve (\<lambda>e. client_usage (NormalizeURL url_of unparse) e (usages e)) es fs = (accs, errs)"
    and "\<And>r. shared = Result r \<Longrightarrow> r = (accs, errs)"
    and "\<And>a r. waited a = Result r \<Longrightarrow> r = snd (sync_account
      (\<lambda>a. client_daily (NormalizeURL url_of unparse) (r_endpoint a) (lifetimes a) ''lifetime'') a (dbs a))"
  shows "(\<forall>f \<in> set (fst (snd (liveDashboard aliases
        (\<lambda>a. client_summary (NormalizeURL url_of unparse) (r_endpoint a) (summaries a) period)
        (\<lambda>a. daily_of (client_daily (NormalizeURL url_of unparse) (r_endpoint a) (dailies a) period))
        now accs errs period who))). own_failure f)
    \<and> (\<forall>f \<in> set (fst (snd (persistedDashboard aliases (stored_days midnight now now_ms period db)
        now accs errs period who))). own_failure f)
    \<and> (\<forall>f \<in> set (fst (snd (serviceEvents
        (\<lambda>a. client_events (NormalizeURL url_of unparse) (r_endpoint a) (events a) period page rows) accs errs who))). own_failure f)
    \<and> (\<forall>f \<in> set (fst (serviceSync (\<lambda>a. wait_account (waited a) a) (resolveForSync shared) who)). own_failure f)"
proof -
  have fs: "\<forall>f \<in> set fs. own_failure f" by (rule discover_own [OF assms(1)])
  note errs = resolve_own [OF assms(2) fs]
  have daily: "own_message m" if "daily_of (client_daily (NormalizeURL url_of unparse) (r_endpoint a) (dailies a) period) = Inl m" for a m
    using that client_own(3) by (auto simp: daily_of_def map_sum_def split: sum.splits)
  have shared: "shared = Result (accs, errs) \<or> shared = Stopping \<or> (\<exists>e. shared = Interrupted e)"
    using assms(3) by (cases shared) auto
  have sync: "own_failure f" if "waited a = Result (Some f)" for a f
    by (rule sync_own [of url_of unparse lifetimes a "dbs a"]) (rule assms(4) [OF that, symmetric])
  show ?thesis
    by (intro conjI live_own [OF errs client_own(2) daily] persisted_own [OF errs stored_own] events_own [OF errs client_own(4)]
      service_sync_own [OF errs sync shared])
qed

definition octo_network :: "'a transport" where
  "octo_network = \<lparr>tp_slot = None, tp_send = (\<lambda>_. Responded 200 (Bytes 1 None))\<rparr>"

theorem errors_own_witness:
  "let (es, fs) = Discover (\<lambda>u. found_url (NormalizeURL octo_parse octo_text u)) (\<lambda>_. None) ''img''
         (\<lambda>_. None) (Open_File (Some ''password: secret'')) (Some True) (Some (Inl canceled)) (\<lambda>i. Inl canceled);
       (accs, errs) = resolve (\<lambda>e. client_usage (NormalizeURL octo_parse octo_text) e (octo_network :: unit go_usage transport)) es fs
   in \<forall>f \<in> set (fst (snd (persistedDashboard (\<lambda>_. []) (stored_days (\<lambda>_. 0) usage_clock 500 ''today'' empty_database)
        usage_clock accs errs ''today'' ''octo''))). own_failure f"
proof -
  obtain es fs where d: "Discover (\<lambda>u. found_url (NormalizeURL octo_parse octo_text u)) (\<lambda>_. None) ''img''
         (\<lambda>_. None) (Open_File (Some ''password: secret'')) (Some True) (Some (Inl canceled)) (\<lambda>i. Inl canceled) = (es, fs)" by fastforce
  obtain accs errs where r: "resolve (\<lambda>e. client_usage (NormalizeURL octo_parse octo_text) e
      (octo_network :: unit go_usage transport)) es fs = (accs, errs)" by fastforce
  from errors_own [where ?shared = Stopping and ?waited = "\<lambda>_. Stopping", OF d r] show ?thesis
    unfolding d r Let_def prod.case by blast
qed

end
