(* ===== verification/History_Sums.thy ===== *)
theory History_Sums
  imports History_Load
begin

text \<open>
  Loading a history of any number of segments: one day per date, in the order of the dates, and
  nothing is lost or counted twice.
\<close>

lemma fold_upsert_keys:
  assumes "\<And>r x. key (f r x) = key x" and "\<And>r. key (b r) = k r"
  shows "key ` set (fold (\<lambda>r. upsert key (k r) (b r) (f r)) rows xs) = key ` set xs \<union> k ` set rows"
    and "distinct (map key xs) \<Longrightarrow> distinct (map key (fold (\<lambda>r. upsert key (k r) (b r) (f r)) rows xs))"
proof (induction rows arbitrary: xs)
  case (Cons r rows)
  have k: "key ` set (upsert key (k r) (b r) (f r) xs) = insert (k r) (key ` set xs)" for xs
    using assms by (intro upsert_key_set) simp_all
  have d: "distinct (map key xs) \<Longrightarrow> distinct (map key (upsert key (k r) (b r) (f r) xs))" for xs
    using assms by (intro upsert_distinct) simp_all
  { case 1 show ?case using Cons(1) by (simp add: k) }
  { case 2 show ?case using Cons(2) d 2 by simp }
qed simp_all

text \<open>Keys that come in order are appended in order.\<close>

lemma fold_upsert_sorted:
  assumes "\<And>r x. key (f r x) = key x" and "\<And>r. key (b r) = k r"
    and "sorted (map k rows)" and "sorted (map key xs)" and "\<forall>x \<in> set xs. \<forall>r \<in> set rows. key x \<le> k r"
  shows "sorted (map key (fold (\<lambda>r. upsert key (k r) (b r) (f r)) rows xs))"
  using assms(3-5)
proof (induction rows arbitrary: xs)
  case (Cons r rows)
  let ?xs = "upsert key (k r) (b r) (f r) xs"
  have keys: "map key ?xs = (if k r \<in> key ` set xs then map key xs else map key xs @ [k r])"
    by (rule upsert_keys) (simp_all add: assms(1,2))
  have "sorted (map key ?xs)" using Cons.prems(2,3) by (auto simp: keys sorted_append)
  moreover have "key ` set ?xs = insert (k r) (key ` set xs)"
    using assms(1,2) by (intro upsert_key_set) simp_all
  then have "key x \<in> insert (k r) (key ` set xs)" if "x \<in> set ?xs" for x using that by blast
  then have "\<forall>x \<in> set ?xs. \<forall>q \<in> set rows. key x \<le> k q" using Cons.prems(1,3) by fastforce
  ultimately show ?case using Cons by simp
qed simp

lemma fold_upsert_sum:
  fixes g :: "'a \<Rightarrow> 'm :: comm_monoid_add"
  assumes "\<And>r x. g (f r x) = g x + w r" and "\<And>r. key (b r) = k r" and "\<And>r. g (b r) = 0"
  shows "sum_list (map g (fold (\<lambda>r. upsert key (k r) (b r) (f r)) rows xs)) = sum_list (map g xs) + sum_list (map w rows)"
proof (induction rows arbitrary: xs)
  case (Cons r rows)
  have "sum_list (map g (upsert key (k r) (b r) (f r) xs)) = sum_list (map g xs) + w r"
    by (rule upsert_sum) (simp_all add: assms)
  then show ?case using Cons by (simp add: ac_simps)
qed simp

text \<open>Sums over groups are the sum over all rows.\<close>

lemma sum_groups:
  fixes w :: "'r \<Rightarrow> 'm :: comm_monoid_add"
  assumes "distinct ks" and "\<forall>r \<in> set rows. k r \<in> set ks"
  shows "sum_list (map (\<lambda>q. sum_list (map w (filter (\<lambda>r. k r = q) rows))) ks) = sum_list (map w rows)"
  using assms(2)
proof (induction rows)
  case (Cons r rows)
  have one: "sum_list (map (\<lambda>q. (if k r = q then w r else 0) + v q) ks) = w r + sum_list (map v ks)" for v
  proof -
    have "sum_list (map (\<lambda>q. if k r = q then w r else 0) ks) = w r"
      using assms(1) Cons.prems by (simp add: sum_list_distinct_conv_sum_set)
    then show ?thesis by (simp add: sum_list_addf)
  qed
  have "(\<lambda>q. sum_list (map w (filter (\<lambda>x. k x = q) (r # rows))))
      = (\<lambda>q. (if k r = q then w r else 0) + sum_list (map w (filter (\<lambda>x. k x = q) rows)))" by auto
  then show ?case using Cons by (simp only: one) simp
qed simp

section \<open>Loaded days\<close>

definition loaded_days :: "stored_day list \<Rightarrow> snapshot_day list" where
  "loaded_days rows = fold (\<lambda>r. upsert ud_date (sd_date r) (blank_loaded r) (raise_loaded r)) rows []"

lemma loadDays_loaded: "loadDays lo hi h = map (load_details (period_rows lo hi h)) (loaded_days (period_rows lo hi h))"
  by (simp add: loadDays_def loaded_days_def Let_def)

lemma loaded_simps [simp]:
  "ud_date (raise_loaded r d) = ud_date d" "ud_date (blank_loaded r) = sd_date r"
  "ud_date (load_details rows d) = ud_date d"
  by (simp_all add: raise_loaded_def blank_loaded_def load_details_def Let_def)

lemma loaded_dates: "ud_date ` set (loaded_days rows) = sd_date ` set rows" "distinct (map ud_date (loaded_days rows))"
  unfolding loaded_days_def by (simp_all add: fold_upsert_keys)

lemma loaded_sorted: "sorted (map sd_date rows) \<Longrightarrow> sorted (map ud_date (loaded_days rows))"
  unfolding loaded_days_def by (rule fold_upsert_sorted) simp_all

lemma load_costs_paid: "sum_list (map (paid c) (load_costs rows)) = sum_list (map (paid c) rows)"
  by (simp add: load_costs_def sort_key_sum fold_add_cost_paid)

lemma sum_concat: "sum_list (map g (concat xss)) = sum_list (map (\<lambda>xs. sum_list (map g xs)) xss)"
  for g :: "'a \<Rightarrow> 'm :: comm_monoid_add"
  by (induction xss) simp_all

lemma details_paid:
  "nanos_of c (ud_totals (load_details rows d)) = sum_list (map (\<lambda>r. nanos_of c (sd_totals r)) (filter (\<lambda>r. sd_date r = ud_date d) rows))"
  by (simp add: nanos_of_def load_details_def Let_def load_costs_paid sum_concat o_def)

lemma rows_sum:
  "sum_list (map w (period_rows lo hi h))
     = sum_list (map (\<lambda>sg. sum_list (map w (filter (\<lambda>d. lo \<le> sd_start d \<and> sd_start d < hi) (sg_days sg)))) h)"
  for w :: "stored_day \<Rightarrow> 'm :: comm_monoid_add"
  by (simp add: period_rows_def sort_key_sum sum_concat o_def)

lemma load_sums:
  "sorted (map ud_date (loadDays lo hi h))" "distinct (map ud_date (loadDays lo hi h))"
  "ud_date ` set (loadDays lo hi h) = sd_date ` set (period_rows lo hi h)"
  "sum_list (map (\<lambda>d. gt_tokens (ud_totals d)) (loadDays lo hi h)) = sum_list (map (\<lambda>r. gt_tokens (sd_totals r)) (period_rows lo hi h))"
  "sum_list (map (\<lambda>d. gt_requests (ud_totals d)) (loadDays lo hi h)) = sum_list (map (\<lambda>r. gt_requests (sd_totals r)) (period_rows lo hi h))"
  "sum_list (map (\<lambda>d. nanos_of c (ud_totals d)) (loadDays lo hi h)) = sum_list (map (\<lambda>r. nanos_of c (sd_totals r)) (period_rows lo hi h))"
proof -
  let ?rows = "period_rows lo hi h"
  have m: "map ud_date (loadDays lo hi h) = map ud_date (loaded_days ?rows)" by (simp add: loadDays_loaded)
  show "sorted (map ud_date (loadDays lo hi h))" unfolding m by (rule loaded_sorted) (simp add: period_rows_def)
  show "distinct (map ud_date (loadDays lo hi h))" unfolding m by (rule loaded_dates)
  show "ud_date ` set (loadDays lo hi h) = sd_date ` set ?rows"
    using arg_cong [OF m, of set] loaded_dates(1) [of ?rows] by simp
  have sums: "sum_list (map (\<lambda>d. g (ud_totals d)) (loadDays lo hi h)) = sum_list (map (\<lambda>r. g (sd_totals r)) ?rows)"
    if "\<And>d s. g (addStoredTotals d s) = g d + g s" "g empty_totals = 0" "\<And>t cs. g (t\<lparr>gt_costs := cs\<rparr>) = g t"
    for g :: "go_totals \<Rightarrow> int64"
    using fold_upsert_sum [of "\<lambda>d. g (ud_totals d)" raise_loaded "\<lambda>r. g (sd_totals r)" ud_date blank_loaded sd_date ?rows "[]"] that
    by (simp add: loadDays_loaded loaded_days_def o_def load_details_def Let_def raise_loaded_def blank_loaded_def)
  show "sum_list (map (\<lambda>d. gt_tokens (ud_totals d)) (loadDays lo hi h)) = sum_list (map (\<lambda>r. gt_tokens (sd_totals r)) ?rows)"
    "sum_list (map (\<lambda>d. gt_requests (ud_totals d)) (loadDays lo hi h)) = sum_list (map (\<lambda>r. gt_requests (sd_totals r)) ?rows)"
    by (rule sums; simp add: addStoredTotals_def empty_totals_def zero_totals_def)+
  have "sum_list (map (\<lambda>d. nanos_of c (ud_totals d)) (loadDays lo hi h))
      = sum_list (map (\<lambda>q. sum_list (map (\<lambda>r. nanos_of c (sd_totals r)) (filter (\<lambda>r. sd_date r = q) ?rows))) (map ud_date (loaded_days ?rows)))"
    by (simp add: loadDays_loaded o_def details_paid)
  also have "\<dots> = sum_list (map (\<lambda>r. nanos_of c (sd_totals r)) ?rows)"
    using loaded_dates [of ?rows] by (intro sum_groups) auto
  finally show "sum_list (map (\<lambda>d. nanos_of c (ud_totals d)) (loadDays lo hi h)) = sum_list (map (\<lambda>r. nanos_of c (sd_totals r)) ?rows)" .
qed

end
