(* ===== verification/Store_Properties.thy ===== *)
theory Store_Properties
  imports Service_Properties Store_Sync History_Sums
begin

text \<open>
  The properties of the store and of answering from it, with a small snapshot to evaluate them.
\<close>

section \<open>Data\<close>

definition usage_row :: "string \<Rightarrow> int \<Rightarrow> int \<Rightarrow> int64 \<Rightarrow> snapshot_day" where
  "usage_row k from until n = \<lparr>ud_date = k, ud_totals = usage_totals ''USD'' n,
     ud_models = [\<lparr>gm_name = ''m'', gm_totals = usage_totals ''USD'' n\<rparr>], start_ms = from, end_ms = until\<rparr>"

definition usage_snapshot :: "int \<Rightarrow> int64 \<Rightarrow> snapshot" where
  "usage_snapshot e n = \<lparr>range_end = e, snap_days = [usage_row ''2026-03-01'' 100 e n]\<rparr>"

text \<open>A history with a day that may still grow.\<close>

definition usage_history :: "int64 \<Rightarrow> history" where
  "usage_history n = [\<lparr>sg_start = ''2026-03-01'', sg_days = [stored_row 200 (usage_row ''2026-03-01'' 100 200 n)]\<rparr>]"

definition usage_database :: "history \<Rightarrow> database" where
  "usage_database h = \<lparr>db_sources = [\<lparr>so_id = 1, so_type = ''yaml'', so_name = ''octo'', so_url = ''http://octo''\<rparr>],
     db_accounts = [\<lparr>ac_source = 1, ac_key = ''octo'', ac_login = ''octo'', ac_history = h\<rparr>]\<rparr>"

lemma usage_totals_normal: "normal (usage_totals c n)"
  by (simp add: normal_def usage_totals_def priced_def)

lemma usage_snapshot_whole: "100 < e \<Longrightarrow> whole_snapshot (usage_snapshot e n)"
  by (simp add: whole_snapshot_def usage_snapshot_def usage_row_def validateDaily_def day_order_def day_normal_def
      models_normal_def usage_totals_normal)

lemma usage_saved: "save_history [] (usage_snapshot 200 n) = Inr (usage_history n)"
proof -
  have s: "snap_days (usage_snapshot 200 n) = [usage_row ''2026-03-01'' 100 200 n]" "range_end (usage_snapshot 200 n) = 200"
    by (simp_all add: usage_snapshot_def)
  have w: "whole_snapshot (usage_snapshot 200 n)" by (rule usage_snapshot_whole) simp
  show ?thesis
    using save_first [of "usage_snapshot 200 n"] w
    by (simp add: whole_snapshot_def list_all_iff s day_order_def usage_history_def) (simp add: usage_row_def)
qed

lemma usage_database_ok: "history_ok h \<Longrightarrow> database_ok (usage_database h)"
  by (simp add: usage_database_def database_ok_def sources_ok_def)

lemma usage_resolved: "resolveSourceID (usage_database h) ''octo'' ''http://octo'' = Inr (Some 1)"
  by (simp add: resolveSourceID_def usage_database_def other_than_def)

lemma usage_stored: "stored_history (usage_database h) (1, ''octo'') = Some h"
  by (simp add: stored_history_def usage_database_def account_id_def)

lemma usage_grows: "save_history (usage_history 7) (usage_snapshot 300 9)
    = Inr [\<lparr>sg_start = ''2026-03-01'', sg_days = [stored_row 300 (usage_row ''2026-03-01'' 100 300 9)]\<rparr>]"
  by (simp add: save_history_def usage_history_def usage_snapshot_def usage_row_def validateDaily_def day_order_def
      Let_def findResetDate_def reset_step_def compared_def snapshotReset_def totalsRegressed_def incomplete_def
      detailsRegressed_def unitsLost_def costsRegressed_def map_from_def row_totals_def row_model_def forget_amount_def
      usage_totals_def zero_totals_def replaceDay_def row_error_def cost_keys_def)

lemma usage_accepted:
  assumes "save_history h s = Inr h'" and "validateDaily s"
  shows "SaveDaily ''yaml'' ''octo'' ''http://octo'' ''octo'' s (usage_database h) = Inr (usage_database h')"
proof -
  have "to_lower ''octo'' = ''octo''" by code_simp
  then show ?thesis
    using assms usage_resolved [of h]
    by (simp add: SaveDaily_def persistAccount_def put_source_def put_account_def usage_database_def account_id_def
        stored_history_def set_history_def)
qed

lemma usage_valid: "100 < e \<Longrightarrow> validateDaily (usage_snapshot e n)"
  using usage_snapshot_whole by (simp add: whole_snapshot_def)

lemma usage_history_ok: "history_ok (usage_history n)"
  by (simp add: history_ok_def segment_ok_def usage_history_def)

lemmas usage_second = usage_accepted [OF usage_grows usage_valid, simplified]

section \<open>Saving\<close>



text \<open>
  C20: saving is idempotent. A snapshot that was saved can be saved again, under the same source
  and login, and changes nothing: neither the account, nor its days, nor the segments.
\<close>

theorem saved_twice:
  assumes "database_ok db" and "SaveDaily typ name url who s db = Inr db'"
  shows "SaveDaily typ name url who s db' = Inr db'"
  by (rule saved_again [OF assms])

theorem saved_twice_witness:
  "\<exists>db. SaveDaily ''yaml'' ''octo'' ''http://octo'' ''octo'' (usage_snapshot 300 9) db = Inr db"
  using saved_twice [OF usage_database_ok [OF usage_history_ok] usage_second] by blast

text \<open>
  C8: what is saved is what is loaded. For an account the store does not know, a whole snapshot
  is accepted, and from then on the account is found under its name or its address, whatever the
  case of its login, with exactly the days of the snapshot that begin in the period, unchanged
  and in the order of their dates.
\<close>

theorem saved_is_loaded:
  assumes "database_ok db" and "LoadDaily midnight now now_ms name url who period db = Inr None" and "whole_snapshot s"
  shows "\<exists>db'. SaveDaily typ name url who s db = Inr db' \<and> (\<forall>n u w period.
    (n = name \<or> u = url) \<and> \<not> clash (db_sources db') n u \<and> to_lower w = to_lower who
    \<longrightarrow> LoadDaily midnight now now_ms n u w period db' = Inr (Some (period_days midnight now now_ms period s)))"
proof -
  obtain h where h: "save_history [] s = Inr h"
    "\<And>period. loadDays (periodStart midnight period now) (now_ms + 1) h = period_days midnight now now_ms period s"
    using whole_saved [OF assms(3)] by blast
  have "validateDaily s" using assms(3) by (simp add: whole_snapshot_def)
  then show ?thesis
    by (rule save_first_load [OF assms(1,2) _ h(1)]) (auto simp: h(2))
qed

theorem saved_is_loaded_witness:
  "\<exists>db'. SaveDaily ''yaml'' ''octo'' ''http://octo'' ''Octo'' (usage_snapshot 200 7) empty_database = Inr db'"
proof -
  have "LoadDaily (\<lambda>_. 0) usage_clock 500 ''octo'' ''http://octo'' ''Octo'' ''lifetime'' empty_database = Inr None"
    by (simp add: LoadDaily_def resolveSourceID_def empty_database_def)
  moreover have "database_ok empty_database" by (simp add: database_ok_def sources_ok_def empty_database_def)
  ultimately show ?thesis
    using saved_is_loaded [OF _ _ usage_snapshot_whole [of 200 7], of empty_database "\<lambda>_. 0" usage_clock 500
        "''octo''" "''http://octo''" "''Octo''" "''lifetime''" "''yaml''"] by auto
qed

text \<open>
  C21: accounts are kept apart. A save does not change what is loaded for an account of another
  source, one with another name and address that is not found as the same row, nor for another
  login of the same source.
\<close>

theorem accounts_apart:
  assumes "database_ok db" and "SaveDaily typ name url who s db = Inr db'"
    and "LoadDaily midnight now now_ms n u w period db = Inr (Some ds)"
    and "n \<noteq> name \<and> u \<noteq> url \<and> resolveSourceID db n u \<noteq> resolveSourceID db name url
      \<or> n = name \<and> u = url \<and> to_lower w \<noteq> to_lower who"
  shows "LoadDaily midnight now now_ms n u w period db' = Inr (Some ds)"
  by (rule load_other [OF assms])

theorem accounts_apart_witness:
  "\<exists>db'. LoadDaily (\<lambda>_. 0) usage_clock 500 ''octo'' ''http://octo'' ''Octo'' ''lifetime'' db'
     = Inr (Some (loadDays 0 501 (usage_history 7)))"
proof -
  let ?db = "usage_database (usage_history 7)"
  have low: "to_lower ''Octo'' = ''octo''" "to_lower ''mona'' = ''mona''" by code_simp+
  have ok: "database_ok ?db" by (rule usage_database_ok [OF usage_history_ok])
  have none: "LoadDaily (\<lambda>_. 0) usage_clock 500 ''octo'' ''http://octo'' ''mona'' ''lifetime'' ?db = Inr None"
    using usage_resolved by (simp add: load_cases low stored_history_def usage_database_def account_id_def)
  have "validateDaily (usage_snapshot 200 7)" by (rule usage_valid) simp
  then obtain db' where s: "SaveDaily ''yaml'' ''octo'' ''http://octo'' ''mona'' (usage_snapshot 200 7) ?db = Inr db'"
    by (rule save_first_load [OF ok none _ usage_saved])
  have "LoadDaily (\<lambda>_. 0) usage_clock 500 ''octo'' ''http://octo'' ''Octo'' ''lifetime'' ?db
      = Inr (Some (loadDays 0 501 (usage_history 7)))"
    using usage_resolved usage_stored by (simp add: load_cases low periodStart_def)
  from accounts_apart [OF ok s this] show ?thesis by (auto simp: low)
qed

section \<open>Loading\<close>

text \<open>
  C22: loading adds the segments up. Whatever the history, the days of a period have distinct
  dates in ascending order, those of the rows that begin in it, and their tokens, requests and
  nano units of every currency sum up to those of the rows of all segments.
\<close>

theorem history_adds_up:
  "let ds = loadDays lo hi h; rows = period_rows lo hi h
   in sorted (map ud_date ds) \<and> distinct (map ud_date ds) \<and> ud_date ` set ds = sd_date ` set rows
      \<and> sum_list (map (\<lambda>d. gt_tokens (ud_totals d)) ds) = sum_list (map (\<lambda>r. gt_tokens (sd_totals r)) rows)
      \<and> sum_list (map (\<lambda>d. gt_requests (ud_totals d)) ds) = sum_list (map (\<lambda>r. gt_requests (sd_totals r)) rows)
      \<and> sum_list (map (\<lambda>d. nanos_of c (ud_totals d)) ds) = sum_list (map (\<lambda>r. nanos_of c (sd_totals r)) rows)"
  unfolding Let_def by (intro conjI load_sums)

section \<open>Answering from the store\<close>

text \<open>The days of a period as an instance reports them, and its summary of them.\<close>

definition reported :: "(date \<Rightarrow> int) \<Rightarrow> clock \<Rightarrow> int \<Rightarrow> string \<Rightarrow> snapshot \<Rightarrow> upstream_day list" where
  "reported midnight now now_ms period s = map upstream_day.truncate (period_days midnight now now_ms period s)"

definition summary_of :: "upstream_day list \<Rightarrow> summary" where
  "summary_of ds = \<lparr>su_totals = fst (summarizeDays ds), su_models = snd (summarizeDays ds)\<rparr>"

lemma synced_paths_agree:
  assumes "resolve usage es fs = (accs, errs)" and "mset order = mset accs"
    and "\<forall>a \<in> set accs. fetch a = Inr (snap a) \<and> whole_snapshot (snap a)"
    and "\<forall>a \<in> set accs. dailies a = Inr (reported midnight now now_ms period (snap a))
      \<and> summaries a = Inr (summary_of (reported midnight now now_ms period (snap a)))"
  shows "liveDashboard aliases summaries dailies now accs errs period who
    = persistedDashboard aliases (stored_days midnight now now_ms period (sync_accounts fetch order empty_database))
        now accs errs period who"
proof (rule paths_agree, intro ballI impI)
  fix a
  assume a: "a \<in> set accs"
  have "stored_days midnight now now_ms period (sync_accounts fetch order empty_database) a
      = Snapshot (reported midnight now now_ms period (snap a))"
    unfolding reported_def by (rule synced_days [OF assms(2) resolved_apart [OF assms(1)] assms(3) a])
  then show "synchronized (stored_days midnight now now_ms period (sync_accounts fetch order empty_database)) summaries dailies a"
    using assms(4) a by (simp add: synchronized_def summary_of_def)
qed

text \<open>
  C6: after a synchronization the store answers as the instances would. Let the accounts be
  those that were resolved, let each instance report a whole snapshot, and let the accounts be
  synchronized into an empty store in any order. Then for every period and selection the answer
  built from the store equals the answer built from the instances, whose days and summary of
  the period are those of their snapshot: data, failures and status.
\<close>

theorem dashboards_agree:
  assumes "resolve usage es fs = (accs, errs)" and "mset order = mset accs"
    and "\<forall>a \<in> set accs. fetch a = Inr (snap a) \<and> whole_snapshot (snap a)"
    and "\<forall>a \<in> set accs. dailies a = Inr (reported midnight now now_ms period (snap a))
      \<and> summaries a = Inr (summary_of (reported midnight now now_ms period (snap a)))"
  shows "liveDashboard aliases summaries dailies now accs errs period who
    = persistedDashboard aliases (stored_days midnight now now_ms period (sync_accounts fetch order empty_database))
        now accs errs period who"
  by (rule synced_paths_agree [OF assms])

theorem dashboards_agree_witness:
  "let fetch = (\<lambda>_. Inr (usage_snapshot 200 7));
       days = reported (\<lambda>_. 0) usage_clock 500 ''last_7_days'' (usage_snapshot 200 7);
       (accs, errs) = resolve (\<lambda>e. Inr (r_usage (usage_account (ep_name e))))
         [usage_endpoint ''octo'', usage_endpoint ''mona''] []
   in liveDashboard (\<lambda>_. []) (\<lambda>_. Inr (summary_of days)) (\<lambda>_. Inr days) usage_clock accs errs ''last_7_days'' ''OCTO''
      = persistedDashboard (\<lambda>_. []) (stored_days (\<lambda>_. 0) usage_clock 500 ''last_7_days''
          (sync_accounts fetch (rev accs) empty_database)) usage_clock accs errs ''last_7_days'' ''OCTO''"
proof -
  obtain accs errs where r: "resolve (\<lambda>e. Inr (r_usage (usage_account (ep_name e))))
      [usage_endpoint ''octo'', usage_endpoint ''mona''] [] = (accs, errs)" by fastforce
  show ?thesis
    unfolding r Let_def prod.case
    by (rule dashboards_agree [OF r, where snap = "\<lambda>_. usage_snapshot 200 7"]) (simp_all add: usage_snapshot_whole)
qed

end
