(* ===== verification/Aliases.thy ===== *)
theory Aliases
  imports Discover
begin

text \<open>
  The aliases of accounts (\<open>internal/config/aliases.go\<close>, lines 45 to 60): the loop over the
  decoded mapping. A node of the YAML library is its kind, tag, value and line.
\<close>

record yaml_node =
  yn_scalar :: bool
  yn_tag :: string
  yn_value :: string
  yn_line :: nat

definition login_node :: "yaml_node \<Rightarrow> bool" where
  "login_node k \<longleftrightarrow> yn_scalar k \<and> yn_tag k = ''!!str'' \<and> yn_value k \<noteq> [] \<and> is_trimmed (yn_value k)
     \<and> \<not> list_ex (\<lambda>c. c \<in> set [CHR 0x0D, CHR 0x0A, CHR 0x09]) (yn_value k)"

definition alias_node :: "yaml_node \<Rightarrow> bool" where
  "alias_node v \<longleftrightarrow> yn_scalar v \<and> yn_tag v = ''!!str'' \<and> \<not> blank (yn_value v)"

fun read_aliases :: "(yaml_node \<times> yaml_node) list \<Rightarrow> (string \<Rightarrow> string option) \<Rightarrow> string + (string \<Rightarrow> string option)" where
  "read_aliases [] m = Inr m"
| "read_aliases ((k, v) # rest) m =
     (if \<not> login_node k then Inl (''invalid account aliases login at line '' @ digits (yn_line k))
      else if \<not> alias_node v then Inl (''account alias at line '' @ digits (yn_line v) @ '' must be a non-empty string'')
      else if m (to_lower (yn_value k)) \<noteq> None then Inl (''duplicate account aliases login at line '' @ digits (yn_line k))
      else read_aliases rest (m(to_lower (yn_value k) \<mapsto> yn_value v)))"

definition LoadAccountAliases :: "(yaml_node \<times> yaml_node) list \<Rightarrow> string + (string \<Rightarrow> string option)" where
  "LoadAccountAliases nodes = read_aliases nodes Map.empty"

text \<open>What the service looks up: the empty string when there is no alias.\<close>

definition alias_for :: "(string \<Rightarrow> string option) \<Rightarrow> string \<Rightarrow> string" where
  "alias_for m k = (case m k of None \<Rightarrow> [] | Some v \<Rightarrow> v)"

lemma read_aliases_result:
  "read_aliases nodes m = Inr m' \<Longrightarrow> distinct (map (\<lambda>(k, v). to_lower (yn_value k)) nodes)
     \<and> (\<forall>(k, v) \<in> set nodes. login_node k \<and> alias_node v \<and> m (to_lower (yn_value k)) = None
          \<and> m' (to_lower (yn_value k)) = Some (yn_value v))
     \<and> (\<forall>q. q \<notin> (\<lambda>(k, v). to_lower (yn_value k)) ` set nodes \<longrightarrow> m' q = m q)"
proof (induction nodes m rule: read_aliases.induct)
  case (2 k v rest m)
  then have g: "login_node k" "alias_node v" "m (to_lower (yn_value k)) = None"
    "read_aliases rest (m(to_lower (yn_value k) \<mapsto> yn_value v)) = Inr m'"
    by (auto split: if_splits)
  note IH = "2.IH" [OF _ _ _ g(4)]
  then have new: "to_lower (yn_value k) \<notin> (\<lambda>(k, v). to_lower (yn_value k)) ` set rest"
    using g(1-3) by fastforce
  then show ?case using IH g by (fastforce split: if_splits)
qed simp

text \<open>
  Aliases are found under any case of the login: each entry gives the accounts with its login the
  display name of its value, which is not blank; logins differ up to case; the other accounts
  have none.
\<close>

theorem aliases_found:
  assumes "LoadAccountAliases nodes = Inr m"
  shows "distinct (map (\<lambda>(k, v). to_lower (yn_value k)) nodes)
    \<and> (\<forall>(k, v) \<in> set nodes. \<forall>a. to_lower (gu_login (r_usage a)) = to_lower (yn_value k) \<longrightarrow>
         ga_display (list_account (alias_for m) a t) = yn_value v \<and> \<not> blank (yn_value v))
    \<and> (\<forall>a. login_key a \<notin> (\<lambda>(k, v). to_lower (yn_value k)) ` set nodes \<longrightarrow> ga_display (list_account (alias_for m) a t) = [])"
  using read_aliases_result [OF assms [unfolded LoadAccountAliases_def]]
  by (fastforce simp: list_account_def alias_for_def login_key_def alias_node_def)

definition octo_alias :: "(yaml_node \<times> yaml_node) list" where
  "octo_alias = [(\<lparr>yn_scalar = True, yn_tag = ''!!str'', yn_value = ''Octo'', yn_line = 2\<rparr>,
     \<lparr>yn_scalar = True, yn_tag = ''!!str'', yn_value = ''The Cat'', yn_line = 2\<rparr>)]"

definition octo_account :: "unit resolved" where
  "octo_account = \<lparr>r_endpoint = \<lparr>ep_name = ''octo'', ep_url = ''http://octo'', ep_source = ''yaml'', ep_key = []\<rparr>,
     r_usage = \<lparr>gu_login = ''octo'', gu_plan = None, gu_reset = None, gu_quotas = None\<rparr>\<rparr>"

theorem aliases_found_witness:
  "\<exists>m. LoadAccountAliases octo_alias = Inr m \<and> ga_display (list_account (alias_for m) octo_account None) = ''The Cat''"
proof -
  have "login_node (fst (hd octo_alias))" "alias_node (snd (hd octo_alias))" by code_simp+
  then obtain m where m: "LoadAccountAliases octo_alias = Inr m" by (simp add: LoadAccountAliases_def octo_alias_def)
  have low: "to_lower (gu_login (r_usage octo_account)) = to_lower ''Octo''" by code_simp
  have "\<forall>(k, v) \<in> set octo_alias. \<forall>a :: unit resolved. to_lower (gu_login (r_usage a)) = to_lower (yn_value k) \<longrightarrow>
      ga_display (list_account (alias_for m) a None) = yn_value v \<and> \<not> blank (yn_value v)"
    using aliases_found [OF m] by blast
  then show ?thesis using m low by (simp add: octo_alias_def)
qed

end
