(* ===== verification/Spec2Isabelle.thy ===== *)
theory Spec2Isabelle
  imports Demo Wire Errors Store_Properties Base_Path Aliases
begin

text \<open>
  A verification development of the Copilot API dashboard, a read-only web page that shows
  the quotas, tokens, requests and costs of several Copilot API instances.

  \<^bold>\<open>The program.\<close> The page is one script, \<open>src/web/app.js\<close>: module variables (the selected
  account and period, the page of events, the errors, the sort specifications, the stored
  table views, the abort controllers and the refresh counter), formatting helpers, renderers
  that assign \<open>innerHTML\<close>, the interaction with the chart, three asynchronous functions
  (\<open>request\<close>, \<open>loadEvents\<close>, \<open>refresh\<close>) and the listeners. It talks to the Go service under
  \<open>src/internal\<close> over three endpoints: the handler checks the query, the service resolves
  the accounts of the discovered instances and merges their usage, from the instances or from
  a store that a synchronization fills.

  \<^bold>\<open>The page.\<close> Line numbers are those of \<open>src/web/app.js\<close>.

  \<^item> \<open>Prelude\<close>: bytes of the non-ASCII characters, case folding, the integer logarithm.
  \<^item> \<open>Doubles\<close>: JavaScript numbers (\<open>jsnum\<close>) as binary64 values with correct rounding,
    signed zero, infinities and NaN; the locale \<open>rounding\<close> gives the bounds on sums,
    differences, quotients and \<open>Math.round\<close> the later theories use.
  \<^item> \<open>Decimal\<close>: the texts of numbers (\<open>toString\<close>, \<open>toFixed\<close>, \<open>toLocaleString\<close>, compact
    notation) for en-US.
  \<^item> \<open>Format\<close>: lines 3 to 63 and 108 to 110, one definition per function.
  \<^item> \<open>Markup\<close>: an HTML tokenizer and the predicate \<open>html\<close>; the locale \<open>inert_text\<close> is what
    a template needs of inserted text, interpreted for every formatting helper.
  \<^item> \<open>Quota\<close>: lines 112 to 183.
  \<^item> \<open>Stable_Sort\<close>, \<open>Tables\<close>: lines 26, 65 to 96 and 583 to 590. The locales
    \<open>comparator_on\<close> and \<open>collation\<close> state what a consistent comparator is and what
    \<open>localeCompare\<close> promises; the code's row comparator is shown to be one.
  \<^item> \<open>Systems\<close>: reachability, and the locales of inductive invariants and simulations.
  \<^item> \<open>Chart\<close>, \<open>Plot\<close>, \<open>Trend\<close>: lines 193 to 308: scales and tooltip, the plot as a state
    machine with its refinement by a cursor, and the SVG and daily table.
  \<^item> \<open>Query\<close>: lines 12, 13 and 489 to 513, with \<open>URLSearchParams\<close> as the locale
    \<open>query_codec\<close>.
  \<^item> \<open>Panels\<close>, \<open>Page\<close>: lines 137 to 139, 185 to 191, 310 to 390, 433 to 436, 503 to 522 and
    574 to 595. The record \<open>page\<close> holds the module's variables and, by id, what the script
    assigns to the document; each renderer and handler is a function on it, a handler that
    would throw is \<open>None\<close>.
  \<^item> \<open>Page_Invariant\<close>: safe markup, current tables (every table is the output of its stored
    view, so that \<open>redrawTable\<close> never throws), the chart, the account selector.
  \<^item> \<open>Requests\<close>: lines 392 to 487, 524 to 531, 558 to 573, 596 and 597. An asynchronous
    function is a task that waits for the answer of its request; the three \<open>resume\<close>
    functions are what follows each \<open>await\<close>, with the checks of the counter and the signal
    and the \<open>finally\<close> blocks.
  \<^item> \<open>Control\<close>: the relation \<open>session_step\<close>, one rule per listener and per answer, in any
    order and with any answers; the invariant of controllers, counter and busy flags.
  \<^item> \<open>Filters\<close>, \<open>Session\<close>: agreement of the selectors, the address and the page; the
    invariant of all reachable sessions, progress, what an answer reports and shows, and
    the refinement by the abstract machine of request phases.
  \<^item> \<open>Theme\<close>: lines 15 to 17, 533 to 556, 564, 565 and the inline script of
    \<open>src/web/index.html\<close>.
  \<^item> \<open>Demo\<close>: a concrete session on which the properties are evaluated.

  \<^bold>\<open>The service.\<close> Files are below \<open>src/internal\<close>.

  \<^item> \<open>Keyed_Lists\<close>: searching a slice by a key, appending when it is missing; the locale
    \<open>measure\<close> of what an addition adds up.
  \<^item> \<open>Aggregate\<close>: \<open>dashboard/aggregate.go\<close>, lines 12 to 82: 64-bit counters as words, costs
    per currency; the locale \<open>counter\<close> carries a measure through models and days.
  \<^item> \<open>Calendar\<close>, \<open>Days\<close>: civil dates and their text; \<open>fillDays\<close>.
  \<^item> \<open>Endpoints\<close>: \<open>Less\<close> and \<open>Deduplicate\<close> of \<open>discovery/discovery.go\<close>, with the order as an
    interpretation of \<open>comparator_on\<close>.
  \<^item> \<open>Service\<close>, \<open>Service_Facts\<close>, \<open>Dashboard_Paths\<close>: \<open>dashboard/service.go\<close>: accounts, both
    ways to answer a dashboard request, events, synchronization; sums, normal forms, and the
    agreement of the two ways.
  \<^item> \<open>Sync_Tasks\<close>: lines 201 to 233 of \<open>dashboard/service.go\<close> as a state machine over the
    goroutines that call them.
  \<^item> \<open>Endpoint_URL\<close>, \<open>Discover\<close>: the rest of \<open>discovery/discovery.go\<close>: the normal form of an
    address, the entries of the configuration file, the containers, and what is found or
    reported.
  \<^item> \<open>Client\<close>: \<open>upstream/client.go\<close>, lines 34 to 129, the request to an instance and the checks
    of its answer, with \<open>SafeMessage\<close>; and lines 235 to 306 of \<open>dashboard/service.go\<close>, how a
    caller waits for a shared synchronization. \<open>Errors\<close>: which messages failures carry.
  \<^item> \<open>Base_Path\<close>, \<open>Aliases\<close>: the base path of \<open>config/config.go\<close>, lines 89 to 106, with the
    cleaning of rooted paths, and the loop of \<open>config/aliases.go\<close>, lines 45 to 60.
  \<^item> \<open>Integer_Text\<close>, \<open>Server\<close>, \<open>Exchange\<close>: the text of an integer; \<open>httpserver/handler.go\<close>:
    query validation and dispatch; the requests of the page against the handler.
  \<^item> \<open>Wire\<close>: the answers as the handler writes and the page reads them.
  \<^item> \<open>History\<close>: \<open>store/sqlite/store.go\<close>, lines 143 to 243 and 337 to 829: the usage history of
    an account, a list of segments of days; which day a snapshot is compared with, resets,
    incomplete snapshots, replacing days, loading a period. \<open>History_Facts\<close>, \<open>History_Kept\<close>,
    \<open>History_Load\<close>, \<open>History_Sums\<close>: a segment as a map of its days, what a save keeps, saving
    twice, loading what was saved, sums over segments.
  \<^item> \<open>Store\<close>, \<open>Store_Facts\<close>, \<open>Store_Save\<close>: the sources and accounts of the same file, lines 157
    to 183, 245 to 322 and 590 to 700: \<open>SaveDaily\<close> and \<open>LoadDaily\<close> over the tables.
  \<^item> \<open>Store_Sync\<close>: the synchronization of an account, lines 282 to 291 of \<open>dashboard/service.go\<close>,
    and what is loaded for it; the locale \<open>client_store\<close> is what filling a store relies on,
    interpreted for the synchronization.
  \<^item> \<open>Service_Properties\<close>, \<open>Store_Properties\<close>: the properties of the service and its store.

  \<^bold>\<open>What the lemmas show.\<close> Of the page: one live task at a time and termination of its
  requests; markup, tables, chart, selectors and address consistent in every reachable
  session; errors reported and data shown; ranges of percentages, coordinates and indices in
  spite of rounding; the order of rows. Of the service: merging is independent of the order and
  adds up; answers in normal form; every account and failure reported once, with the
  program's own messages only; every instance found or reported; only valid requests served; the store never loses usage, gives back what it was given and, once synchronized,
  answers as the instances would. Of both: a request of the page means at the
  service what is selected on the page, and what the service answers is what the page shows.

  \<^bold>\<open>Bounds.\<close> Widths and numbers of days have up to 20 bits, pixel sizes up to 30 or 40 bits,
  counts and positions up to 52 bits: far above what a browser lays out, and low enough that
  binary64 represents the sums exactly or rounds them monotonically. The search for the
  shortest decimal tries up to 17 digits, which identify every binary64 value; page numbers
  below 10 to the 15 print as their digits. No definition needs fuel.

  \<^bold>\<open>Parameters.\<close> Collation, local time and time zone of the browser are the record \<open>host\<close>
  (the laws of a collation are the locale \<open>collation\<close>, with the ASCII order as an instance),
  its layout the record \<open>layout\<close>; \<open>fetch\<close> is the argument \<open>fetched\<close>; what the instances
  return is an argument of the service's functions, as is what the store returns until
  \<open>Store_Sync\<close> puts the store in its place, and until \<open>Errors\<close> puts the client there, whose
  network is an argument (a record \<open>transport\<close>); the parser and the printer of \<open>net/url\<close>, the
  decoded YAML files and the answers of Docker are arguments; which callers share a
  synchronization and when their contexts end is the argument \<open>shared\<close>; the time at which a date begins is an argument of
  \<open>periodStart\<close>; the order in which Go visits a map
  is an argument of the handler's.

  \<^bold>\<open>Simplifications.\<close> Strings are UTF-8 bytes and case folding touches ASCII letters only.
  Midnights exist on every date of the service's location. The sort rule of \<open>session_step\<close>
  also allows clicks on the disabled cost column. An \<open>int\<close> of Go has 64 bits.
  Times in milliseconds are unbounded integers: they are compared, and only the time of a
  request is increased, by one. The database does not fail, its transactions run one after the
  other on the one connection, and a new row gets the id after the greatest.

  \<^bold>\<open>Not modelled.\<close> The document as a tree, styles and focus order beyond what the script
  assigns; SQLite itself (opening the file, the schema, failing
  statements) and the columns nothing reads; reading and decoding files, JSON, HTTP, the grammar
  of \<open>net/url\<close> and the Docker API; the configuration's other variables, which functions of
  packages parse, and the start, the ticker and the signals of the command: their behaviour is
  that of libraries and services outside \<open>src\<close>. Of the service, the groups of \<open>singleflight\<close>
  and contexts themselves; of the handler, the headers and the cross-origin protection of
  \<open>net/http\<close>.
\<close>

section \<open>Requests\<close>

text \<open>
  C1: in every reachable session at most one asynchronous task is live. Either none is, then
  nothing is marked busy, the refresh button is unlocked and the events on the page are
  those of the selected account and period; or exactly one is, the busy flags say so, and
  its request asks for the account, the period and the page that are selected now.
\<close>

theorem requests_controlled:
  assumes "reachable started (session_step h) s"
  shows "(lives s = [] \<and> idle_page (pg s)) \<or> (\<exists>t. lives s = [t] \<and> waiting t (pg s))"
  using session.always [OF assms] by (auto simp: session_ok_def control_ok_def elim: phase_cases)

theorem requests_controlled_witness:
  "let s = choose_period ''lifetime'' (load_page demo_address)
   in (lives s = [] \<and> idle_page (pg s)) \<or> (\<exists>t. lives s = [t] \<and> waiting t (pg s))"
  unfolding Let_def by (rule requests_controlled [OF demo_next [of demo_host]])

text \<open>
  C2: progress and termination. From every reachable session some sequence of answers leaves
  no task waiting; no sequence of answers is longer than the requests the waiting tasks can
  still send; and every sequence that leaves none waiting ends on a page where nothing is busy
  and the refresh button is unlocked.
\<close>

theorem answers_settle:
  assumes "reachable started (session_step h) s"
  shows "(\<exists>s'. (answer_step h)\<^sup>*\<^sup>* s s' \<and> pending s' = [])
    \<and> (\<forall>n s'. ((answer_step h) ^^ n) s s' \<longrightarrow> n \<le> work s)
    \<and> (\<forall>s'. (answer_step h)\<^sup>*\<^sup>* s s' \<longrightarrow> pending s' = [] \<longrightarrow> idle_page (pg s'))"
proof (intro conjI allI impI)
  show "\<exists>s'. (answer_step h)\<^sup>*\<^sup>* s s' \<and> pending s' = []" by (rule answers_drain)
  show "n \<le> work s" if "((answer_step h) ^^ n) s s'" for n s' using answers_bounded [OF that] by simp
  show "idle_page (pg s')" if "(answer_step h)\<^sup>*\<^sup>* s s'" "pending s' = []" for s'
    using quiet answers_keep [OF that(1) session.always [OF assms]] that(2) by blast
qed

theorem answers_settle_witness:
  "\<exists>s'. (answer_step demo_host)\<^sup>*\<^sup>* (load_page demo_address) s' \<and> idle_page (pg s')"
  using answers_settle [OF demo_reachable [of demo_host]] by blast

text \<open>
  Termination of the exchange. A chain of answers from any session is no longer than the
  requests its tasks can still send, so answering cannot go on forever.
\<close>

theorem answers_terminate:
  assumes "((answer_step h) ^^ n) s s'"
  shows "n \<le> work s"
  using answers_bounded [OF assms] by simp

theorem answers_terminate_witness: "(0 :: nat) \<le> work (load_page demo_address)"
  by (rule answers_terminate [where s' = "load_page demo_address" and h = demo_host]) simp

text \<open>
  C3: the page and the service understand each other. In every reachable session the request
  of the live task, sent to the page's directory, is accepted by the handler below its base
  path, in whatever order it visits the parameters, and calls the service with the account,
  the period, the page and the page size that are selected, provided the account can be named
  in a request and the page number is positive and below 10 to the 15.
\<close>

theorem requests_meant:
  assumes "reachable started (session_step h) s" and "lives s = [t]" and "any_order order"
    and "nameable (pg s) t" and "1 \<le> cur_page (pg s)" and "cur_page (pg s) < 10 ^ 15"
  shows "serve order base (request_to base t) = meant (pg s) t"
  by (rule live_request_meant [OF session.always [OF assms(1)] assms(2-6)])

theorem requests_meant_witness:
  "\<exists>t. pending (load_page demo_address) = [t]
     \<and> serve rev ''/usage'' (request_to ''/usage'' t) = CallDashboard ''today'' ''Octo''"
proof -
  let ?s = "load_page demo_address"
  obtain t where t: "pending ?s = [t]" "kind t = AwaitDashboard []" "live ?s t"
    using load_pending [of demo_address] by blast
  have f: "locationFilters demo_address = \<lparr>f_account = ''Octo'', f_period = ''today'', f_valid = True\<rparr>"
    by code_simp
  have "validAccount ''Octo''" by code_simp
  then have "nameable (pg ?s) t" by (simp add: nameable_def load_filters f)
  then have "serve rev ''/usage'' (request_to ''/usage'' t) = meant (pg ?s) t"
    using t by (intro requests_meant [OF demo_reachable [of demo_host]])
      (simp_all add: lives_def any_order_def load_filters)
  then show ?thesis using t by (simp add: meant_def load_filters f)
qed

lemma answer_reaches_page:
  assumes "reachable started (session_step h) s" and "i < length (pending s)" and "pending s ! i = t"
    and "kind t = AwaitDashboard es" and "live s t"
    and "resolve usage endpoints fs = (accs, failures)"
    and "persistedDashboard aliases load now accs failures (cur_period (pg s)) (cur_account (pg s)) = (d, errs, found)"
  shows "let p = pg (resume_dashboard h cw t es (dashboard_response (d, errs, found)) (take_task i s))
    in shows_data h cw (json_dashboard d) p \<and> reports (es @ errs) p
       \<and> (found \<longrightarrow> cur_account (pg s) \<noteq> [] \<longrightarrow> da_selected d = Some (cur_account p))
       \<and> distinct (map login (map json_account (da_accounts d)))"
proof -
  let ?f = "dashboard_response (d, errs, found)" and ?r = "\<lparr>result_data = Some (json_dashboard d), result_errors = errs\<rparr>"
  have keys: "distinct (map login_key accs)" by (rule resolve_accounts(2) [OF assms(6)])
  have read: "answer_of t u ?f = Some ?r" for u
    using dashboard_response_read dashboard_reports(1) [OF assms(7)] by (simp add: answer_of_def)
  have ok: "control_ok s" using session.always [OF assms(1)] by (simp add: session_ok_def)
  note l = taken_live [OF ok assms(2,3,5)]
  have "refresh_task t" using assms(4) by (simp add: refresh_task_def)
  then have ctl: "dash_ctl (take_task i s) = Some (t_ctl t)" using l(6) by simp
  have lv: "live (take_task i s) t" using assms(5) by simp
  have "reports (es @ errs) (pg (resume_dashboard h cw t es ?f (take_task i s)))"
    using resume_dashboard_reports [OF l(3) ctl lv read] by (simp add: Let_def)
  moreover have "shows_data h cw (json_dashboard d) (pg (resume_dashboard h cw t es ?f (take_task i s)))"
    by (rule resume_dashboard_shows [OF lv read]) simp
  moreover have "cur_account (pg (resume_dashboard h cw t es ?f (take_task i s)))
      = cur_account (updateAccounts (map json_account (da_accounts d)) (pg s))"
    using answer_selects [OF lv read] by (simp add: take_task_def)
  ultimately show ?thesis
    using selection_agrees [OF assms(7) keys] logins_distinct [OF assms(7) keys] by (simp only: Let_def) simp
qed

text \<open>
  C4: from the service to the page. In every reachable session, when the service answers the
  live dashboard request from its store for the accounts it has resolved, the page shows the
  data of that answer and reports its failures after those of the synchronization; the account
  it has selected is the one the service says is selected; and the logins of the answer differ,
  which is what the labels of the accounts rely on.
\<close>

theorem page_shows_service:
  assumes "reachable started (session_step h) s" and "i < length (pending s)" and "pending s ! i = t"
    and "kind t = AwaitDashboard es" and "live s t"
    and "resolve usage endpoints fs = (accs, failures)"
    and "persistedDashboard aliases load now accs failures (cur_period (pg s)) (cur_account (pg s)) = (d, errs, found)"
  shows "let p = pg (resume_dashboard h cw t es (dashboard_response (d, errs, found)) (take_task i s))
    in shows_data h cw (json_dashboard d) p \<and> reports (es @ errs) p
       \<and> (found \<longrightarrow> cur_account (pg s) \<noteq> [] \<longrightarrow> da_selected d = Some (cur_account p))
       \<and> distinct (map login (map json_account (da_accounts d)))"
  by (rule answer_reaches_page [OF assms])

theorem page_shows_service_witness:
  "\<exists>t d errs found. pending (load_page demo_address) = [t]
     \<and> persistedDashboard (\<lambda>_. []) (\<lambda>_. NoSnapshot) usage_clock [] [] ''today'' ''Octo'' = (d, errs, found)
     \<and> reports errs (pg (resume_dashboard demo_host (Fin 800) t [] (dashboard_response (d, errs, found))
          (take_task 0 (load_page demo_address))))"
proof -
  let ?s = "load_page demo_address"
  obtain t where t: "pending ?s = [t]" "kind t = AwaitDashboard []" "live ?s t"
    using load_pending [of demo_address] by blast
  have f: "locationFilters demo_address = \<lparr>f_account = ''Octo'', f_period = ''today'', f_valid = True\<rparr>"
    by code_simp
  obtain d errs found where p: "persistedDashboard (\<lambda>_. []) (\<lambda>_. NoSnapshot) usage_clock ([] :: quotas resolved list) []
      (cur_period (pg ?s)) (cur_account (pg ?s)) = (d, errs, found)"
    by (cases "persistedDashboard (\<lambda>_. []) (\<lambda>_. NoSnapshot) usage_clock ([] :: quotas resolved list) []
      (cur_period (pg ?s)) (cur_account (pg ?s))")
  have r: "resolve (\<lambda>_. Inl []) [] [] = ([], [])" by (simp add: resolve_def Deduplicate_def sort_by_def)
  from page_shows_service [OF demo_reachable, of 0 t, OF _ _ t(2,3) r p] t(1) p
  show ?thesis by (auto simp: Let_def load_filters f)
qed

definition demo_usage :: "string \<Rightarrow> quotas go_usage" where
  "demo_usage l = \<lparr>gu_login = l, gu_plan = None, gu_reset = None, gu_quotas = None\<rparr>"

text \<open>
  C5: from the instances to the page. When the resolved accounts have been synchronized into an
  empty store, in any order, and the live dashboard request is answered from that store, the page
  shows the data and reports the failures that asking the instances themselves would give, for
  the period and the account selected on the page.
\<close>

theorem page_shows_instances:
  assumes "reachable started (session_step h) s" and "i < length (pending s)" and "pending s ! i = t"
    and "kind t = AwaitDashboard es" and "live s t"
    and "resolve usage endpoints fs = (accs, failures)" and "mset order = mset accs"
    and "\<forall>a \<in> set accs. fetch a = Inr (snap a) \<and> whole_snapshot (snap a)"
    and "\<forall>a \<in> set accs. dailies a = Inr (reported midnight now now_ms (cur_period (pg s)) (snap a))
      \<and> summaries a = Inr (summary_of (reported midnight now now_ms (cur_period (pg s)) (snap a)))"
    and "liveDashboard aliases summaries dailies now accs failures (cur_period (pg s)) (cur_account (pg s)) = (d, errs, found)"
  shows "let f = dashboard_response (persistedDashboard aliases
          (stored_days midnight now now_ms (cur_period (pg s)) (sync_accounts fetch order empty_database))
          now accs failures (cur_period (pg s)) (cur_account (pg s)));
        p = pg (resume_dashboard h cw t es f (take_task i s))
     in shows_data h cw (json_dashboard d) p \<and> reports (es @ errs) p"
proof -
  have stored: "persistedDashboard aliases
      (stored_days midnight now now_ms (cur_period (pg s)) (sync_accounts fetch order empty_database))
      now accs failures (cur_period (pg s)) (cur_account (pg s)) = (d, errs, found)"
    using synced_paths_agree [OF assms(6-9)] assms(10) by simp
  show ?thesis using answer_reaches_page [OF assms(1-6) stored] by (simp add: Let_def stored)
qed

theorem page_shows_instances_witness:
  "\<exists>t. pending (load_page demo_address) = [t]
     \<and> (let days = reported (\<lambda>_. 0) usage_clock 500 ''today'' (usage_snapshot 200 7);
            (accs, failures) = resolve (\<lambda>e. Inr (demo_usage (ep_name e))) [usage_endpoint ''octo'', usage_endpoint ''mona''] [];
            (d, errs, found) = liveDashboard (\<lambda>_. []) (\<lambda>_. Inr (summary_of days)) (\<lambda>_. Inr days) usage_clock accs failures
              ''today'' ''Octo''
        in shows_data demo_host (Fin 800) (json_dashboard d) (pg (resume_dashboard demo_host (Fin 800) t []
             (dashboard_response (persistedDashboard (\<lambda>_. []) (stored_days (\<lambda>_. 0) usage_clock 500 ''today''
                (sync_accounts (\<lambda>_. Inr (usage_snapshot 200 7)) (rev accs) empty_database)) usage_clock accs failures
                ''today'' ''Octo'')) (take_task 0 (load_page demo_address)))))"
proof -
  let ?s = "load_page demo_address" and ?days = "reported (\<lambda>_. 0) usage_clock 500 ''today'' (usage_snapshot 200 7)"
  obtain t where t: "pending ?s = [t]" "kind t = AwaitDashboard []" "live ?s t"
    using load_pending [of demo_address] by blast
  have f: "locationFilters demo_address = \<lparr>f_account = ''Octo'', f_period = ''today'', f_valid = True\<rparr>"
    by code_simp
  have sel: "cur_period (pg ?s) = ''today''" "cur_account (pg ?s) = ''Octo''" by (simp_all add: load_filters f)
  obtain accs failures where r: "resolve (\<lambda>e. Inr (demo_usage (ep_name e)))
      [usage_endpoint ''octo'', usage_endpoint ''mona''] [] = (accs, failures)" by fastforce
  obtain d errs found where l: "liveDashboard (\<lambda>_. []) (\<lambda>_. Inr (summary_of ?days)) (\<lambda>_. Inr ?days) usage_clock accs failures
      ''today'' ''Octo'' = (d, errs, found)"
    by (cases "liveDashboard (\<lambda>_. []) (\<lambda>_. Inr (summary_of ?days)) (\<lambda>_. Inr ?days) usage_clock accs failures
      ''today'' ''Octo''")
  have "shows_data demo_host (Fin 800) (json_dashboard d) (pg (resume_dashboard demo_host (Fin 800) t []
      (dashboard_response (persistedDashboard (\<lambda>_. []) (stored_days (\<lambda>_. 0) usage_clock 500 (cur_period (pg ?s))
         (sync_accounts (\<lambda>_. Inr (usage_snapshot 200 7)) (rev accs) empty_database)) usage_clock accs failures
         (cur_period (pg ?s)) (cur_account (pg ?s)))) (take_task 0 ?s)))"
    using page_shows_instances [OF demo_reachable, of 0 t, OF _ _ t(2,3) r, where order = "rev accs"
        and snap = "\<lambda>_. usage_snapshot 200 7" and fetch = "\<lambda>_. Inr (usage_snapshot 200 7)" and midnight = "\<lambda>_. 0"
        and now = usage_clock and now_ms = 500 and dailies = "\<lambda>_. Inr ?days" and summaries = "\<lambda>_. Inr (summary_of ?days)"
        and aliases = "\<lambda>_. []" and d = d and errs = errs and found = found] t(1) l
    by (simp add: Let_def sel usage_snapshot_whole)
  then show ?thesis using t(1) by (simp add: r l sel)
qed

text \<open>
  C9: an answer to a request that was superseded, by a later refresh or by an abort, does not
  change the page; it only stops being waited for.
\<close>

theorem stale_answers_ignored:
  assumes "\<not> live s t"
  shows "resume_sync t q f (take_task i s) = take_task i s
    \<and> resume_dashboard h cw t es g (take_task i s) = take_task i s
    \<and> resume_events h t e (take_task i s) = take_task i s
    \<and> pg (take_task i s) = pg s"
  using assms by (simp add: dead_answer)

theorem stale_answers_ignored_witness:
  "let s = refresh False (load_page demo_address); t = hd (pending s)
   in pg (resume_dashboard demo_host (Fin 800) t [] Rejected (take_task 0 s)) = pg s"
proof -
  let ?s = "refresh False (load_page demo_address)"
  have "\<not> live ?s (hd (pending ?s))"
    by (simp add: load_page_def Let_def live_def refresh_result first_task_def split: prod.split)
  from stale_answers_ignored [OF this, where i = 0] show ?thesis unfolding Let_def by metis
qed

text \<open>
  C10: refinement. The requests follow the abstract machine \<open>phase_next\<close>, action by action. Each
  step of a reachable session has a label that says what the user did or which answer came, and
  the label determines what becomes of the phase, of the lock and of the numbers of refreshes and
  requests begun: a submit begins a sync only while unlocked and changes nothing while locked;
  other filters, chosen or returned to, begin a dashboard and unlock, in every phase; pages are
  turned only when no refresh is in flight, and turning supersedes a request for events; a live
  answer to a sync leads to the dashboard and keeps the lock; a live dashboard unlocks and leads to
  the events exactly when it lists the selected account; stale answers and views change nothing. So
  every run from a loaded page is a run of the machine.
\<close>

theorem requests_refine_phases:
  assumes "reachable started (session_step h) s"
  shows "(\<forall>s'. session_step h s s' \<longleftrightarrow> (\<exists>m. session_move h m s s'))
    \<and> (\<forall>m s'. session_move h m s s' \<longrightarrow> phase_next m (phase_view s) = Some (phase_view s'))
    \<and> (\<forall>loc ms s'. runs (session_move h) (load_page loc) ms s' \<longrightarrow>
         after phase_next ms \<lparr>ph_phase = Loading, ph_locked = False, ph_refreshes = 1, ph_requests = 1\<rparr> = Some (phase_view s'))"
proof (intro conjI allI impI session_labels)
  show "phase_next m (phase_view s) = Some (phase_view s')" if "session_move h m s s'" for m s'
    by (rule phases.step_follows [OF assms that])
  show "after phase_next ms \<lparr>ph_phase = Loading, ph_locked = False, ph_refreshes = 1, ph_requests = 1\<rparr> = Some (phase_view s')"
    if "runs (session_move h) (load_page loc) ms s'" for loc ms s'
  proof -
    have "started (load_page loc)" by (auto simp: started_def)
    from phases.run_follows [OF that session.always [OF reachable.start [where init = started, OF this]]] show ?thesis
      by (simp add: phase_started)
  qed
qed

theorem requests_refine_phases_witness:
  "phase_next Submitted \<lparr>ph_phase = Loading, ph_locked = False, ph_refreshes = 1, ph_requests = 1\<rparr>
     = Some (phase_view (submit (load_page demo_address)))"
proof -
  have "session_move demo_host Submitted (load_page demo_address) (submit (load_page demo_address))"
    by (rule session_move.intros(1))
  then show ?thesis using requests_refine_phases [OF demo_reachable [of demo_host]]
    unfolding phase_started by blast
qed

text \<open>
  C11: what a dashboard answer reports. In every reachable session the answer of a live
  refresh, whatever it is, leaves the page with exactly the errors of the sync and of the
  answer: the error list, the alert, their visibility and the announcement are those of
  these errors, the page is no longer busy and the refresh button is unlocked.
\<close>

theorem failures_reported:
  assumes "reachable started (session_step h) s" and "i < length (pending s)" and "pending s ! i = t"
    and "kind t = AwaitDashboard es" and "live s t" and "answer_of t s f = Some r"
  shows "let p = pg (resume_dashboard h cw t es f (take_task i s))
    in reports (es @ result_errors r) p \<and> \<not> busy p ''content'' \<and> \<not> syncing p"
proof -
  have ok: "control_ok s" using session.always [OF assms(1)] by (simp add: session_ok_def)
  note l = taken_live [OF ok assms(2,3,5)]
  have "refresh_task t" using assms(4) by (simp add: refresh_task_def)
  then have "dash_ctl (take_task i s) = Some (t_ctl t)" using l(6) by simp
  moreover have "answer_of t (take_task i s) f = Some r" using assms(6) by (simp add: answer_of_def)
  ultimately show ?thesis using l(3) assms(5) by (intro resume_dashboard_reports) simp_all
qed

theorem failures_reported_witness:
  "\<exists>t. pending (load_page demo_address) = [t]
     \<and> reports [\<lparr>target = t_target t, operation = ''dashboard'', message = ''Network request failed''\<rparr>]
         (pg (resume_dashboard demo_host (Fin 800) t [] Rejected (take_task 0 (load_page demo_address))))"
proof -
  let ?s = "load_page demo_address"
  obtain t where t: "pending ?s = [t]" "kind t = AwaitDashboard []" "live ?s t" using load_pending [of demo_address] by blast
  have n: "operation_name ''api/v1/dashboard'' = ''dashboard''" by code_simp
  have "answer_of t ?s Rejected = Some (failed (t_target t) ''dashboard'' ''Network request failed'')"
    using t by (simp add: answer_of_def request_def live_def path_of_def n)
  from failures_reported [OF demo_reachable, of 0 t, OF _ _ t(2,3) this] t(1)
  show ?thesis by (auto simp: Let_def failed_def)
qed

text \<open>
  A failed request is reported: a result without data always carries at least one error,
  unless the server itself answered with success, null data and no error.
\<close>

theorem request_reports:
  assumes "request who path ab f = Some r" and "result_data r = None" and "result_errors r = []"
  shows "\<exists>n b. f = Parsed n (Some b) \<and> ok_status n \<and> body_data b = Some None \<and> body_errors b = Some []"
  using assms by (auto simp: request_def failed_def Let_def split: fetched.splits option.splits if_splits)

theorem request_reports_witness:
  "ok_status 200 \<and> (\<exists>r. request ''Octo'' ''api/v1/events'' False
     (Parsed 200 (Some \<lparr>body_errors = Some [], body_data = Some (None :: nat option)\<rparr>)) = Some r)"
proof -
  let ?f = "Parsed 200 (Some \<lparr>body_errors = Some [], body_data = Some (None :: nat option)\<rparr>)"
  have r: "request ''Octo'' ''api/v1/events'' False ?f = Some \<lparr>result_data = None, result_errors = []\<rparr>"
    by (simp add: request_def ok_status_def Let_def)
  from request_reports [OF r] have "ok_status 200" by auto
  then show ?thesis using r by blast
qed

text \<open>
  C14: the sync lock. While a sync is in flight the refresh button is locked. Unlocked, a submit
  locks it and leaves as the only live request a sync of the selected account; locked, a submit
  changes nothing, and a refresh is in flight. No step but a submit locks the button, and only a
  live dashboard or other filters unlock it.
\<close>

theorem sync_locked:
  assumes "reachable started (session_step h) s"
  shows "(\<forall>t q. t \<in> set (lives s) \<longrightarrow> kind t = AwaitSync q \<longrightarrow> syncing (pg s))
    \<and> (\<not> syncing (pg s) \<longrightarrow> syncing (pg (submit s))
         \<and> (\<exists>t q. lives (submit s) = [t] \<and> kind t = AwaitSync q \<and> t_query t = sync_query (pg s)))
    \<and> (syncing (pg s) \<longrightarrow> submit s = s \<and> (\<exists>t. lives s = [t] \<and> refresh_task t))
    \<and> (\<forall>s'. session_step h s s' \<longrightarrow> \<not> syncing (pg s) \<longrightarrow> syncing (pg s') \<longrightarrow> s' = submit s)
    \<and> (\<forall>m s'. session_move h m s s' \<longrightarrow> syncing (pg s) \<longrightarrow> \<not> syncing (pg s') \<longrightarrow>
         m = Filtered \<or> m = Returned False \<or> (\<exists>b. m = DashboardAnswered True b))"
proof -
  have ok: "control_ok s" using session.always [OF assms] by (simp add: session_ok_def)
  note flight = sync_in_flight [OF assms]
  have locked: "\<exists>t. lives s = [t] \<and> refresh_task t" if "syncing (pg s)"
    using ok that by (auto simp: control_ok_def idle_page_def waiting_def refresh_task_def
        elim!: phase_cases split: task_kind.splits)
  then have np: "syncing (pg s) \<Longrightarrow> phase_of s \<noteq> Paging"
    by (auto simp: phase_of_def refresh_task_def elim: phase_of_kind.elims)
  have "syncing (pg s)" if "t \<in> set (lives s)" "kind t = AwaitSync q" for t q
  proof -
    have "lives s = [t]" using ok that(1) by (auto simp: control_ok_def elim: phase_cases)
    then show ?thesis using flight that(2) by (simp add: phase_of_def)
  qed
  moreover have "s' = submit s" if "session_step h s s'" "\<not> syncing (pg s)" "syncing (pg s')" for s'
  proof -
    obtain m where m: "session_move h m s s'" using session_labels [THEN iffD1, OF \<open>session_step h s s'\<close>] by blast
    have "m = Submitted" using phase_locks(1) [OF phases.step_follows [OF assms m]] that(2,3) by (simp add: phase_view_def)
    then show ?thesis using m submitted by blast
  qed
  moreover have "m = Filtered \<or> m = Returned False \<or> (\<exists>b. m = DashboardAnswered True b)"
    if "session_move h m s s'" "syncing (pg s)" "\<not> syncing (pg s')" for m s'
    using phase_locks(2) [OF phases.step_follows [OF assms that(1)]] that(2,3) np by (simp add: phase_view_def)
  ultimately show ?thesis using unlocked_submit [OF ok] locked by (auto simp: submit_def)
qed

theorem sync_locked_witness:
  "syncing (pg (submit (load_page demo_address)))
   \<and> submit (submit (load_page demo_address)) = submit (load_page demo_address)"
proof -
  let ?s = "load_page demo_address"
  have off: "\<not> syncing (pg ?s)"
    by (simp add: load_page_def Let_def refresh_result split: prod.split)
  have "reachable started (session_step demo_host) (submit ?s)"
    by (rule reachable.move [OF demo_reachable], rule session_step.submit)
  then show ?thesis using sync_locked [OF demo_reachable [of demo_host]] off sync_locked by blast
qed

text \<open>
  The page of events that is asked for. Turning pages from a page whose number is
  between 1 and the number of pages asks for a page in the same range.
\<close>

theorem paging_in_range:
  assumes "1 \<le> cur_page (pg s)" and "cur_page (pg s) \<le> cur_total_pages (pg s)"
  shows "1 \<le> cur_page (pg (previous_page s)) \<and> cur_page (pg (previous_page s)) \<le> cur_total_pages (pg s)
    \<and> 1 \<le> cur_page (pg (next_page s)) \<and> cur_page (pg (next_page s)) \<le> cur_total_pages (pg s)
    \<and> (next_page s = s \<or> last (pending (next_page s)) = events_task (on_page (\<lambda>p. p\<lparr>cur_page := cur_page p + 1\<rparr>) s))"
  using assms
  by (simp add: previous_page_def next_page_def turn_page_def loadEvents_result on_page_def set_defs)

theorem paging_in_range_witness:
  "let s = on_page (\<lambda>p. p\<lparr>cur_page := 2, cur_total_pages := 2\<rparr>) (load_page demo_address)
   in 1 \<le> cur_page (pg (previous_page s)) \<and> cur_page (pg (next_page s)) \<le> 2"
  unfolding Let_def
  using paging_in_range [of "on_page (\<lambda>p. p\<lparr>cur_page := 2, cur_total_pages := 2\<rparr>) (load_page demo_address)"]
  by (simp add: on_page_def)

section \<open>The page\<close>

text \<open>
  C15: no data can add markup. In every reachable session, whatever the service answered,
  all the markup on the page is a sequence of complete tags of the page's own elements and
  attributes: the elements the script fills, the chart, its tooltip, the tables, and every table the
  page can redraw.
\<close>

theorem markup_is_safe:
  assumes "reachable started (session_step h) s"
  shows "html (markup (pg s) k) \<and> html (trend_markup (trend_panel (pg s)))
    \<and> html (panel_markup (models_panel (pg s))) \<and> html (panel_markup (accounts_panel (pg s)))
    \<and> (case trend_panel (pg s) of TrendChart g ds x daily p \<Rightarrow> html (tooltip_html p) | _ \<Rightarrow> True)
    \<and> (case table_views (pg s) tid of None \<Rightarrow> True | Some v \<Rightarrow> html (v b sp))"
  using session.always [OF assms]
  by (auto simp: session_ok_def page_ok_def safe_page_def split: option.split trend_view.split)

theorem markup_is_safe_witness: "html (markup (pg (load_page demo_address)) ''metrics'')"
  using markup_is_safe [OF demo_reachable [of demo_host]] by blast



text \<open>
  Pressing d never throws: the table of accounts is on the page whenever the handler
  redraws it, and afterwards every table is still the output of its view.
\<close>

theorem names_key_works:
  assumes "reachable started (session_step h) s"
  shows "\<exists>p. toggle_names e (pg s) = Some p \<and> tables_current p
    \<and> (p = pg s \<or> show_names p = (\<not> show_names (pg s)))"
  using toggle_names_works session.always [OF assms] by (auto simp: session_ok_def page_ok_def)

theorem names_key_works_witness:
  "\<exists>p. toggle_names \<lparr>key = ''d'', default_prevented = False, ctrl_key = False, meta_key = False,
     alt_key = False, repeated = False, composing = False, editable_target = False\<rparr>
     (pg (load_page demo_address)) = Some p"
  using names_key_works [OF demo_reachable [of demo_host]] by blast

text \<open>
  C17: the filters agree. In every reachable session the account selector shows the account
  of the page, which is one of its options, the period selector shows its period, and the
  address gives the same period and the same account up to case, so that a bookmark or a
  reload restores the view.
\<close>

theorem view_agrees:
  assumes "reachable started (session_step h) s"
  shows "account_value (pg s) = cur_account (pg s)
    \<and> cur_account (pg s) \<in> set (map snd (account_options (pg s)))
    \<and> period_value (pg s) = cur_period (pg s) \<and> cur_period (pg s) \<in> set periods
    \<and> f_period (locationFilters (address (pg s))) = cur_period (pg s)
    \<and> to_lower (f_account (locationFilters (address (pg s)))) = to_lower (cur_account (pg s))"
  using session.always [OF assms]
  by (simp add: session_ok_def page_ok_def account_selected_def filters_agree_def control_ok_def)

theorem view_agrees_witness:
  "period_value (pg (load_page demo_address)) = cur_period (pg (load_page demo_address))"
  using view_agrees [OF demo_reachable [of demo_host]] by blast

section \<open>Tables\<close>

definition demo_rows :: "(string \<times> jsval) list" where
  "demo_rows = [(''b'', Null), (''a'', Num (Fin 2)), (''c'', Num (Fin 1))]"

definition demo_getters :: "(string \<times> jsval \<Rightarrow> jsval) list" where
  "demo_getters = [\<lambda>r. Str (fst r), snd]"

lemma demo_keyed: "well_keyed demo_getters \<lparr>column = 1, direction = - 1\<rparr> demo_rows"
  by (simp add: well_keyed_def uniform_keys_def getter_def demo_getters_def demo_rows_def missing_def)



text \<open>
  The order is determined. Any arrangement of the rows that is sorted and keeps the order
  of equal rows is the one the table shows, so the result does not depend on the
  sorting algorithm of the engine.
\<close>

theorem rows_unique:
  assumes "collation cmp" and "well_keyed getters srt xs" and "set ys \<subseteq> set xs"
    and "sorted_cmp (row_compare cmp getters srt) ys"
    and "\<And>x. x \<in> set xs \<Longrightarrow> filter (\<lambda>y. row_compare cmp getters srt x y = 0) ys
      = filter (\<lambda>y. row_compare cmp getters srt x y = 0) xs"
  shows "ys = sorted_rows cmp getters srt xs"
  unfolding sorted_rows_def
  by (rule comparator_on.stable_sorted_unique [OF collation.row_comparator [OF assms(1,2)] subset_refl assms(3-5)])

theorem rows_unique_witness:
  "sorted_rows ascii_collate demo_getters \<lparr>column = 1, direction = - 1\<rparr> [(''a'', Num (Fin 2))]
     = [(''a'', Num (Fin 2))]"
proof -
  have "well_keyed demo_getters \<lparr>column = 1, direction = - 1\<rparr> [(''a'', Num (Fin 2))]"
    by (simp add: well_keyed_def uniform_keys_def getter_def demo_getters_def missing_def)
  from rows_unique [OF ascii.collation_axioms this, of "[(''a'', Num (Fin 2))]"]
  show ?thesis by (simp add: sorted_cmp_def)
qed

text \<open>
  Rows without a value come last, in both directions: once the sort key of a row is
  missing, so is that of every row after it.
\<close>

theorem missing_rows_last:
  assumes "collation cmp" and "well_keyed getters srt xs" and "i < j" and "j < length xs"
    and "missing (getter getters (column srt) (sorted_rows cmp getters srt xs ! i))"
  shows "missing (getter getters (column srt) (sorted_rows cmp getters srt xs ! j))"
proof -
  have "j < length (sorted_rows cmp getters srt xs)" using assms(4) by (simp add: sorted_rows_def)
  from sorted_cmp_nth [OF collation.rows_sorted [OF assms(1,2)] assms(3) this] assms(5)
  show ?thesis by (rule row_compare_missing)
qed

theorem missing_rows_last_witness:
  "missing (getter demo_getters 1 (sorted_rows ascii_collate demo_getters \<lparr>column = 1, direction = - 1\<rparr>
     [(''a'', Null), (''b'', Undef)] ! 1))"
proof -
  let ?s = "\<lparr>column = 1, direction = - 1\<rparr>" and ?xs = "[(''a'', Null), (''b'', Undef)]"
  have k: "well_keyed demo_getters ?s ?xs"
    by (simp add: well_keyed_def uniform_keys_def getter_def demo_getters_def missing_def)
  have "missing (getter demo_getters 1 r)" if "r \<in> set ?xs" for r
    using that by (auto simp: getter_def demo_getters_def missing_def)
  moreover have "sorted_rows ascii_collate demo_getters ?s ?xs ! 0 \<in> set ?xs"
    using nth_mem [of 0 "sorted_rows ascii_collate demo_getters ?s ?xs"]
    by (metis length_sort_by list.size(3,4) set_sorted_rows sorted_rows_def zero_less_Suc add_Suc_right)
  ultimately have "missing (getter demo_getters (column ?s) (sorted_rows ascii_collate demo_getters ?s ?xs ! 0))"
    by simp
  from missing_rows_last [OF ascii.collation_axioms k _ _ this, of 1] show ?thesis by simp
qed

text \<open>
  Sort clicks. A click selects the column, a second click on it reverses the direction,
  a third one restores it, and no other table's specification changes.
\<close>

theorem sort_clicks:
  "column (click_sort tid col s tid) = col
   \<and> direction (click_sort tid col (click_sort tid col s) tid) = - direction (click_sort tid col s tid)
   \<and> click_sort tid col (click_sort tid col (click_sort tid col s)) = click_sort tid col s
   \<and> (click_sort tid col s)(tid := s tid) = s"
  by (auto simp: click_sort_def Let_def)

text \<open>
  Cost sorting needs one currency. When the rows of a table show no or several
  currencies, the table is not sorted by its last column, the cost; in every case the markup
  is the output of the stored view for the new specifications.
\<close>

theorem cost_sort_reset:
  assumes "sortableTable cmp tid label headers xs getters row costs_of s = (srts, view, shown)"
    and "1 < length headers" and "length (row_currencies costs_of xs) \<noteq> 1"
  shows "column (srts tid) \<noteq> length headers - 1 \<and> shown = view srts"
  using assms by (auto simp: sortableTable_def reset_cost_sort_def Let_def split: if_splits)

theorem cost_sort_reset_witness:
  "column (fst (sortableTable ascii_collate ''days'' ''Daily values'' day_headers [] day_getters day_row
     (\<lambda>_. None) (\<lambda>_. \<lparr>column = 3, direction = 1\<rparr>)) ''days'') \<noteq> 3"
proof -
  obtain srts view shown where r: "sortableTable ascii_collate ''days'' ''Daily values'' day_headers []
      day_getters day_row (\<lambda>_. None) (\<lambda>_. \<lparr>column = 3, direction = 1\<rparr>) = (srts, view, shown)"
    by (metis prod_cases3)
  have "length (row_currencies (\<lambda>_ :: day. None) []) \<noteq> 1" by (simp add: row_currencies_def)
  moreover have n: "1 < length day_headers" "length day_headers - 1 = 3" by (simp_all add: day_headers_def)
  ultimately have "column (srts ''days'') \<noteq> 3" using cost_sort_reset [OF r n(1)] unfolding n(2) by blast
  then show ?thesis by (simp only: r fst_conv not_False_eq_True)
qed

section \<open>Numbers and texts\<close>

text \<open>
  Escaped text is inert and faithful: it contains none of the characters that end a
  text or a quoted attribute, and different strings stay different.
\<close>

theorem escape_faithful:
  "set (escapeHTML v) \<inter> {CHR ''<'', CHR ''>'', CHR 0x22, CHR 0x27} = {}
   \<and> (escapeHTML (Str a) = escapeHTML (Str b)) = (a = b)"
proof -
  have "inj escape_text" by (rule injI) (rule escape_text_inj)
  then show ?thesis by (auto simp: escapeHTML_def to_string_def inj_eq dest: escape_text_safe)
qed

text \<open>
  The cache hit rate. For token counts that are doubles, the rate that is computed is a
  number between 0 and 100, in spite of the rounding of the sum and of the quotient.
\<close>

definition double_value :: "jsval \<Rightarrow> bool" where
  "double_value v \<longleftrightarrow> (case v of Num x \<Rightarrow> is_double x | _ \<Rightarrow> True)"

theorem cache_rate_range:
  assumes "cacheHitRate usage = Some r"
    and "double_value (field input_tokens usage)"
    and "double_value (field cache_read_input_tokens usage)"
    and "double_value (field cache_creation_input_tokens usage)"
  shows "in_range r 0 100"
proof -
  from assms(1) obtain a b c where f: "field input_tokens usage = Num a"
      "field cache_read_input_tokens usage = Num b" "field cache_creation_input_tokens usage = Num c"
      "0 \<le> fin_val a" "0 \<le> fin_val b" "0 \<le> fin_val c" "is_finite (0 + a + b + c)"
      "0 < fin_val (0 + a + b + c)" "r = b / (0 + a + b + c) * Fin 100"
    by (elim cacheHitRate_value)
  then have "is_double a" "is_double b" "is_double c" using assms(2-4) by (simp_all add: double_value_def)
  from cache_share_bounds [OF this f(7,8,4-6)] show ?thesis by (simp add: in_range_def f(9))
qed

theorem cache_rate_range_witness:
  "\<exists>r. cacheHitRate (Some demo_totals) = Some r \<and> in_range r 0 100"
proof -
  have sum: "0 + Fin 0 + Fin 0 + Fin 4 = Fin 4" "0 + Fin 0 = Fin 0" "Fin 0 + Fin 0 = Fin 0" "Fin 0 + Fin 4 = Fin 4"
    using num_of_exact [of 4] by (simp_all add: plus_jsnum_def zero_jsnum_def num_of_def sign_bit_def signed_zero_def)
  have r: "cacheHitRate (Some demo_totals) = Some (Fin 0 / Fin 4 * Fin 100)"
    by (simp add: cacheHitRate_def demo_totals_def field_def bad_count_def sum_counts_def sum Let_def)
  have d: "double_value (Num (Fin 0))" "double_value (Num (Fin 4))"
    by (simp_all add: double_value_def is_double_def)
  have "in_range (Fin 0 / Fin 4 * Fin 100) 0 100"
    using cache_rate_range [OF r] d by (simp add: demo_totals_def field_def)
  then show ?thesis using r by blast
qed

text \<open>
  C29: the usage of a quota. The share that is used is absent or a finite number between 0
  and 100, whatever the service sends, and so is the value of the progress element after
  rounding to tenths.
\<close>

theorem used_percent_range:
  assumes "usedPercentValue q = Num x"
  shows "in_range x 0 100 \<and> in_range (math_round (x * Fin 10) / Fin 10) 0 100"
  using assms rounded_tenths [of x] by (cases rule: usedPercentValue_cases [of q]) (auto simp: in_range_def)

theorem used_percent_range_witness: "\<exists>x. usedPercentValue (Some demo_quota) = Num x \<and> in_range x 0 100"
proof -
  have "usedPercentValue (Some demo_quota) \<noteq> Null"
    by (simp add: usedPercentValue_def demo_quota_def field_def is_zero_def)
  then obtain x where "usedPercentValue (Some demo_quota) = Num x"
    by (cases rule: usedPercentValue_cases [of "Some demo_quota"]) auto
  with used_percent_range [OF this] show ?thesis by blast
qed

text \<open>
  What is used of a metered quota. When entitlement and remainder are integers below
  2 to the 53 and the remainder does not exceed the entitlement, used plus remaining is
  exactly the entitlement.
\<close>

theorem used_complements_remaining:
  assumes "unlimited q = Bool False" and "entitlement q = Num (num_of_nat e)" and "0 < e" and "e \<le> 2 ^ 53"
    and "quota_remaining q = Num (num_of_nat r)" and "r \<le> e"
  shows "\<exists>u. usedValue (Some q) = Num u \<and> is_finite u \<and> fin_val u = of_nat (e - r)
    \<and> remainingValue (Some q) = Num (num_of_nat r)"
proof -
  have "\<bar>fin_val (num_of_nat e) - fin_val (num_of_nat r)\<bar> \<le> of_int (int e)" using assms(6) by simp
  from minus_bounded [OF _ _ this] have d: "is_finite (num_of_nat e - num_of_nat r)"
    "fin_val (num_of_nat e - num_of_nat r) = rnd64 (of_nat e - of_nat r)" using assms(4) by simp_all
  have "rnd64 (of_nat e - of_nat r) = of_nat (e - r)"
    using rnd64_nat [of "e - r"] assms(4,6) by (simp add: of_nat_diff del: rnd64_nat)
  then have m: "is_finite (math_max 0 (num_of_nat e - num_of_nat r))"
    "fin_val (math_max 0 (num_of_nat e - num_of_nat r)) = of_nat (e - r)"
    using math_max_finite [of 0 "num_of_nat e - num_of_nat r"] d by simp_all
  have v: "remainingValue (Some q) = Num (num_of_nat r)"
    using assms by (simp add: remainingValue_def field_def is_zero_def zero_jsnum_def)
  have "usedValue (Some q) = Num (math_max 0 (num_of_nat e - num_of_nat r))"
    using assms v by (simp add: usedValue_def validMeteredQuota_def field_def Let_def zero_jsnum_def)
  then show ?thesis using m v by blast
qed

theorem used_complements_remaining_witness: "\<exists>u. usedValue (Some demo_quota) = Num u \<and> fin_val u = 255"
proof -
  have "\<exists>u. usedValue (Some demo_quota) = Num u \<and> is_finite u \<and> fin_val u = of_nat (300 - 45)
      \<and> remainingValue (Some demo_quota) = Num (num_of_nat 45)"
    by (rule used_complements_remaining) (simp_all add: demo_quota_def num_of_nat_def)
  then show ?thesis by auto
qed

text \<open>
  No cost is shown as nothing. A positive number of nano-units below 2 to the 53 is
  shown with a digit other than 0, and no cost as 0.00.
\<close>

theorem positive_cost_visible:
  assumes "0 < n" and "n \<le> 2 ^ 53"
  shows "\<exists>c \<in> set (money_display (num_of_nat n)). nonzero_digit c"
  by (rule money_display_visible [OF assms])

theorem positive_cost_visible_witness: "\<exists>c \<in> set (money_display (num_of_nat 1)). nonzero_digit c"
  by (rule positive_cost_visible) simp_all

text \<open>
  Integers survive their display: the digits of the text of a natural number, without
  the grouping commas, read back as the number.
\<close>

theorem number_round_trip:
  "read_nat (filter (\<lambda>c. c \<noteq> CHR '','') (number (Num (Fin (of_nat n))))) = n"
  by (simp add: number_def locale_string_nat)

section \<open>The chart\<close>

text \<open>
  The date under a position. For every position that is a number, and bounds of at most
  52 bits, the index is an integer between 0 and the last day, whatever the rounding of the
  difference, the quotient and the product.
\<close>

theorem trend_index_range:
  assumes "coordinate lo" and "coordinate hi" and "position \<noteq> NaN" and "0 < n" and "n \<le> 2 ^ 52"
  shows "is_finite (trendIndexAt position lo hi n)
    \<and> (\<exists>i < n. fin_val (trendIndexAt position lo hi n) = of_nat i)"
  using trendIndexAt_bounds [OF assms] by blast

theorem trend_index_range_witness:
  "\<exists>i < 7. fin_val (trendIndexAt PosInf (Fin 50) (Fin 756) 7) = of_nat i"
  using trend_index_range [of "Fin 50" "Fin 756" PosInf 7] coordinate_nat [of 50] coordinate_nat [of 756]
  by simp

text \<open>
  C27: pointing at a day selects it. The index under the abscissa at which a day is drawn is
  the index of that day, for widths and day counts of at most 20 bits.
\<close>

theorem pointing_at_day:
  assumes "small_geometry g w" and "i < g_count g"
  shows "fin_val (trendIndexAt (chart_x g i) (Fin 50) (g_width g - Fin 12) (g_count g)) = of_nat i"
  by (rule pointer_hits [OF assms])

theorem pointing_at_day_witness:
  "fin_val (trendIndexAt (chart_x demo_geometry 1) (Fin 50) (g_width demo_geometry - Fin 12)
     (g_count demo_geometry)) = 1"
  using pointing_at_day [OF demo_small(1), of 1] demo_small(2) by (simp add: demo_days_def)

text \<open>
  C28: the chart stays inside its frame and fills it. For days whose totals are non-negative
  doubles every point is drawn between the margins: its ordinate between 12 and 168 of 200, its
  abscissa between 50 and the width less 12. A single day is drawn in the middle between the
  margins; of several, the first is drawn on the left margin and the last on the right one.
\<close>

theorem points_in_frame:
  assumes "counted_days ds" and "w \<le> 2 ^ 20" and "length ds \<le> 2 ^ 20" and "i < length ds"
  shows "let g = chart_geometry (num_of_nat w) ds; right = of_nat (max 280 (w - 32) - 12)
    in in_range (chart_y g (g_values g ! i)) 12 168 \<and> in_range (chart_x g i) 50 right
       \<and> (length ds = 1 \<longrightarrow> fin_val (chart_x g i) = (50 + right) / 2)
       \<and> (2 \<le> length ds \<longrightarrow> fin_val (chart_x g 0) = 50 \<and> fin_val (chart_x g (length ds - 1)) = right)"
proof -
  let ?g = "chart_geometry (num_of_nat w) ds" and ?w = "max 280 (w - 32)"
  have ne: "ds \<noteq> []" and n: "g_count ?g = length ds" "length (g_values ?g) = length ds"
    using assms(4) by (auto simp: chart_geometry_def Let_def)
  have v: "g_values ?g ! i \<in> set (g_values ?g)" using assms(4) n by simp
  note m = chart_max [OF assms(1), where cw = "num_of_nat w"]
  note g = chart_geometry_small [OF assms(2) ne assms(3)]
  have y: "in_range (chart_y ?g (g_values ?g ! i)) 12 168"
    by (rule chart_y_range [OF m(1,2) m(3) [OF v]])
  have right: "(50 :: rat) \<le> of_nat (?w - 12)" by simp
  show ?thesis
  proof (cases "length ds = 1")
    case True
    have "in_range (chart_x ?g i) 50 (of_nat (?w - 12))"
      using chart_x_single [OF g, of i] True n right by (simp add: in_range_def del: of_nat_diff)
    then show ?thesis using chart_x_single(2) [OF g] True n y by (simp add: Let_def del: of_nat_diff)
  next
    case False
    then have two: "2 \<le> g_count ?g" using ne n by (cases ds) (auto simp: Suc_le_eq)
    have "in_range (chart_x ?g i) 50 (of_nat (?w - 12))"
      using chart_x_value(3) [OF g _ two] assms(4) n by simp
    then show ?thesis using chart_x_ends [OF g two] False n y by (simp add: Let_def del: of_nat_diff)
  qed
qed

theorem points_in_frame_witness:
  "in_range (chart_y demo_geometry (g_values demo_geometry ! 0)) 12 168"
proof -
  have d: "rnd64 5 = 5" "rnd64 9 = 9" by simp_all
  have big: "(9 :: rat) < 2 ^ 1024" by (rule less_le_trans [of _ "2 ^ 4"]) (simp_all add: power_increasing)
  have "counted_days demo_days"
    using d big by (simp add: counted_days_def demo_days_def demo_day_def field_def is_double_def)
  from points_in_frame [OF this, of 800 0] show ?thesis
    by (simp add: demo_geometry_def Let_def demo_days_def)
qed

text \<open>
  The tooltip stays inside the plot. For a point inside a plot of at most 40 bits both
  offsets of the tooltip are at least 8 and at most what is left of the plot after the
  tooltip and the inset, or 8 when the tooltip does not fit.
\<close>

theorem tooltip_in_plot:
  assumes "sized (2 ^ 40) pw" and "sized (2 ^ 40) ph" and "sized (2 ^ 40) tw" and "sized (2 ^ 40) th"
    and "sized (2 ^ 40) sx" and "0 \<le> fin_val sx" and "fin_val sx \<le> fin_val pw"
    and "sized (2 ^ 40) sy" and "0 \<le> fin_val sy" and "fin_val sy \<le> fin_val ph"
  shows "in_range (fst (tooltip_position pw ph tw th sx sy)) 8 (last_offset pw tw)
    \<and> in_range (snd (tooltip_position pw ph tw th sx sy)) 8 (last_offset ph th)"
  using tooltip_inside [OF assms] by blast

theorem tooltip_in_plot_witness:
  "in_range (fst (tooltip_position (Fin 768) (Fin 200) (Fin 190) (Fin 100) (Fin 756) (Fin 12)))
     8 (last_offset (Fin 768) (Fin 190))"
proof -
  have "sized (2 ^ 40) (Fin 768)" "sized (2 ^ 40) (Fin 200)" "sized (2 ^ 40) (Fin 190)"
    "sized (2 ^ 40) (Fin 100)" "sized (2 ^ 40) (Fin 756)" "sized (2 ^ 40) (Fin 12)"
    by (simp_all add: sized_def)
  from tooltip_in_plot [OF this(1-5) _ _ this(6)] show ?thesis by simp
qed

text \<open>
  C23: what the chart shows. In every reachable session, after any requests, resizes and
  events of the plot, the chart on the page is that of the days of the last answer, and its
  guide, active point and tooltip are visible together; then the tooltip text and the
  coordinates are those of the selected day.
\<close>

theorem chart_shows_selected:
  assumes "reachable started (session_step h) s" and "trend_panel (pg s) = TrendChart g ds x daily p"
  shows "chart_days (pg s) = Some ds \<and> ds \<noteq> [] \<and> (\<exists>cw. g = chart_geometry cw ds)
    \<and> guide_hidden p = tooltip_hidden p \<and> active_hidden p = tooltip_hidden p
    \<and> (tooltip_hidden p \<or> 0 \<le> selected p \<and> selected p < int (length ds)
         \<and> tooltip_html p = trendTooltip (ds ! nat (selected p))
         \<and> guide_x p = chart_x g (nat (selected p)) \<and> active_x p = chart_x g (nat (selected p))
         \<and> active_y p = chart_y g (day_value (ds ! nat (selected p))))"
proof -
  have ok: "chart_days (pg s) = Some ds" "ds \<noteq> []" "plot_ok g ds p" and "\<exists>cw. g = chart_geometry cw ds"
    using session.always [OF assms(1)] assms(2)
    by (auto simp: session_ok_def page_ok_def chart_ok_def chart_of_def)
  then obtain cw where g: "g = chart_geometry cw ds" by blast
  have "g_values g ! i = day_value (ds ! i)" if "i < length ds" for i
    using that by (simp add: g chart_geometry_def Let_def)
  then show ?thesis using ok g by (auto simp: plot_ok_def shows_day_def Let_def)
qed

theorem chart_shows_selected_witness:
  "\<exists>s g x daily p. reachable started (session_step demo_host) s
     \<and> trend_panel (pg s) = TrendChart g demo_days x daily p
     \<and> tooltip_html p = trendTooltip (demo_day ''2026-01-01'' 5)"
proof -
  let ?s = "demo_load demo_plain" and ?p = "plot_show demo_geometry demo_days demo_layout 0 plot_init"
  obtain x daily where c: "trend_panel (pg ?s) = TrendChart demo_geometry demo_days x daily plot_init"
    using demo_chart by blast
  let ?q = "(pg ?s)\<lparr>trend_panel := TrendChart demo_geometry demo_days x daily ?p\<rparr>"
  let ?t = "?s\<lparr>pg := ?q\<rparr>"
  have "plot_input demo_layout (PlotKey ''Home'') (pg ?s) = Some ?q"
    by (simp only: plot_input_def c trend_view.case demo_home option.map)
  then have r: "reachable started (session_step demo_host) ?t"
    by (rule reachable.move [OF demo_load_reachable session_step.inspected])
  have "\<not> tooltip_hidden ?p" "selected ?p = 0"
    using plot_show_selects [OF plot_init_ok, of 0 demo_days demo_geometry demo_layout]
    by (simp_all add: demo_days_def)
  moreover have c': "trend_panel (pg ?t) = TrendChart demo_geometry demo_days x daily ?p" by simp
  from chart_shows_selected [OF r c'] have "tooltip_hidden ?p
      \<or> tooltip_html ?p = trendTooltip (demo_days ! nat (selected ?p))" by blast
  ultimately have "tooltip_html ?p = trendTooltip (demo_day ''2026-01-01'' 5)" by (simp add: demo_days_def)
  with r c' show ?thesis by blast
qed

text \<open>
  C24: refinement. A laid-out plot follows a cursor over the days, event by event. In every
  reachable state each event stands for an event of the cursor, and what becomes of the plot is
  what becomes of the cursor: hovering and tapping put it on the day under the pointer, and a tap
  gives it the focus; the arrows, Home and End move it one day back or on, to the first or the last
  day, and no further; from no day they start at the last; Escape and a mouse that leaves hide it
  where it is; losing the focus forgets the day; and other keys and pointers change nothing.
\<close>

theorem plot_refines_cursor:
  assumes "reachable (\<lambda>st. st = plot_init) (live_move g ds) st"
    and "small_geometry g w" and "g_count g = length ds" and "laid_out l" and "pointed e"
    and "plot_step g ds l e st = Some st'"
  shows "\<exists>c. event_of g (length ds) l e = Some c
    \<and> cursor_next (length ds) c (cursor_of st) = Some (cursor_of st')"
  by (rule plot_step_follows [OF cursor.always [OF assms(1)] assms(2-6)])

theorem plot_refines_cursor_witness:
  "cursor_next 2 GoFirst (cursor_of plot_init)
     = Some (cursor_of (plot_show demo_geometry demo_days demo_layout 0 plot_init))"
proof -
  have "reachable (\<lambda>st. st = plot_init) (live_move demo_geometry demo_days) plot_init"
    by (rule reachable.start) simp
  moreover have "plot_step demo_geometry demo_days demo_layout (PlotKey ''Home'') plot_init
      = Some (plot_show demo_geometry demo_days demo_layout 0 plot_init)" by (rule demo_home)
  moreover have "length demo_days = 2" by (simp add: demo_days_def)
  ultimately show ?thesis
    using plot_refines_cursor [OF _ demo_small demo_laid_out, of plot_init "PlotKey ''Home''"]
    by (simp add: pointed_def key_event_def)
qed

text \<open>
  C25: no handler of a laid-out plot throws: for pointer positions that are numbers every
  event has a next state.
\<close>

theorem plot_never_throws:
  assumes "small_geometry g w" and "g_count g = length ds" and "laid_out l" and "pointed e"
  shows "\<exists>st'. plot_step g ds l e st = Some st'"
  by (rule plot_step_total [OF assms])

theorem plot_never_throws_witness:
  "\<exists>st'. plot_step demo_geometry demo_days demo_layout (PointerMove (Fin 400)) plot_init = Some st'"
  by (rule plot_never_throws [OF demo_small demo_laid_out]) (simp add: pointed_def sized_def)

text \<open>
  C26: every day can be inspected with the keyboard: from every reachable state Home and then
  k times the right arrow shows day k, or the last day when there are fewer.
\<close>

theorem keyboard_reaches_days:
  assumes "reachable (\<lambda>st. st = plot_init) (plot_move g ds) st" and "ds \<noteq> []"
  shows "\<exists>st'. plot_run g ds l (PlotKey ''Home'' # replicate k (PlotKey ''ArrowRight'')) st = Some st'
    \<and> \<not> tooltip_hidden st' \<and> shows_day g ds st' \<and> selected st' = int (min (length ds - 1) k)"
  by (rule home_then_right [OF plot.always [OF assms(1)] assms(2)])

theorem keyboard_reaches_days_witness:
  "\<exists>st'. plot_run demo_geometry demo_days demo_layout [PlotKey ''Home'', PlotKey ''ArrowRight''] plot_init = Some st'
     \<and> selected st' = 1"
proof -
  have "reachable (\<lambda>st. st = plot_init) (plot_move demo_geometry demo_days) plot_init"
    by (rule reachable.start) simp
  from keyboard_reaches_days [OF this, of demo_layout 1] show ?thesis
    by (auto simp: demo_days_def)
qed

section \<open>Address, theme, errors and labels\<close>

text \<open>
  The query codec: every list of names and values survives serialization and parsing,
  whatever characters it contains.
\<close>

theorem query_round_trip: "parse (serialize ps) = ps"
  by (rule form.round)



text \<open>
  C40: the theme button. In every reachable state the label names the current and the next
  theme, the next theme follows the cycle, three clicks come back to the first, and when the
  storage works the choice survives a reload.
\<close>

theorem theme_cycles:
  assumes "reachable (\<lambda>st. \<exists>r s. st = load_theme r s) (\<lambda>st st'. \<exists>w. st' = click_theme w st) st"
  shows "theme_ok st \<and> currentTheme (click_theme w st) = nextTheme (currentTheme st)
    \<and> currentTheme (click_theme w (click_theme w (click_theme w st))) = currentTheme st
    \<and> currentTheme (load_theme True (theme_stored (click_theme True st))) = currentTheme (click_theme True st)"
proof -
  have ok: "theme_ok st" by (rule theme.always [OF assms])
  then have "currentTheme st \<in> {''auto'', ''light'', ''dark''}"
    by (auto simp: theme_ok_def currentTheme_def)
  then show ?thesis
    using ok reload_theme [OF ok] by (auto simp: theme_ok_click click_theme_current)
qed

theorem theme_cycles_witness: "theme_ok (load_theme True (Some ''dark''))"
  using theme_cycles [OF reachable.start, of "load_theme True (Some ''dark'')" True] by blast

text \<open>
  The chosen theme survives a reload when the storage works, for every choice.
\<close>

theorem theme_survives_reload:
  assumes "reachable (\<lambda>st. \<exists>r s. st = load_theme r s) (\<lambda>st st'. \<exists>w. st' = click_theme w st) st"
  shows "let st' = click_theme True st
    in currentTheme (load_theme True (theme_stored st')) = currentTheme st'
       \<and> theme_title (load_theme True (theme_stored st')) = theme_title st'"
proof -
  have ok: "theme_ok (click_theme True st)" by (rule theme_ok_click [OF theme.always [OF assms]])
  show ?thesis
    using ok click_theme_stored [OF theme.always [OF assms]]
    by (auto simp: Let_def theme_ok_def load_theme_def labelTheme_def currentTheme_def)
qed

theorem theme_survives_reload_witness:
  "currentTheme (load_theme True (theme_stored (click_theme True (load_theme False None)))) = ''light''"
proof -
  have "reachable (\<lambda>st. \<exists>r s. st = load_theme r s) (\<lambda>st st'. \<exists>w. st' = click_theme w st) (load_theme False None)"
    by (rule reachable.start) blast
  from theme_survives_reload [OF this] show ?thesis
    by (simp add: Let_def click_theme_def setTheme_def load_theme_def labelTheme_def currentTheme_def)
qed

text \<open>
  The list of errors shows every failure of the two sources exactly once, in the order
  in which they first occur: the map of the code is the removal of later duplicates.
\<close>

theorem errors_listed_once:
  "unique_failures es = rev (remdups (rev es)) \<and> set (unique_failures es) = set es
   \<and> distinct (unique_failures es)"
  by (simp add: unique_failures_remdups)

text \<open>
  Accounts that share a display name are told apart: for accounts with different logins
  two of them with the same title get different labels.
\<close>

theorem shared_names_disambiguated:
  assumes "distinct (map login as)" and "a \<in> set as" and "b \<in> set as" and "a \<noteq> b"
    and "account_title a = account_title b"
  shows "account_labels as (login a) \<noteq> account_labels as (login b)"
  by (rule same_title_labels_differ [OF assms])

theorem shared_names_disambiguated_witness:
  "let b = demo_account\<lparr>login := ''Mona''\<rparr>; as = [demo_account, b]
   in account_labels as ''Octo'' \<noteq> account_labels as ''Mona''"
  using shared_names_disambiguated [of "[demo_account, demo_account\<lparr>login := ''Mona''\<rparr>]" demo_account
      "demo_account\<lparr>login := ''Mona''\<rparr>"]
  by (simp add: demo_account_def Let_def account_title_def has_alias_def)

text \<open>
  C18: a login in another case is corrected. In every reachable session the answer of a live
  refresh leaves an address that names exactly the account the page shows, as the service
  spells it, and the same period.
\<close>

theorem address_corrected:
  assumes "reachable started (session_step h) s" and "i < length (pending s)" and "pending s ! i = t"
    and "kind t = AwaitDashboard es" and "live s t"
  shows "let p = pg (resume_dashboard h cw t es f (take_task i s))
    in f_account (locationFilters (address p)) = cur_account p
       \<and> f_period (locationFilters (address p)) = cur_period p"
proof -
  let ?s = "resume_dashboard h cw t es f (take_task i s)"
  have "filters_agree (pg s)" using session.always [OF assms(1)] by (simp add: session_ok_def)
  then have "address_exact (pg ?s)" using assms(5) by (intro resume_dashboard_exact) simp_all
  moreover have "reachable started (session_step h) ?s"
    by (rule reachable.move [OF assms(1)], rule session_step.loaded) (use assms in simp_all)
  from session.always [OF this] have "filters_agree (pg ?s)" by (simp add: session_ok_def)
  ultimately show ?thesis by (simp add: Let_def address_exact_def filters_agree_def)
qed

theorem address_corrected_witness:
  "f_account (locationFilters (address (pg (demo_load demo_address)))) = cur_account (pg (demo_load demo_address))"
proof -
  let ?s = "load_page demo_address"
  obtain t where t: "pending ?s = [t]" "kind t = AwaitDashboard []" "live ?s t"
    using load_pending [of demo_address] by blast
  from address_corrected [OF demo_reachable, of 0 t, OF _ _ t(2,3)] t(1)
  show ?thesis by (auto simp: Let_def demo_load_def)
qed

text \<open>
  C13: the page shows the data of the answer. The answer of a live refresh with data leaves
  the metrics of its totals, the chart's days, and the tables of its models and accounts, each
  for the sort specification in force; the overview of accounts is hidden exactly when one
  account is selected.
\<close>

theorem answer_shown:
  assumes "live s t" and "answer_of t s f = Some r" and "result_data r = Some d"
  shows "shows_data h cw d (pg (resume_dashboard h cw t es f s))"
  by (rule resume_dashboard_shows [OF assms])

theorem answer_shown_witness:
  "shows_data demo_host (num_of_nat 800) demo_data (pg (demo_load demo_address))"
proof -
  obtain t where t: "pending (load_page demo_address) = [t]" "live (load_page demo_address) t"
    using load_pending [of demo_address] by blast
  from t(2) have "live (take_task 0 (load_page demo_address)) t" by simp
  from answer_shown [OF this demo_answered] show ?thesis by (simp add: demo_load_def t(1))
qed

end
